(* ===== verification/Boon_Prelude.thy ===== *)
theory Boon_Prelude
  imports Complex_Main "HOL-Library.Word" "HOL-Library.List_Lexorder" "HOL-Library.Sublist"
    "HOL-Library.Code_Target_Nat"
begin

text \<open>
  The shared layer of the development: machine integers, the \<open>Result\<close> type of the Rust
  sources with its \<open>?\<close> operator, three-way comparison, saturating and checked arithmetic,
  big-endian byte strings, and \<^emph>\<open>separated\<close> byte strings (two strings that differ
  strictly at some common position), the notion on which every order-preserving key encoding
  of the program rests.
\<close>

unbundle bit_operations_syntax

named_theorems result_simps \<open>unfolding of the Result combinators\<close>
named_theorems sep_intros \<open>introduction rules for separated byte strings\<close>

section \<open>Machine integers and byte strings\<close>

type_synonym u8 = "8 word"
type_synonym u32 = "32 word"
type_synonym u64 = "64 word"
type_synonym u128 = "128 word"
type_synonym bytes = "u8 list"

text \<open>\<open>saturating_add\<close>, \<open>saturating_sub\<close>, \<open>saturating_mul\<close> and \<open>checked_add\<close> of the
  unsigned integer types, at any width.\<close>

definition saturating_add :: "'w::len word \<Rightarrow> 'w word \<Rightarrow> 'w word" where
  "saturating_add a b = (if unat a + unat b < 2 ^ LENGTH('w) then a + b else - 1)"

definition saturating_sub :: "'w::len word \<Rightarrow> 'w word \<Rightarrow> 'w word" where
  "saturating_sub a b = (if b \<le> a then a - b else 0)"

definition saturating_mul :: "'w::len word \<Rightarrow> 'w word \<Rightarrow> 'w word" where
  "saturating_mul a b = (if unat a * unat b < 2 ^ LENGTH('w) then a * b else - 1)"

definition checked_add :: "'w::len word \<Rightarrow> 'w word \<Rightarrow> 'w word option" where
  "checked_add a b = (if unat a + unat b < 2 ^ LENGTH('w) then Some (a + b) else None)"

text \<open>\<open>u64::try_from(n).unwrap_or(u64::MAX)\<close> for a length \<open>n\<close>.\<close>

definition usize_to_u64 :: "nat \<Rightarrow> u64" where
  "usize_to_u64 n = (if n < 2 ^ 64 then of_nat n else - 1)"

section \<open>Results\<close>

text \<open>
  A \<open>Result<'a, 'e>\<close> is \<open>'e + 'a\<close>: \<open>Inl\<close> is \<open>Err\<close>, \<open>Inr\<close> is \<open>Ok\<close>. The \<open>?\<close> operator is
  \<open>try_res\<close>.
\<close>

definition try_res :: "'e + 'a \<Rightarrow> ('a \<Rightarrow> 'e + 'b) \<Rightarrow> 'e + 'b" where
  "try_res r f = (case r of Inl e \<Rightarrow> Inl e | Inr x \<Rightarrow> f x)"

definition map_err :: "('e \<Rightarrow> 'f) \<Rightarrow> 'e + 'a \<Rightarrow> 'f + 'a" where
  "map_err f r = (case r of Inl e \<Rightarrow> Inl (f e) | Inr x \<Rightarrow> Inr x)"

definition ok_or :: "'e \<Rightarrow> 'a option \<Rightarrow> 'e + 'a" where
  "ok_or e r = (case r of None \<Rightarrow> Inl e | Some x \<Rightarrow> Inr x)"

definition ensure :: "bool \<Rightarrow> 'e \<Rightarrow> 'e + unit" where
  "ensure b e = (if b then Inr () else Inl e)"

section \<open>Three-way comparison\<close>

datatype ordering = Less | Equal | Greater

definition cmp :: "'a::linorder \<Rightarrow> 'a \<Rightarrow> ordering" where
  "cmp a b = (if a < b then Less else if a = b then Equal else Greater)"

definition then_with :: "ordering \<Rightarrow> ordering \<Rightarrow> ordering" where
  "then_with a b = (case a of Equal \<Rightarrow> b | _ \<Rightarrow> a)"

section \<open>Bit lengths and big-endian byte strings\<close>

text \<open>\<open>bit_length n\<close> is the number of significant bits of \<open>n\<close>; \<open>be_min\<close> the minimal
  big-endian byte string (empty for 0), \<open>be_fixed k\<close> the big-endian string of \<open>k\<close> bytes
  (\<open>to_be_bytes\<close> of a \<open>8 * k\<close>-bit integer), \<open>be_nat\<close> the number a byte string denotes.\<close>

fun bit_length :: "nat \<Rightarrow> nat" where
  "bit_length n = (if n = 0 then 0 else Suc (bit_length (n div 2)))"

fun be_min :: "nat \<Rightarrow> bytes" where
  "be_min n = (if n = 0 then [] else be_min (n div 256) @ [of_nat n])"

fun be_fixed :: "nat \<Rightarrow> nat \<Rightarrow> bytes" where
  "be_fixed 0 n = []"
| "be_fixed (Suc k) n = be_fixed k (n div 256) @ [of_nat n]"

definition be_nat :: "bytes \<Rightarrow> nat" where
  "be_nat bs = foldl (\<lambda>a b. a * 256 + unat b) 0 bs"

declare bit_length.simps [simp del] be_min.simps [simp del]

section \<open>Separated lists\<close>

text \<open>\<open>lex_sep xs ys\<close>: the first position where the two lists differ exists in both, and
  \<open>xs\<close> is smaller there. Unlike the lexicographic order this survives appending anything to
  either side, and turns around when every element is complemented.\<close>

fun lex_sep :: "'a::linorder list \<Rightarrow> 'a list \<Rightarrow> bool" where
  "lex_sep (x # xs) (y # ys) \<longleftrightarrow> x < y \<or> x = y \<and> lex_sep xs ys"
| "lex_sep [] _ \<longleftrightarrow> False"
| "lex_sep _ [] \<longleftrightarrow> False"

text \<open>A fallible method on a state returns its result with the state it leaves, also when it fails;
  \<open>try_st\<close> is the \<open>?\<close> of such methods.\<close>

definition try_st :: "('e + 'a) \<times> 's \<Rightarrow> ('a \<Rightarrow> 's \<Rightarrow> ('e + 'b) \<times> 's) \<Rightarrow> ('e + 'b) \<times> 's" where
  "try_st r f = (case r of (Inl e, s) \<Rightarrow> (Inl e, s) | (Inr x, s) \<Rightarrow> f x s)"

section \<open>Lemmas on results and words\<close>

lemma try_res_simps [simp]:
  "try_res (Inl e) f = Inl e" "try_res (Inr x) f = f x"
  by (simp_all add: try_res_def)

lemma try_res_assoc: "try_res (try_res x f) g = try_res x (\<lambda>v. try_res (f v) g)"
  by (cases x) simp_all

lemma try_st_simps [simp]:
  "try_st (Inl e, s) f = (Inl e, s)" "try_st (Inr x, s) f = f x s"
  by (simp_all add: try_st_def)

lemma try_st_eq_Inr:
  "try_st r f = (Inr y, s') \<longleftrightarrow> (\<exists>x s. r = (Inr x, s) \<and> f x s = (Inr y, s'))"
  by (auto simp: try_st_def split: prod.splits sum.splits)

lemma try_res_eq_Inr [simp]:
  "try_res r f = Inr y \<longleftrightarrow> (\<exists>x. r = Inr x \<and> f x = Inr y)"
  by (cases r) auto

lemma try_res_eq_Inl:
  "try_res r f = Inl e \<longleftrightarrow> r = Inl e \<or> (\<exists>x. r = Inr x \<and> f x = Inl e)"
  by (cases r) auto

lemma Inr_eq_try_res [simp]:
  "Inr y = try_res r f \<longleftrightarrow> (\<exists>x. r = Inr x \<and> f x = Inr y)"
  by (cases r) auto

lemma Inl_eq_try_res:
  "Inl e = try_res r f \<longleftrightarrow> r = Inl e \<or> (\<exists>x. r = Inr x \<and> f x = Inl e)"
  by (cases r) auto

lemmas try_res_Inl = try_res_eq_Inl Inl_eq_try_res

lemma map_err_simps [simp]:
  "map_err f (Inl e) = Inl (f e)" "map_err f (Inr x) = Inr x"
  by (simp_all add: map_err_def)

lemma map_err_eq_Inr [simp]: "map_err f r = Inr y \<longleftrightarrow> r = Inr y"
  by (cases r) auto

lemma ok_or_simps [simp]:
  "ok_or e None = Inl e" "ok_or e (Some x) = Inr x"
  by (simp_all add: ok_or_def)

lemma ok_or_eq_Inr [simp]: "ok_or e r = Inr x \<longleftrightarrow> r = Some x"
  by (cases r) auto

lemma ensure_simps [simp]:
  "ensure True e = Inr ()" "ensure False e = Inl e"
  "ensure b e = Inr u \<longleftrightarrow> b"
  by (simp_all add: ensure_def)

lemma cmp_simps [simp]:
  "cmp a b = Less \<longleftrightarrow> a < b" "cmp a b = Equal \<longleftrightarrow> a = b" "cmp a b = Greater \<longleftrightarrow> b < a"
  by (auto simp: cmp_def)

lemma unat_saturating_add:
  "unat (saturating_add a b) = min (unat a + unat b) (2 ^ LENGTH('w) - 1)"
  for a b :: "'w::len word"
proof (cases "unat a + unat b < 2 ^ LENGTH('w)")
  case True
  then show ?thesis by (simp add: saturating_add_def unat_word_ariths)
next
  case False
  then show ?thesis by (simp add: saturating_add_def unsigned_minus_1_eq_mask mask_eq_exp_minus_1)
qed

lemma unat_saturating_sub: "unat (saturating_sub a b) = unat a - unat b"
  for a b :: "'w::len word"
  by (simp add: saturating_sub_def unat_sub word_le_nat_alt)

lemma checked_add_Some:
  "checked_add a b = Some c \<longleftrightarrow> unat a + unat b < 2 ^ LENGTH('w) \<and> c = a + b"
  for a b :: "'w::len word"
  by (auto simp: checked_add_def)

lemma checked_add_unat:
  "checked_add a b = Some c \<Longrightarrow> unat c = unat a + unat b"
  for a b :: "'w::len word"
  by (auto simp: checked_add_Some unat_word_ariths)

section \<open>Lemmas on big-endian byte strings\<close>

lemma be_nat_Nil [simp]: "be_nat [] = 0"
  by (simp add: be_nat_def)

lemma be_nat_snoc [simp]: "be_nat (bs @ [b]) = be_nat bs * 256 + unat b"
  by (simp add: be_nat_def)

lemma unat_u8_less: "unat (b :: u8) < 256"
  using unsigned_less [of b] by simp

lemma unat_of_nat_u8: "unat (of_nat n :: u8) = n mod 256"
  by (simp add: unat_of_nat)

lemma length_be_fixed [simp]: "length (be_fixed k n) = k"
  by (induction k arbitrary: n) auto

lemma be_nat_less: "be_nat bs < 256 ^ length bs"
proof (induction bs rule: rev_induct)
  case (snoc b bs)
  from snoc have "(be_nat bs + 1) * 256 \<le> 256 ^ length bs * 256" by (intro mult_right_mono) simp_all
  moreover have "unat b < 256" by (rule unat_u8_less)
  ultimately show ?case by simp
qed simp

lemma be_nat_be_fixed: "be_nat (be_fixed k n) = n mod 256 ^ k"
proof (induction k arbitrary: n)
  case (Suc k)
  have "n mod (256 * 256 ^ k) = 256 * (n div 256 mod 256 ^ k) + n mod 256"
    by (rule mod_mult2_eq)
  with Suc show ?case by (simp add: unat_of_nat_u8)
qed simp

lemma of_nat_shift_u8: "(of_nat (256 * a + unat b) :: u8) = b"
  by (rule word_unat_eq_iff [THEN iffD2])
    (simp only: unat_of_nat_u8, simp add: unat_u8_less)

lemma be_fixed_be_nat: "be_fixed (length bs) (be_nat bs) = bs"
proof (induction bs rule: rev_induct)
  case (snoc b bs)
  have "unat b < 256" by (rule unat_u8_less)
  then have "(be_nat bs * 256 + unat b) div 256 = be_nat bs" by simp
  moreover have "(of_nat (be_nat bs * 256 + unat b) :: u8) = b"
    using of_nat_shift_u8 [of "be_nat bs" b] by (simp only: mult.commute)
  ultimately show ?case using snoc by simp
qed simp

lemma be_nat_inject:
  assumes "length xs = length ys" and "be_nat xs = be_nat ys"
  shows "xs = ys"
  using assms be_fixed_be_nat by metis

lemma be_nat_append: "be_nat (xs @ ys) = be_nat xs * 256 ^ length ys + be_nat ys"
  by (induction ys rule: rev_induct) (auto simp flip: append_assoc simp: algebra_simps)

lemma be_min_0 [simp]: "be_min 0 = []"
  by (simp add: be_min.simps)

lemma be_min_eq_Nil [simp]: "be_min n = [] \<longleftrightarrow> n = 0"
  by (subst be_min.simps) simp

lemma be_nat_be_min [simp]: "be_nat (be_min n) = n"
proof (induction n rule: be_min.induct)
  case (1 n)
  show ?case
  proof (cases "n = 0")
    case False
    with 1 have "be_nat (be_min (n div 256)) = n div 256" by blast
    with False show ?thesis by (subst be_min.simps) (simp add: unat_of_nat_u8)
  qed simp
qed

text \<open>A minimal byte string (no leading zero) is the one \<open>be_min\<close> produces.\<close>

lemma be_min_hd: "n \<noteq> 0 \<Longrightarrow> hd (be_min n) \<noteq> 0"
proof (induction n rule: be_min.induct)
  case (1 n)
  show ?case
  proof (cases "n div 256 = 0")
    case True
    then have "unat (of_nat n :: u8) = n" by (simp add: unat_of_nat_u8)
    with True "1.prems" show ?thesis by (subst be_min.simps) (auto simp: unat_eq_0)
  next
    case False
    with 1 have "hd (be_min (n div 256)) \<noteq> 0" by blast
    with False "1.prems" show ?thesis by (subst be_min.simps) simp
  qed
qed

lemma be_min_be_nat: "bs = [] \<or> hd bs \<noteq> 0 \<Longrightarrow> be_min (be_nat bs) = bs"
proof (induction bs rule: rev_induct)
  case (snoc b bs)
  have less: "unat b < 256" by (rule unat_u8_less)
  have word: "(of_nat (be_nat bs * 256 + unat b) :: u8) = b"
    using of_nat_shift_u8 [of "be_nat bs" b] by (simp only: mult.commute)
  have "be_nat bs * 256 + unat b \<noteq> 0"
  proof (cases bs)
    case Nil
    with snoc.prems show ?thesis by (auto simp: unat_eq_0)
  next
    case (Cons c cs)
    with snoc have "be_min (be_nat bs) = bs" by simp
    with Cons have "be_nat bs \<noteq> 0" by (metis be_min_0 list.distinct(1))
    then show ?thesis by simp
  qed
  moreover have "be_min (be_nat bs) = bs"
    using snoc by (cases bs) auto
  ultimately show ?case using less word by (subst be_min.simps) simp
qed simp

section \<open>Lemmas on bit lengths\<close>

lemma bit_length_0 [simp]: "bit_length 0 = 0"
  by (simp add: bit_length.simps)

lemma bit_length_eq_0 [simp]: "bit_length n = 0 \<longleftrightarrow> n = 0"
  by (subst bit_length.simps) simp

lemma bit_length_le_iff: "bit_length n \<le> k \<longleftrightarrow> n < 2 ^ k"
proof (induction k arbitrary: n)
  case (Suc k)
  show ?case
  proof (cases "n = 0")
    case False
    then have "bit_length n \<le> Suc k \<longleftrightarrow> n div 2 < 2 ^ k"
      by (subst bit_length.simps) (simp add: Suc)
    also have "\<dots> \<longleftrightarrow> n < 2 ^ Suc k" by (simp add: div_less_iff_less_mult mult.commute)
    finally show ?thesis .
  qed simp
qed simp

lemma less_bit_length: "n < 2 ^ bit_length n"
  using bit_length_le_iff by blast

lemma bit_length_lower: "n \<noteq> 0 \<Longrightarrow> 2 ^ (bit_length n - 1) \<le> n"
  using bit_length_le_iff [of n "bit_length n - 1"]
  by (metis bit_length_eq_0 diff_less less_irrefl not_less zero_less_one zero_less_iff_neq_zero
      le_neq_implies_less diff_le_self)

lemma bit_length_mono: "m \<le> n \<Longrightarrow> bit_length m \<le> bit_length n"
  using bit_length_le_iff less_bit_length order.strict_trans1 by blast

section \<open>Lemmas on separated lists\<close>

lemma lex_sep_less: "lex_sep xs ys \<Longrightarrow> xs < ys"
  by (induction xs ys rule: lex_sep.induct) auto

lemma lex_sep_append [sep_intros]: "lex_sep xs ys \<Longrightarrow> lex_sep (xs @ us) (ys @ vs)"
  by (induction xs ys rule: lex_sep.induct) auto

lemma lex_sep_same_prefix [simp]: "lex_sep (us @ xs) (us @ ys) \<longleftrightarrow> lex_sep xs ys"
  by (induction us) auto

lemma lex_sep_not_prefix: "lex_sep xs ys \<Longrightarrow> \<not> prefix xs ys \<and> \<not> prefix ys xs"
  by (induction xs ys rule: lex_sep.induct) auto

lemma lex_sep_ex:
  "lex_sep xs ys \<longleftrightarrow> (\<exists>p a b us vs. xs = p @ a # us \<and> ys = p @ b # vs \<and> a < b)"
proof
  assume "lex_sep xs ys"
  then show "\<exists>p a b us vs. xs = p @ a # us \<and> ys = p @ b # vs \<and> a < b"
  proof (induction xs ys rule: lex_sep.induct)
    case (1 x xs y ys)
    show ?case
    proof (cases "x < y")
      case True
      then show ?thesis by (intro exI [of _ "[]"]) auto
    next
      case False
      with 1 obtain p a b us vs where "xs = p @ a # us" "ys = p @ b # vs" "a < b" "x = y" by auto
      then show ?thesis by (intro exI [of _ "x # p"]) auto
    qed
  qed simp_all
qed auto

lemma lex_sep_antisym: "lex_sep xs ys \<Longrightarrow> \<not> lex_sep ys xs"
  by (meson lex_sep_less order.asym)

lemma lex_sep_map_antimono:
  assumes "lex_sep xs ys" and "\<And>a b. a < b \<Longrightarrow> f b < f a"
  shows "lex_sep (map f ys) (map f xs)"
  using assms(1) by (induction xs ys rule: lex_sep.induct) (auto intro: assms(2))

lemma lex_sep_equal_length:
  "length xs = length ys \<Longrightarrow> xs < ys \<longleftrightarrow> lex_sep xs ys"
  by (induction xs ys rule: list_induct2) auto

lemma lex_sep_be_fixed:
  "m < n \<Longrightarrow> n < 256 ^ k \<Longrightarrow> lex_sep (be_fixed k m) (be_fixed k n)"
proof (induction k arbitrary: m n)
  case (Suc k)
  show ?case
  proof (cases "m div 256 = n div 256")
    case True
    then have "m mod 256 < n mod 256"
      using Suc.prems(1) by (metis add_less_cancel_left mult_div_mod_eq)
    then have "(of_nat m :: u8) < of_nat n"
      by (simp add: word_less_nat_alt unat_of_nat_u8)
    with True show ?thesis by simp
  next
    case False
    then have "m div 256 < n div 256" using Suc.prems(1) by (simp add: div_le_mono le_neq_implies_less)
    moreover have "n div 256 < 256 ^ k" using Suc.prems(2) by (simp add: div_less_iff_less_mult mult.commute)
    ultimately have "lex_sep (be_fixed k (m div 256)) (be_fixed k (n div 256))" by (rule Suc.IH)
    then show ?thesis by (simp add: sep_intros)
  qed
qed simp

lemma not_u8_antimono: "a < b \<Longrightarrow> NOT b < NOT (a :: u8)"
  by transfer (simp add: take_bit_not_eq_mask_diff)

end
