(* ===== verification/Exact_Number.thy ===== *)
theory Exact_Number
  imports Boon_Prelude "HOL-Library.Signed_Division"
begin

text \<open>
  \<^verbatim>\<open>crates/boon_data/src/number.rs\<close>: Boon's exact rational \<open>Number\<close>. The arbitrary-precision
  integers \<open>BigInt\<close> and \<open>BigUint\<close> of the sources are the integers \<^typ>\<open>int\<close> and the naturals
  \<^typ>\<open>nat\<close>; \<open>/\<close> on \<open>BigInt\<close> truncates (\<open>sdiv\<close>), \<open>div_floor\<close> and \<open>mod_floor\<close> round down
  (\<open>div\<close>, \<open>mod\<close>). A bit count of a component is a natural, saturated at 64 bits where the code
  saturates. Every error message of the code is one constructor of \<open>number_error\<close>, with the
  values the message shows. The abstraction of a number is the rational it denotes
  (\<open>rat_of\<close>); \<open>canonical\<close> is the invariant stated at the type's declaration.
\<close>

section \<open>Limits, signs, rounding rules and errors\<close>

definition MAX_NUMBER_COMPONENT_BITS :: nat where
  "MAX_NUMBER_COMPONENT_BITS = 1048576"

definition MAX_NUMBER_PARSED_DIGITS :: nat where
  "MAX_NUMBER_PARSED_DIGITS = 4096"

definition MAX_NUMBER_FORMATTED_DIGITS :: nat where
  "MAX_NUMBER_FORMATTED_DIGITS = 4096"

definition MAX_NUMBER_ARITHMETIC_BIT_WORK :: nat where
  "MAX_NUMBER_ARITHMETIC_BIT_WORK = 16 * 1024 * 1024"

record exact_number_semantic_profile =
  max_numerator_bits :: nat
  max_denominator_bits :: nat
  max_parsed_digits :: nat
  max_formatted_digits :: nat
  max_arithmetic_bit_work :: nat

definition default_profile :: exact_number_semantic_profile where
  "default_profile = \<lparr>
     max_numerator_bits = MAX_NUMBER_COMPONENT_BITS,
     max_denominator_bits = MAX_NUMBER_COMPONENT_BITS,
     max_parsed_digits = MAX_NUMBER_PARSED_DIGITS,
     max_formatted_digits = MAX_NUMBER_FORMATTED_DIGITS,
     max_arithmetic_bit_work = MAX_NUMBER_ARITHMETIC_BIT_WORK\<rparr>"

datatype exact_number_sign = Negative | Zero | Positive

datatype exact_rounding_rule =
    NearestEven
  | NearestAwayFromZero
  | TowardZero
  | TowardPositive
  | TowardNegative
  | AwayFromZero

record exact_number =
  numerator :: int
  denominator :: nat

text \<open>A text is the list of its characters, each a Unicode scalar value.\<close>

type_synonym rtext = "nat list"

datatype text_error =
    SurroundingWhitespace
  | ParsedDigitBudget nat nat
  | FractionSyntax
  | RepeatsSeparator nat
  | IntegerEmpty
  | LeadingPlusSign
  | NotAnExactInteger rtext
  | DenominatorEmpty
  | NotAPositiveInteger rtext
  | RepeatsExponent
  | ExponentOutOfRange
  | ExponentEmpty
  | MantissaEmpty
  | NotAnExactDecimal rtext
  | ScaleOutOfRange
  | ScaleExceedsDigitBudget

datatype number_error =
    UnknownSignCode u8
  | NonFiniteBoundary
  | ZeroDenominatorRatio
  | NumeratorNotMinimal
  | DenominatorNotMinimal
  | ZeroNotUnit
  | MissingMagnitude
  | NotNormalized
  | DivisionByZero
  | RemainderNotWhole
  | RemainderByZero
  | QuantumNotPositive
  | NotWhole exact_number
  | OutsideI64 exact_number
  | OutsideU64 exact_number
  | OutsideUsize exact_number
  | NumeratorBudget nat nat
  | DenominatorBudget nat nat
  | WorkBudget string nat nat
  | FormattedDigitBudget nat nat
  | DecimalScaleExceedsU32
  | RadixNotWhole
  | TextError text_error

definition sign_try_from :: "u8 \<Rightarrow> number_error + exact_number_sign" where
  "sign_try_from value =
     (if value = 0 then Inr Negative
      else if value = 1 then Inr Zero
      else if value = 2 then Inr Positive
      else Inl (UnknownSignCode value))"

text \<open>\<open>sign as u8\<close>: the discriminant of the \<open>repr(u8)\<close> enum.\<close>

fun sign_code :: "exact_number_sign \<Rightarrow> u8" where
  "sign_code Negative = 0"
| "sign_code Zero = 1"
| "sign_code Positive = 2"

definition rounding_rules_ALL :: "exact_rounding_rule list" where
  "rounding_rules_ALL =
     [NearestEven, NearestAwayFromZero, TowardZero, TowardPositive, TowardNegative, AwayFromZero]"

fun as_tag :: "exact_rounding_rule \<Rightarrow> string" where
  "as_tag NearestEven = ''NearestEven''"
| "as_tag NearestAwayFromZero = ''NearestAwayFromZero''"
| "as_tag TowardZero = ''TowardZero''"
| "as_tag TowardPositive = ''TowardPositive''"
| "as_tag TowardNegative = ''TowardNegative''"
| "as_tag AwayFromZero = ''AwayFromZero''"

definition from_tag :: "string \<Rightarrow> exact_rounding_rule option" where
  "from_tag tag =
     (if tag = ''NearestEven'' then Some NearestEven
      else if tag = ''NearestAwayFromZero'' then Some NearestAwayFromZero
      else if tag = ''TowardZero'' then Some TowardZero
      else if tag = ''TowardPositive'' then Some TowardPositive
      else if tag = ''TowardNegative'' then Some TowardNegative
      else if tag = ''AwayFromZero'' then Some AwayFromZero
      else None)"

section \<open>Construction\<close>

definition number_zero :: exact_number where
  "number_zero = \<lparr>numerator = 0, denominator = 1\<rparr>"

definition number_one :: exact_number where
  "number_one = \<lparr>numerator = 1, denominator = 1\<rparr>"

definition from_i64 :: "64 word \<Rightarrow> exact_number" where
  "from_i64 value = \<lparr>numerator = sint value, denominator = 1\<rparr>"

definition from_u64 :: "u64 \<Rightarrow> exact_number" where
  "from_u64 value = \<lparr>numerator = uint value, denominator = 1\<rparr>"

definition from_usize :: "nat \<Rightarrow> exact_number" where
  "from_usize value = \<lparr>numerator = int value, denominator = 1\<rparr>"

definition magnitude :: "exact_number \<Rightarrow> nat" where
  "magnitude n = nat \<bar>numerator n\<bar>"

definition component_bits :: "exact_number \<Rightarrow> nat \<times> nat" where
  "component_bits n = (bit_length (magnitude n), bit_length (denominator n))"

definition check_profile ::
  "exact_number \<Rightarrow> exact_number_semantic_profile \<Rightarrow> number_error + unit" where
  "check_profile n profile =
     (let (numerator_bits, denominator_bits) = component_bits n in
      if numerator_bits > max_numerator_bits profile
      then Inl (NumeratorBudget numerator_bits (max_numerator_bits profile))
      else if denominator_bits > max_denominator_bits profile
      then Inl (DenominatorBudget denominator_bits (max_denominator_bits profile))
      else Inr ())"

definition saturating_add_bits :: "nat \<Rightarrow> nat \<Rightarrow> nat" where
  "saturating_add_bits a b = min (a + b) (2 ^ 64 - 1)"

definition saturating_mul_bits :: "nat \<Rightarrow> nat \<Rightarrow> nat" where
  "saturating_mul_bits a b = min (a * b) (2 ^ 64 - 1)"

definition check_binary_work ::
  "exact_number \<Rightarrow> exact_number \<Rightarrow> exact_number_semantic_profile \<Rightarrow> string
     \<Rightarrow> number_error + unit" where
  "check_binary_work a b profile operation =
     (let (left_numerator, left_denominator) = component_bits a;
          (right_numerator, right_denominator) = component_bits b;
          work = saturating_mul_bits (saturating_add_bits left_numerator left_denominator)
                   (saturating_add_bits right_numerator right_denominator)
      in if work > max_arithmetic_bit_work profile
         then Inl (WorkBudget operation work (max_arithmetic_bit_work profile))
         else Inr ())"

definition from_ratio_with_profile ::
  "int \<Rightarrow> nat \<Rightarrow> exact_number_semantic_profile \<Rightarrow> number_error + exact_number" where
  "from_ratio_with_profile num den profile =
     (if den = 0 then Inl ZeroDenominatorRatio
      else if num = 0 then Inr number_zero
      else let g = gcd (nat \<bar>num\<bar>) den;
               value = \<lparr>numerator = num sdiv int g, denominator = den div g\<rparr>
           in try_res (check_profile value profile) (\<lambda>_. Inr value))"

definition from_ratio :: "int \<Rightarrow> nat \<Rightarrow> number_error + exact_number" where
  "from_ratio num den = from_ratio_with_profile num den default_profile"

text \<open>\<open>from_f64_boundary_exact\<close> reads the IEEE-754 bits of its argument, so the argument of the
  model is \<open>value.to_bits()\<close>: a binary64 is finite when its exponent field is not all ones, and
  is \<open>0.0\<close> or \<open>-0.0\<close> when everything but the sign is 0.\<close>

definition from_f64_boundary_exact :: "u64 \<Rightarrow> number_error + exact_number" where
  "from_f64_boundary_exact bits =
     (let exponent_bits = uint (drop_bit 52 bits AND 0x7FF);
          fraction = unat (bits AND (push_bit 52 1 - 1))
      in if exponent_bits = 0x7FF then Inl NonFiniteBoundary
         else if exponent_bits = 0 \<and> fraction = 0 then Inr number_zero
         else
           let negative = (drop_bit 63 bits \<noteq> 0);
               (significand, exponent) =
                 (if exponent_bits = 0 then (fraction, - 1074)
                  else (unat (push_bit 52 1 OR (bits AND (push_bit 52 1 - 1))),
                        exponent_bits - 1023 - 52));
               num = (if exponent \<ge> 0 then significand * 2 ^ nat exponent else significand);
               den = (if exponent \<ge> 0 then 1 else 2 ^ nat (- exponent))
           in from_ratio (if negative then - int num else int num) den)"

section \<open>Canonical bytes\<close>

definition from_canonical_bytes_with_profile ::
  "exact_number_sign \<Rightarrow> bytes \<Rightarrow> bytes \<Rightarrow> exact_number_semantic_profile
     \<Rightarrow> number_error + exact_number" where
  "from_canonical_bytes_with_profile sign numerator_magnitude den_bytes profile =
     (if numerator_magnitude \<noteq> [] \<and> hd numerator_magnitude = 0 then Inl NumeratorNotMinimal
      else if den_bytes = [] \<or> hd den_bytes = 0 then Inl DenominatorNotMinimal
      else let den = be_nat den_bytes in
        if den = 0 then Inl ZeroDenominatorRatio
        else let mag = be_nat numerator_magnitude in
          if sign = Zero then
            (if numerator_magnitude \<noteq> [] \<or> den \<noteq> 1 then Inl ZeroNotUnit else Inr number_zero)
          else if numerator_magnitude = [] \<or> mag = 0 then Inl MissingMagnitude
          else let num = (if sign = Negative then - int mag else int mag) in
            if gcd (nat \<bar>num\<bar>) den \<noteq> 1 then Inl NotNormalized
            else let value = \<lparr>numerator = num, denominator = den\<rparr>
                 in try_res (check_profile value profile) (\<lambda>_. Inr value))"

definition from_canonical_bytes ::
  "exact_number_sign \<Rightarrow> bytes \<Rightarrow> bytes \<Rightarrow> number_error + exact_number" where
  "from_canonical_bytes sign numerator_magnitude den_bytes =
     from_canonical_bytes_with_profile sign numerator_magnitude den_bytes default_profile"

definition number_sign :: "exact_number \<Rightarrow> exact_number_sign" where
  "number_sign n =
     (if numerator n < 0 then Negative else if numerator n = 0 then Zero else Positive)"

definition to_bytes_be :: "nat \<Rightarrow> bytes" where
  "to_bytes_be n = (if n = 0 then [0] else be_min n)"

definition numerator_magnitude_bytes :: "exact_number \<Rightarrow> bytes" where
  "numerator_magnitude_bytes n = (if numerator n = 0 then [] else to_bytes_be (magnitude n))"

definition denominator_bytes :: "exact_number \<Rightarrow> bytes" where
  "denominator_bytes n = to_bytes_be (denominator n)"

definition canonical_storage_bytes :: "exact_number \<Rightarrow> nat" where
  "canonical_storage_bytes n =
     1 + length (numerator_magnitude_bytes n) + length (denominator_bytes n)"

section \<open>Predicates and comparison\<close>

definition is_zero :: "exact_number \<Rightarrow> bool" where
  "is_zero n \<longleftrightarrow> numerator n = 0"

definition is_positive :: "exact_number \<Rightarrow> bool" where
  "is_positive n \<longleftrightarrow> numerator n > 0"

definition is_negative :: "exact_number \<Rightarrow> bool" where
  "is_negative n \<longleftrightarrow> numerator n < 0"

definition is_whole :: "exact_number \<Rightarrow> bool" where
  "is_whole n \<longleftrightarrow> denominator n = 1"

definition number_eq :: "exact_number \<Rightarrow> exact_number \<Rightarrow> bool" where
  "number_eq a b \<longleftrightarrow> numerator a = numerator b \<and> denominator a = denominator b"

definition number_cmp :: "exact_number \<Rightarrow> exact_number \<Rightarrow> ordering" where
  "number_cmp a b =
     cmp (numerator a * int (denominator b)) (numerator b * int (denominator a))"

section \<open>Arithmetic\<close>

definition checked_add_with_profile ::
  "exact_number \<Rightarrow> exact_number \<Rightarrow> exact_number_semantic_profile \<Rightarrow> number_error + exact_number"
where
  "checked_add_with_profile a b profile =
     try_res (check_binary_work a b profile ''addition'') (\<lambda>_.
       from_ratio_with_profile
         (numerator a * int (denominator b) + numerator b * int (denominator a))
         (denominator a * denominator b) profile)"

definition checked_sub_with_profile ::
  "exact_number \<Rightarrow> exact_number \<Rightarrow> exact_number_semantic_profile \<Rightarrow> number_error + exact_number"
where
  "checked_sub_with_profile a b profile =
     try_res (check_binary_work a b profile ''subtraction'') (\<lambda>_.
       from_ratio_with_profile
         (numerator a * int (denominator b) - numerator b * int (denominator a))
         (denominator a * denominator b) profile)"

definition checked_mul_with_profile ::
  "exact_number \<Rightarrow> exact_number \<Rightarrow> exact_number_semantic_profile \<Rightarrow> number_error + exact_number"
where
  "checked_mul_with_profile a b profile =
     try_res (check_binary_work a b profile ''multiplication'') (\<lambda>_.
       let left_cancel = gcd (magnitude a) (denominator b);
           right_cancel = gcd (magnitude b) (denominator a);
           left_numerator = numerator a sdiv int left_cancel;
           right_numerator = numerator b sdiv int right_cancel;
           left_denominator = denominator a div right_cancel;
           right_denominator = denominator b div left_cancel
       in from_ratio_with_profile (left_numerator * right_numerator)
            (left_denominator * right_denominator) profile)"

definition checked_div_with_profile ::
  "exact_number \<Rightarrow> exact_number \<Rightarrow> exact_number_semantic_profile \<Rightarrow> number_error + exact_number"
where
  "checked_div_with_profile a b profile =
     (if is_zero b then Inl DivisionByZero
      else try_res (check_binary_work a b profile ''division'') (\<lambda>_.
        let plus = (sgn (numerator a) = sgn (numerator b));
            mag = int (magnitude a * denominator b);
            num = (if is_zero a then 0 else if plus then mag else - mag)
        in from_ratio_with_profile num (denominator a * magnitude b) profile))"

definition checked_add_default :: "exact_number \<Rightarrow> exact_number \<Rightarrow> number_error + exact_number" where
  "checked_add_default a b = checked_add_with_profile a b default_profile"

definition checked_sub_default :: "exact_number \<Rightarrow> exact_number \<Rightarrow> number_error + exact_number" where
  "checked_sub_default a b = checked_sub_with_profile a b default_profile"

definition checked_mul_default :: "exact_number \<Rightarrow> exact_number \<Rightarrow> number_error + exact_number" where
  "checked_mul_default a b = checked_mul_with_profile a b default_profile"

definition checked_div_default :: "exact_number \<Rightarrow> exact_number \<Rightarrow> number_error + exact_number" where
  "checked_div_default a b = checked_div_with_profile a b default_profile"

definition checked_rem :: "exact_number \<Rightarrow> exact_number \<Rightarrow> number_error + exact_number" where
  "checked_rem a b =
     (if \<not> is_whole a \<or> \<not> is_whole b then Inl RemainderNotWhole
      else if is_zero b then Inl RemainderByZero
      else Inr \<lparr>numerator = numerator a mod \<bar>numerator b\<bar>, denominator = 1\<rparr>)"

text \<open>The integer \<open>round_to_with_profile\<close> picks between the floor and the ceiling of the scaled
  number.\<close>

definition rounded :: "exact_rounding_rule \<Rightarrow> exact_number \<Rightarrow> int" where
  "rounded rule scaled =
     (let den = int (denominator scaled);
          floor' = numerator scaled div den;
          remainder = numerator scaled mod den;
          exact = (remainder = 0);
          ceil' = (if exact then floor' else floor' + 1)
      in case rule of
           TowardNegative \<Rightarrow> floor'
         | TowardPositive \<Rightarrow> ceil'
         | TowardZero \<Rightarrow> if is_negative scaled \<and> \<not> exact then ceil' else floor'
         | AwayFromZero \<Rightarrow> if is_negative scaled then floor' else ceil'
         | NearestEven \<Rightarrow>
             (case cmp (remainder * 2) den of
                Less \<Rightarrow> floor' | Greater \<Rightarrow> ceil'
              | Equal \<Rightarrow> if even floor' then floor' else ceil')
         | NearestAwayFromZero \<Rightarrow>
             (case cmp (remainder * 2) den of
                Less \<Rightarrow> floor' | Greater \<Rightarrow> ceil'
              | Equal \<Rightarrow> if is_negative scaled then floor' else ceil'))"

definition round_to_with_profile ::
  "exact_number \<Rightarrow> exact_number \<Rightarrow> exact_rounding_rule \<Rightarrow> exact_number_semantic_profile
     \<Rightarrow> number_error + exact_number" where
  "round_to_with_profile n quantum rule profile =
     (if \<not> is_positive quantum then Inl QuantumNotPositive
      else try_res (checked_div_with_profile n quantum profile) (\<lambda>scaled.
        checked_mul_with_profile quantum
          \<lparr>numerator = rounded rule scaled, denominator = 1\<rparr> profile))"

definition round_to ::
  "exact_number \<Rightarrow> exact_number \<Rightarrow> exact_rounding_rule \<Rightarrow> number_error + exact_number" where
  "round_to n quantum rule = round_to_with_profile n quantum rule default_profile"

definition number_floor :: "exact_number \<Rightarrow> exact_number" where
  "number_floor n = \<lparr>numerator = numerator n div int (denominator n), denominator = 1\<rparr>"

definition number_ceil :: "exact_number \<Rightarrow> exact_number" where
  "number_ceil n = \<lparr>numerator = - ((- numerator n) div int (denominator n)), denominator = 1\<rparr>"

definition number_truncate :: "exact_number \<Rightarrow> exact_number" where
  "number_truncate n = \<lparr>numerator = numerator n sdiv int (denominator n), denominator = 1\<rparr>"

definition number_abs :: "exact_number \<Rightarrow> exact_number" where
  "number_abs n = n\<lparr>numerator := \<bar>numerator n\<bar>\<rparr>"

section \<open>Conversions to machine integers\<close>

definition to_i64_exact :: "exact_number \<Rightarrow> number_error + 64 word" where
  "to_i64_exact n =
     (if \<not> is_whole n then Inl (NotWhole n)
      else if - (2 ^ 63) \<le> numerator n \<and> numerator n < 2 ^ 63
      then Inr (word_of_int (numerator n)) else Inl (OutsideI64 n))"

definition to_u64_exact :: "exact_number \<Rightarrow> number_error + u64" where
  "to_u64_exact n =
     (if \<not> is_whole n then Inl (NotWhole n)
      else if 0 \<le> numerator n \<and> numerator n < 2 ^ 64
      then Inr (word_of_int (numerator n)) else Inl (OutsideU64 n))"

definition to_usize_exact :: "exact_number \<Rightarrow> number_error + nat" where
  "to_usize_exact n =
     (if \<not> is_whole n then Inl (NotWhole n)
      else if 0 \<le> numerator n \<and> numerator n < 2 ^ 64
      then Inr (nat (numerator n)) else Inl (OutsideUsize n))"

definition to_bigint_exact :: "exact_number \<Rightarrow> number_error + int" where
  "to_bigint_exact n = (if \<not> is_whole n then Inl (NotWhole n) else Inr (numerator n))"

section \<open>Abstraction and invariant\<close>

text \<open>A number denotes a rational; \<open>canonical\<close> is the documented representation invariant.
  \<open>number_of_rat\<close> is the one canonical number of a rational, and \<open>fit\<close> what the code returns
  for an exact result: that number, or the budget error its components cause.\<close>

definition rat_of :: "exact_number \<Rightarrow> rat" where
  "rat_of n = Fract (numerator n) (int (denominator n))"

definition canonical :: "exact_number \<Rightarrow> bool" where
  "canonical n \<longleftrightarrow> denominator n > 0 \<and> coprime (numerator n) (int (denominator n))"

definition number_of_rat :: "rat \<Rightarrow> exact_number" where
  "number_of_rat r = (let (n, d) = quotient_of r in \<lparr>numerator = n, denominator = nat d\<rparr>)"

definition fit :: "exact_number_semantic_profile \<Rightarrow> rat \<Rightarrow> number_error + exact_number" where
  "fit profile r =
     (if r = 0 then Inr number_zero
      else try_res (check_profile (number_of_rat r) profile) (\<lambda>_. Inr (number_of_rat r)))"

text \<open>What each rounding rule asks of the integer \<open>k\<close> chosen for \<open>x\<close>.\<close>

fun rounding_ok :: "exact_rounding_rule \<Rightarrow> rat \<Rightarrow> int \<Rightarrow> bool" where
  "rounding_ok TowardNegative x k \<longleftrightarrow> of_int k \<le> x \<and> x < of_int k + 1"
| "rounding_ok TowardPositive x k \<longleftrightarrow> of_int k - 1 < x \<and> x \<le> of_int k"
| "rounding_ok TowardZero x k \<longleftrightarrow>
     \<bar>of_int k\<bar> \<le> \<bar>x\<bar> \<and> \<bar>x\<bar> < \<bar>of_int k\<bar> + 1 \<and> 0 \<le> x * of_int k"
| "rounding_ok AwayFromZero x k \<longleftrightarrow>
     \<bar>x\<bar> \<le> \<bar>of_int k\<bar> \<and> \<bar>of_int k\<bar> < \<bar>x\<bar> + 1 \<and> 0 \<le> x * of_int k"
| "rounding_ok NearestEven x k \<longleftrightarrow>
     2 * \<bar>x - of_int k\<bar> \<le> 1 \<and> (2 * \<bar>x - of_int k\<bar> = 1 \<longrightarrow> even k)"
| "rounding_ok NearestAwayFromZero x k \<longleftrightarrow>
     2 * \<bar>x - of_int k\<bar> \<le> 1 \<and> (2 * \<bar>x - of_int k\<bar> = 1 \<longrightarrow> \<bar>x\<bar> < \<bar>of_int k\<bar>)"

fun budget_error :: "number_error \<Rightarrow> bool" where
  "budget_error (NumeratorBudget _ _) = True"
| "budget_error (DenominatorBudget _ _) = True"
| "budget_error (WorkBudget _ _ _) = True"
| "budget_error _ = False"

text \<open>The rational an IEEE-754 binary64 bit pattern denotes (finite patterns).\<close>

definition binary64_value :: "u64 \<Rightarrow> rat" where
  "binary64_value bits =
     (let e = unat (drop_bit 52 bits AND 0x7FF); f = unat (bits AND mask 52);
          m = (if e = 0 then of_nat f / 2 ^ 1074 else of_nat (2 ^ 52 + f) * 2 ^ e / 2 ^ 1075)
      in if drop_bit 63 bits \<noteq> 0 then - m else m)"

lemma exact_number_eqI:
  "numerator a = numerator b \<Longrightarrow> denominator a = denominator b \<Longrightarrow> a = (b :: exact_number)"
  by (cases a, cases b) simp

lemma sdiv_dvd: "g dvd n \<Longrightarrow> 0 \<le> g \<Longrightarrow> n sdiv g = n div (g :: int)"
  by (auto simp: signed_divide_int_def abs_mult sgn_mult dvd_def zdiv_zminus1_eq_if
      abs_if sgn_if div_eq_minus1 mult_less_0_iff zero_less_mult_iff)

lemma canonical_zero [simp]: "canonical number_zero"
  by (simp add: canonical_def number_zero_def)

lemma rat_of_zero [simp]: "rat_of number_zero = 0"
  by (simp add: rat_of_def number_zero_def rat_number_collapse)

lemma quotient_of_rat_of:
  "canonical n \<Longrightarrow> quotient_of (rat_of n) = (numerator n, int (denominator n))"
  by (simp add: canonical_def rat_of_def quotient_of_Fract Rat.normalize_def coprime_iff_gcd_eq_1)

lemma number_of_rat_rat_of: "canonical n \<Longrightarrow> number_of_rat (rat_of n) = n"
  by (rule exact_number_eqI) (simp_all add: number_of_rat_def quotient_of_rat_of)

lemma canonical_number_of_rat [simp]: "canonical (number_of_rat r)"
proof -
  obtain n d where q: "quotient_of r = (n, d)" by (cases "quotient_of r")
  then have "d > 0" "coprime n d"
    by (auto dest: quotient_of_denom_pos quotient_of_coprime)
  with q show ?thesis by (simp add: canonical_def number_of_rat_def)
qed

lemma rat_of_number_of_rat [simp]: "rat_of (number_of_rat r) = r"
proof -
  obtain n d where q: "quotient_of r = (n, d)" by (cases "quotient_of r")
  then have "d > 0" "r = of_int n / of_int d"
    by (auto dest: quotient_of_denom_pos quotient_of_div)
  with q show ?thesis by (simp add: rat_of_def number_of_rat_def Fract_of_int_quotient)
qed

lemma rat_of_quot: "rat_of n = of_int (numerator n) / of_nat (denominator n)"
  by (simp add: rat_of_def Fract_of_int_quotient)

lemma canonical_denominator: "canonical n \<Longrightarrow> 0 < denominator n"
  by (simp add: canonical_def)

lemma canonical_inject: "canonical a \<Longrightarrow> canonical b \<Longrightarrow> rat_of a = rat_of b \<longleftrightarrow> a = b"
  by (metis number_of_rat_rat_of)

lemma is_zero_rat: "canonical n \<Longrightarrow> is_zero n \<longleftrightarrow> rat_of n = 0"
  by (auto simp: is_zero_def rat_of_quot canonical_def)

lemma is_positive_rat: "canonical n \<Longrightarrow> is_positive n \<longleftrightarrow> 0 < rat_of n"
  by (auto simp: is_positive_def rat_of_quot canonical_def zero_less_divide_iff)

lemma is_negative_rat: "canonical n \<Longrightarrow> is_negative n \<longleftrightarrow> rat_of n < 0"
  by (auto simp: is_negative_def rat_of_quot canonical_def divide_less_0_iff)

lemma from_ratio_fit:
  assumes "0 < den"
  shows "from_ratio_with_profile num den profile = fit profile (Fract num (int den))"
proof (cases "num = 0")
  case True
  with assms show ?thesis
    by (simp add: from_ratio_with_profile_def fit_def rat_number_collapse)
next
  case False
  let ?g = "gcd (nat \<bar>num\<bar>) den"
  have g: "int ?g = gcd num (int den)" by simp
  have "num sdiv int ?g = num div int ?g"
    by (rule sdiv_dvd) (simp_all add: g)
  moreover have "number_of_rat (Fract num (int den)) =
      \<lparr>numerator = num div int ?g, denominator = den div ?g\<rparr>"
    using assms g by (simp add: number_of_rat_def quotient_of_Fract Rat.normalize_def Let_def
        nat_div_distrib gcd_nat_abs_left_eq)
  moreover have "Fract num (int den) \<noteq> 0"
    using False assms by (simp add: Fract_of_int_quotient)
  ultimately show ?thesis
    using assms False by (simp add: from_ratio_with_profile_def fit_def Let_def)
qed

lemma fit_Inr: "fit profile r = Inr n \<Longrightarrow> canonical n \<and> rat_of n = r"
  by (auto simp: fit_def split: if_splits)

lemma fit_Inl: "fit profile r = Inl e \<Longrightarrow> budget_error e"
  by (auto simp: fit_def check_profile_def Let_def try_res_eq_Inl split: if_splits prod.splits)

lemma check_binary_work_Inl: "check_binary_work a b profile op = Inl e \<Longrightarrow> budget_error e"
  by (auto simp: check_binary_work_def Let_def split: if_splits prod.splits)

section \<open>Arithmetic is rational arithmetic\<close>

lemma rat_of_mult_denominators:
  assumes "canonical a" "canonical b"
  shows "Fract (numerator a * int (denominator b) + numerator b * int (denominator a))
           (int (denominator a * denominator b)) = rat_of a + rat_of b"
    and "Fract (numerator a * int (denominator b) - numerator b * int (denominator a))
           (int (denominator a * denominator b)) = rat_of a - rat_of b"
  using assms by (simp_all add: rat_of_def canonical_def mult.commute)

lemma checked_add_fit:
  assumes "canonical a" "canonical b"
  shows "checked_add_with_profile a b profile =
    try_res (check_binary_work a b profile ''addition'') (\<lambda>_. fit profile (rat_of a + rat_of b))"
proof -
  have pos: "0 < denominator a * denominator b" using assms by (simp add: canonical_def)
  show ?thesis
    unfolding checked_add_with_profile_def from_ratio_fit [OF pos] rat_of_mult_denominators [OF assms]
    by (rule refl)
qed

lemma checked_sub_fit:
  assumes "canonical a" "canonical b"
  shows "checked_sub_with_profile a b profile =
    try_res (check_binary_work a b profile ''subtraction'') (\<lambda>_. fit profile (rat_of a - rat_of b))"
proof -
  have pos: "0 < denominator a * denominator b" using assms by (simp add: canonical_def)
  show ?thesis
    unfolding checked_sub_with_profile_def from_ratio_fit [OF pos] rat_of_mult_denominators [OF assms]
    by (rule refl)
qed

lemma cross_cancel:
  fixes n1 n2 :: int and d1 d2 g1 g2 :: nat
  assumes "0 < d1" "0 < d2" "int g1 dvd n1" "g1 dvd d2" "int g2 dvd n2" "g2 dvd d1"
  shows "Fract (n1 sdiv int g1 * (n2 sdiv int g2)) (int (d1 div g2 * (d2 div g1))) =
           Fract n1 (int d1) * Fract n2 (int d2)"
    and "0 < d1 div g2 * (d2 div g1)"
proof -
  obtain m1 where m1: "n1 = int g1 * m1" using assms by (elim dvdE)
  obtain m2 where m2: "n2 = int g2 * m2" using assms by (elim dvdE)
  obtain e1 where e1: "d1 = g2 * e1" using assms by (elim dvdE)
  obtain e2 where e2: "d2 = g1 * e2" using assms by (elim dvdE)
  from e1 e2 assms have pos: "0 < g1" "0 < g2" "0 < e1" "0 < e2" by auto
  have q: "n1 sdiv int g1 = m1" "n2 sdiv int g2 = m2"
    using assms m1 m2 pos by (simp_all add: sdiv_dvd)
  show "Fract (n1 sdiv int g1 * (n2 sdiv int g2)) (int (d1 div g2 * (d2 div g1))) =
           Fract n1 (int d1) * Fract n2 (int d2)"
    unfolding q using pos by (simp add: m1 m2 e1 e2 eq_rat)
  show "0 < d1 div g2 * (d2 div g1)" using pos by (simp add: e1 e2)
qed

lemma checked_mul_fit:
  assumes "canonical a" "canonical b"
  shows "checked_mul_with_profile a b profile =
    try_res (check_binary_work a b profile ''multiplication'') (\<lambda>_. fit profile (rat_of a * rat_of b))"
proof -
  let ?g1 = "gcd (magnitude a) (denominator b)" and ?g2 = "gcd (magnitude b) (denominator a)"
  have dvd: "int ?g1 dvd numerator a" "int ?g2 dvd numerator b"
    by (simp_all add: magnitude_def)
  have pos: "0 < denominator a" "0 < denominator b" using assms by (simp_all add: canonical_def)
  note c = cross_cancel [OF pos dvd(1) gcd_dvd2 dvd(2) gcd_dvd2]
  show ?thesis
    unfolding checked_mul_with_profile_def Let_def from_ratio_fit [OF c(2)] c(1) rat_of_def
    by (rule refl)
qed

lemma checked_div_fit:
  assumes "canonical a" "canonical b"
  shows "checked_div_with_profile a b profile =
    (if rat_of b = 0 then Inl DivisionByZero
     else try_res (check_binary_work a b profile ''division'') (\<lambda>_. fit profile (rat_of a / rat_of b)))"
proof (cases "is_zero b")
  case True
  then show ?thesis using assms by (simp add: checked_div_with_profile_def is_zero_rat)
next
  case False
  let ?num = "if is_zero a then 0
    else if sgn (numerator a) = sgn (numerator b) then int (magnitude a * denominator b)
    else - int (magnitude a * denominator b)"
  have pos: "0 < denominator a * magnitude b"
    using assms False by (simp add: canonical_def magnitude_def is_zero_def)
  have "Fract ?num (int (denominator a * magnitude b)) = rat_of a / rat_of b"
    using assms False
    by (auto simp: rat_of_quot Fract_of_int_quotient magnitude_def is_zero_def canonical_def
        sgn_if abs_if field_simps split: if_splits)
  then show ?thesis
    using False assms unfolding checked_div_with_profile_def Let_def from_ratio_fit [OF pos]
    by (simp add: is_zero_rat)
qed

section \<open>Comparison, rounding, remainder\<close>

lemma number_cmp_rat:
  assumes "canonical a" "canonical b"
  shows "number_cmp a b = cmp (rat_of a) (rat_of b)"
proof -
  have pos: "0 < int (denominator a)" "0 < int (denominator b)"
    using assms by (simp_all add: canonical_def)
  then have "0 < int (denominator a) * int (denominator b)" by simp
  then have lt: "rat_of a < rat_of b \<longleftrightarrow>
      numerator a * int (denominator b) < numerator b * int (denominator a)"
    using pos less_rat [of "int (denominator a)" "int (denominator b)"]
    by (simp only: rat_of_def mult_less_cancel_right_pos)
  have eq: "rat_of a = rat_of b \<longleftrightarrow>
      numerator a * int (denominator b) = numerator b * int (denominator a)"
    using assms by (simp add: rat_of_def canonical_def eq_rat)
  show ?thesis by (simp add: number_cmp_def cmp_def lt eq)
qed

lemma floor_split:
  assumes "canonical n"
  defines "f \<equiv> numerator n div int (denominator n)" and "r \<equiv> numerator n mod int (denominator n)"
  shows "rat_of n = of_int f + of_int r / of_nat (denominator n)"
    and "0 \<le> r" and "r < int (denominator n)"
proof -
  have pos: "0 < int (denominator n)" using assms(1) by (simp add: canonical_def)
  have "numerator n = f * int (denominator n) + r" by (simp add: f_def r_def)
  then have "(of_int (numerator n) :: rat) = of_int (f * int (denominator n) + r)" by simp
  with pos show "rat_of n = of_int f + of_int r / of_nat (denominator n)"
    by (simp add: rat_of_quot add_divide_distrib)
  show "0 \<le> r" "r < int (denominator n)" using pos by (simp_all add: r_def)
qed

lemma rounding_cases:
  fixes t :: rat and f :: int
  assumes "0 \<le> t" "t < 1"
  defines "x \<equiv> of_int f + t" and "c \<equiv> (if t = 0 then f else f + 1)"
  shows "rounding_ok TowardNegative x f"
    and "rounding_ok TowardPositive x c"
    and "rounding_ok TowardZero x (if f < 0 \<and> t \<noteq> 0 then c else f)"
    and "rounding_ok AwayFromZero x (if f < 0 then f else c)"
    and "2 * t < 1 \<Longrightarrow> rounding_ok NearestEven x f \<and> rounding_ok NearestAwayFromZero x f"
    and "2 * t > 1 \<Longrightarrow> rounding_ok NearestEven x c \<and> rounding_ok NearestAwayFromZero x c"
    and "2 * t = 1 \<Longrightarrow> rounding_ok NearestEven x (if even f then f else c)"
    and "2 * t = 1 \<Longrightarrow> rounding_ok NearestAwayFromZero x (if f < 0 then f else c)"
proof -
  have fneg: "f < 0 \<Longrightarrow> (of_int f :: rat) \<le> - 1" 
    using of_int_le_iff [of f "- 1", where 'a = rat] by simp
  have fpos: "\<not> f < 0 \<Longrightarrow> (0 :: rat) \<le> of_int f" by simp
  show "rounding_ok TowardNegative x f" using assms by simp
  show "rounding_ok TowardPositive x c" using assms by (simp add: c_def x_def)
  show "rounding_ok TowardZero x (if f < 0 \<and> t \<noteq> 0 then c else f)"
  proof (cases "f < 0")
    case True
    with fneg assms(1,2) show ?thesis
      by (auto simp: c_def x_def abs_if intro!: mult_nonpos_nonpos)
  next
    case False
    with fpos assms(1,2) show ?thesis by (simp add: x_def)
  qed
  show "rounding_ok AwayFromZero x (if f < 0 then f else c)"
  proof (cases "f < 0")
    case True
    with fneg assms(1,2) show ?thesis
      by (auto simp: x_def abs_if intro!: mult_nonpos_nonpos)
  next
    case False
    with fpos assms(1,2) show ?thesis by (auto simp: x_def c_def)
  qed
  show "rounding_ok NearestEven x f \<and> rounding_ok NearestAwayFromZero x f" if "2 * t < 1"
    using that assms(1,2) by (simp add: x_def)
  show "rounding_ok NearestEven x c \<and> rounding_ok NearestAwayFromZero x c" if "2 * t > 1"
    using that assms(1,2) by (auto simp: x_def c_def abs_if)
  show "rounding_ok NearestEven x (if even f then f else c)" if "2 * t = 1"
    using that assms(1,2) by (auto simp: x_def c_def abs_if)
  show "rounding_ok NearestAwayFromZero x (if f < 0 then f else c)" if "2 * t = 1"
    using that assms(1,2) fneg fpos by (auto simp: x_def c_def abs_if)
qed

lemma rounded_ok:
  assumes "canonical n"
  shows "rounding_ok rule (rat_of n) (rounded rule n)"
proof -
  define d where "d = int (denominator n)"
  define f where "f = numerator n div d"
  define r where "r = numerator n mod d"
  define t where "t = (of_int r / of_int d :: rat)"
  have d: "0 < d" using assms by (simp add: canonical_def d_def)
  have x: "rat_of n = of_int f + t" and r: "0 \<le> r" "r < d"
    using floor_split [OF assms] by (simp_all add: f_def r_def d_def t_def)
  have t0: "t = 0 \<longleftrightarrow> r = 0" and t: "0 \<le> t" "t < 1"
    using d r by (simp_all add: t_def divide_less_eq)
  have "2 * t < 1 \<longleftrightarrow> (of_int (r * 2) :: rat) < of_int d"
    and "2 * t = 1 \<longleftrightarrow> (of_int (r * 2) :: rat) = of_int d"
    using d by (auto simp add: t_def field_simps)
  then have half: "r * 2 < d \<longleftrightarrow> 2 * t < 1" "r * 2 = d \<longleftrightarrow> 2 * t = 1"
    by (simp_all only: of_int_less_iff of_int_eq_iff)
  have "numerator n < 0 \<longleftrightarrow> f < 0"
    using d by (simp add: f_def d_def pos_imp_zdiv_neg_iff)
  then have neg: "is_negative n \<longleftrightarrow> f < 0" by (simp add: is_negative_def)
  note c = rounding_cases [OF t, of f]
  have cut: "rounded rule n = (let k = if t = 0 then f else f + 1 in case rule of
      TowardNegative \<Rightarrow> f | TowardPositive \<Rightarrow> k
    | TowardZero \<Rightarrow> if f < 0 \<and> t \<noteq> 0 then k else f
    | AwayFromZero \<Rightarrow> if f < 0 then f else k
    | NearestEven \<Rightarrow> if 2 * t < 1 then f else if 2 * t = 1 then (if even f then f else k) else k
    | NearestAwayFromZero \<Rightarrow>
        if 2 * t < 1 then f else if 2 * t = 1 then (if f < 0 then f else k) else k)"
    unfolding rounded_def Let_def d_def [symmetric] f_def [symmetric] r_def [symmetric] neg t0
      cmp_def half
    by (cases rule) simp_all
  show ?thesis
  proof (cases rule)
    case NearestEven
    show ?thesis
    proof (cases "2 * t" "1 :: rat" rule: linorder_cases)
      case less
      with cut NearestEven have "rounded rule n = f" by (simp only: Let_def exact_rounding_rule.case if_True)
      with c(5) [OF less] show ?thesis by (simp only: x NearestEven)
    next
      case equal
      with cut NearestEven have "rounded rule n = (if even f then f else (if t = 0 then f else f + 1))"
        by (simp only: Let_def exact_rounding_rule.case if_True less_irrefl if_False simp_thms)
      with c(7) [OF equal] show ?thesis by (simp only: x NearestEven)
    next
      case greater
      then have "\<not> 2 * t < 1" "2 * t \<noteq> 1" by simp_all
      with cut NearestEven have "rounded rule n = (if t = 0 then f else f + 1)"
        by (simp only: Let_def exact_rounding_rule.case if_False)
      with c(6) [OF greater] show ?thesis by (simp only: x NearestEven)
    qed
  next
    case NearestAwayFromZero
    show ?thesis
    proof (cases "2 * t" "1 :: rat" rule: linorder_cases)
      case less
      with cut NearestAwayFromZero have "rounded rule n = f" by (simp only: Let_def exact_rounding_rule.case if_True)
      with c(5) [OF less] show ?thesis by (simp only: x NearestAwayFromZero)
    next
      case equal
      with cut NearestAwayFromZero have "rounded rule n = (if f < 0 then f else (if t = 0 then f else f + 1))"
        by (simp only: Let_def exact_rounding_rule.case if_True less_irrefl if_False simp_thms)
      with c(8) [OF equal] show ?thesis by (simp only: x NearestAwayFromZero)
    next
      case greater
      then have "\<not> 2 * t < 1" "2 * t \<noteq> 1" by simp_all
      with cut NearestAwayFromZero have "rounded rule n = (if t = 0 then f else f + 1)"
        by (simp only: Let_def exact_rounding_rule.case if_False)
      with c(6) [OF greater] show ?thesis by (simp only: x NearestAwayFromZero)
    qed
  qed (use c(1-4) cut in \<open>simp_all only: x Let_def exact_rounding_rule.case\<close>)
qed

lemma canonical_whole: "canonical \<lparr>numerator = k, denominator = 1\<rparr>"
  by (simp add: canonical_def)

lemma rat_of_whole: "rat_of \<lparr>numerator = k, denominator = 1\<rparr> = of_int k"
  by (simp add: rat_of_quot)

lemma round_to_fit:
  assumes "canonical n" "canonical q" "is_positive q"
  shows "case round_to_with_profile n q rule profile of
      Inr m \<Rightarrow> canonical m \<and>
        (\<exists>k. rat_of m = rat_of q * of_int k \<and> rounding_ok rule (rat_of n / rat_of q) k)
    | Inl e \<Rightarrow> budget_error e"
proof -
  have q: "rat_of q \<noteq> 0" using assms by (simp add: is_positive_rat)
  note div_fit = checked_div_fit [OF assms(1,2), of profile]
  show ?thesis
  proof (cases "checked_div_with_profile n q profile")
    case (Inl e)
    with q div_fit have "try_res (check_binary_work n q profile ''division'')
        (\<lambda>_. fit profile (rat_of n / rat_of q)) = Inl e" by simp
    then have "budget_error e"
      unfolding try_res_eq_Inl by (auto dest: check_binary_work_Inl fit_Inl)
    with Inl assms show ?thesis by (simp add: round_to_with_profile_def)
  next
    case (Inr s)
    with q div_fit have "fit profile (rat_of n / rat_of q) = Inr s" by simp
    then have s: "canonical s" "rat_of s = rat_of n / rat_of q" by (simp_all add: fit_Inr)
    let ?w = "\<lparr>numerator = rounded rule s, denominator = 1\<rparr>"
    have "round_to_with_profile n q rule profile = checked_mul_with_profile q ?w profile"
      using Inr assms by (simp add: round_to_with_profile_def)
    also have "\<dots> = try_res (check_binary_work q ?w profile ''multiplication'')
        (\<lambda>_. fit profile (rat_of q * of_int (rounded rule s)))"
      using checked_mul_fit [OF assms(2) canonical_whole] by (simp only: rat_of_whole)
    finally have eq: "round_to_with_profile n q rule profile = \<dots>" .
    show ?thesis
    proof (cases "round_to_with_profile n q rule profile")
      case (Inl e)
      with eq have "try_res (check_binary_work q ?w profile ''multiplication'')
        (\<lambda>_. fit profile (rat_of q * of_int (rounded rule s))) = Inl e" by simp
      then have "budget_error e"
        unfolding try_res_eq_Inl by (auto dest: check_binary_work_Inl fit_Inl)
      with Inl show ?thesis by simp
    next
      case (Inr m)
      with eq have "fit profile (rat_of q * of_int (rounded rule s)) = Inr m" by simp
      then have "canonical m" "rat_of m = rat_of q * of_int (rounded rule s)"
        by (simp_all add: fit_Inr)
      with rounded_ok [OF s(1), of rule] s(2) show ?thesis
        unfolding Inr sum.case by (intro conjI exI [of _ "rounded rule s"]) simp_all
    qed
  qed
qed

lemma abs_int_unique:
  fixes x :: rat and j k :: int
  assumes "\<bar>of_int j\<bar> = (\<bar>of_int k\<bar> :: rat)" "0 \<le> x * of_int j" "0 \<le> x * of_int k"
  shows "x = 0 \<or> j = k"
proof (rule ccontr)
  assume "\<not> (x = 0 \<or> j = k)"
  then have "x \<noteq> 0" "j \<noteq> k" by auto
  moreover have "j = k \<or> j = - k" using assms(1) by (simp only: of_int_abs [symmetric] of_int_eq_iff abs_eq_iff)
  ultimately show False using assms(2,3)
    by (auto simp: zero_le_mult_iff)
qed

lemma rounding_unique: "rounding_ok rule x j \<Longrightarrow> rounding_ok rule x k \<Longrightarrow> j = k"
proof (cases rule)
  case NearestEven
  assume h: "rounding_ok rule x j" "rounding_ok rule x k"
  from h NearestEven have "2 * \<bar>x - of_int j\<bar> \<le> 1" "2 * \<bar>x - of_int k\<bar> \<le> 1" by auto
  then have "\<bar>of_int j - of_int k :: rat\<bar> \<le> 1" by (simp add: abs_if split: if_splits)
  then have "\<bar>of_int (j - k) :: rat\<bar> \<le> of_int 1" by simp
  then have le: "\<bar>j - k\<bar> \<le> 1" by (simp only: of_int_abs [symmetric] of_int_le_iff)
  show "j = k"
  proof (rule ccontr)
    assume "j \<noteq> k"
    with le consider "j = k + 1" | "k = j + 1" by linarith
    then have "2 * \<bar>x - of_int j\<bar> = 1 \<and> 2 * \<bar>x - of_int k\<bar> = 1"
      using h NearestEven by cases (auto simp: abs_if split: if_splits)
    with h NearestEven have "even j" "even k" by auto
    with le \<open>j \<noteq> k\<close> show False by presburger
  qed
next
  case NearestAwayFromZero
  assume h: "rounding_ok rule x j" "rounding_ok rule x k"
  from h NearestAwayFromZero have "2 * \<bar>x - of_int j\<bar> \<le> 1" "2 * \<bar>x - of_int k\<bar> \<le> 1" by auto
  then have "\<bar>of_int j - of_int k :: rat\<bar> \<le> 1" by (simp add: abs_if split: if_splits)
  then have "\<bar>of_int (j - k) :: rat\<bar> \<le> of_int 1" by simp
  then have le: "\<bar>j - k\<bar> \<le> 1" by (simp only: of_int_abs [symmetric] of_int_le_iff)
  show "j = k"
  proof (rule ccontr)
    assume "j \<noteq> k"
    with le consider "j = k + 1" | "k = j + 1" by linarith
    then show False
    proof cases
      case 1
      with h NearestAwayFromZero have "x = of_int k + 1 / 2" by (auto simp: abs_if split: if_splits)
      with h NearestAwayFromZero 1 show False
        by (cases "0 \<le> k") (auto simp: abs_if split: if_splits)
    next
      case 2
      with h NearestAwayFromZero have "x = of_int j + 1 / 2" by (auto simp: abs_if split: if_splits)
      with h NearestAwayFromZero 2 show False
        by (cases "0 \<le> j") (auto simp: abs_if split: if_splits)
    qed
  qed
next
  case TowardZero
  assume h: "rounding_ok rule x j" "rounding_ok rule x k"
  with TowardZero have f: "\<lfloor>\<bar>x\<bar>\<rfloor> = \<bar>j\<bar>" "\<lfloor>\<bar>x\<bar>\<rfloor> = \<bar>k\<bar>"
    by (auto intro!: floor_unique)
  then have "\<bar>of_int j\<bar> = (\<bar>of_int k\<bar> :: rat)" by (simp flip: of_int_abs)
  with h TowardZero f show "j = k" using abs_int_unique [of j k x] by auto
next
  case AwayFromZero
  assume h: "rounding_ok rule x j" "rounding_ok rule x k"
  with AwayFromZero have f: "\<lceil>\<bar>x\<bar>\<rceil> = \<bar>j\<bar>" "\<lceil>\<bar>x\<bar>\<rceil> = \<bar>k\<bar>"
    by (auto intro!: ceiling_unique)
  then have "\<bar>of_int j\<bar> = (\<bar>of_int k\<bar> :: rat)" by (simp flip: of_int_abs)
  with h AwayFromZero f show "j = k" using abs_int_unique [of j k x] by auto
next
  case TowardPositive
  assume h: "rounding_ok rule x j" "rounding_ok rule x k"
  with TowardPositive have "\<lceil>x\<rceil> = j" "\<lceil>x\<rceil> = k" by (auto intro!: ceiling_unique)
  then show "j = k" by simp
next
  case TowardNegative
  assume h: "rounding_ok rule x j" "rounding_ok rule x k"
  with TowardNegative have "\<lfloor>x\<rfloor> = j" "\<lfloor>x\<rfloor> = k" by (auto intro!: floor_unique)
  then show "j = k" by simp
qed
section \<open>Canonical byte strings round-trip\<close>

lemma to_bytes_be_pos: "0 < n \<Longrightarrow> to_bytes_be n = be_min n"
  by (simp add: to_bytes_be_def)

lemma gcd_magnitude: "canonical n \<Longrightarrow> gcd (magnitude n) (denominator n) = 1"
proof -
  assume "canonical n"
  then have "gcd (numerator n) (int (denominator n)) = 1"
    by (simp add: canonical_def coprime_iff_gcd_eq_1)
  then have "int (gcd (magnitude n) (denominator n)) = 1"
    by (simp add: magnitude_def flip: gcd_int_int_eq)
  then show ?thesis by simp
qed

lemma canonical_zero_iff: "canonical n \<Longrightarrow> numerator n = 0 \<longleftrightarrow> n = number_zero"
  by (cases n) (auto simp: canonical_def number_zero_def)

lemma from_canonical_bytes_encode:
  assumes "canonical n" "check_profile n profile = Inr ()"
  shows "from_canonical_bytes_with_profile (number_sign n) (numerator_magnitude_bytes n)
           (denominator_bytes n) profile = Inr n"
proof (cases "numerator n = 0")
  case True
  then have "n = number_zero" using assms by (simp add: canonical_zero_iff)
  then show ?thesis
    by (simp add: from_canonical_bytes_with_profile_def number_sign_def number_zero_def
        numerator_magnitude_bytes_def denominator_bytes_def to_bytes_be_def be_min.simps)
      (simp add: be_nat_def number_zero_def)
next
  case False
  have m: "0 < magnitude n" using False by (simp add: magnitude_def)
  have d: "0 < denominator n" using assms by (simp add: canonical_def)
  have num: "(if number_sign n = Negative then - int (magnitude n) else int (magnitude n)) = numerator n"
    using False by (auto simp: number_sign_def magnitude_def)
  have g: "gcd (nat \<bar>numerator n\<bar>) (denominator n) = 1"
    using gcd_magnitude [OF assms(1)] by (simp add: magnitude_def)
  have s: "number_sign n \<noteq> Zero" using False by (simp add: number_sign_def)
  have r: "\<lparr>numerator = numerator n, denominator = denominator n\<rparr> = n" by simp
  show ?thesis
    using False m d s g assms(2) be_min_hd [of "magnitude n"] be_min_hd [of "denominator n"]
    by (simp add: from_canonical_bytes_with_profile_def numerator_magnitude_bytes_def
        denominator_bytes_def to_bytes_be_pos num r Let_def)
qed

lemma from_canonical_bytes_decode:
  assumes "from_canonical_bytes_with_profile sign mag den profile = Inr n"
  shows "canonical n" and "number_sign n = sign" and "numerator_magnitude_bytes n = mag"
    and "denominator_bytes n = den"
proof -
  have c: "canonical n \<and> number_sign n = sign \<and> numerator_magnitude_bytes n = mag
      \<and> denominator_bytes n = den"
  proof (cases "sign = Zero")
    case True
    with assms have z: "mag = []" "n = number_zero" "be_nat den = 1" "den \<noteq> []" "hd den \<noteq> 0"
      by (auto simp: from_canonical_bytes_with_profile_def Let_def split: if_splits)
    then have "be_min 1 = den" using be_min_be_nat [of den] by simp
    with z True show ?thesis
      by (simp add: number_sign_def numerator_magnitude_bytes_def denominator_bytes_def
          to_bytes_be_def) (simp add: number_zero_def to_bytes_be_def)
  next
    case False
    let ?num = "if sign = Negative then - int (be_nat mag) else int (be_nat mag)"
    from False assms have z: "mag \<noteq> []" "hd mag \<noteq> 0" "den \<noteq> []" "hd den \<noteq> 0"
      "be_nat den \<noteq> 0" "be_nat mag \<noteq> 0" "gcd (be_nat mag) (be_nat den) = 1"
      and n: "n = \<lparr>numerator = ?num, denominator = be_nat den\<rparr>"
      by (auto simp: from_canonical_bytes_with_profile_def Let_def split: if_splits)
    have "gcd ?num (int (be_nat den)) = 1"
      using z(7) by (auto simp: gcd_int_int_eq)
    with z n have "canonical n" by (simp add: canonical_def coprime_iff_gcd_eq_1)
    moreover have "number_sign n = sign"
      using False z n by (cases sign) (auto simp: number_sign_def)
    moreover have "magnitude n = be_nat mag" by (simp add: n magnitude_def)
    ultimately show ?thesis
      using z n by (auto simp: numerator_magnitude_bytes_def denominator_bytes_def
          to_bytes_be_pos be_min_be_nat)
  qed
  then show "canonical n" "number_sign n = sign" "numerator_magnitude_bytes n = mag"
    "denominator_bytes n = den" by auto
qed

section \<open>Binary64 boundary values\<close>

lemma number_of_rat_bounds:
  assumes "0 < d"
  shows "magnitude (number_of_rat (Fract a (int d))) \<le> nat \<bar>a\<bar>"
    and "denominator (number_of_rat (Fract a (int d))) \<le> d"
proof -
  let ?g = "gcd a (int d)"
  have g: "0 < ?g" using assms by simp
  have q: "number_of_rat (Fract a (int d)) = \<lparr>numerator = a div ?g, denominator = nat (int d div ?g)\<rparr>"
    using assms by (simp add: number_of_rat_def quotient_of_Fract Rat.normalize_def Let_def)
  have shrink: "\<bar>b div ?g\<bar> \<le> \<bar>b\<bar>" if dvd: "?g dvd b" for b
  proof -
    obtain k where k: "b = ?g * k" using dvd by (elim dvdE)
    have "1 * \<bar>k\<bar> \<le> ?g * \<bar>k\<bar>" using g by (intro mult_right_mono) linarith+
    moreover have "b div ?g = k" using g k by (metis nonzero_mult_div_cancel_left less_irrefl)
    moreover have "\<bar>b\<bar> = ?g * \<bar>k\<bar>" using g k by (metis abs_mult abs_of_pos)
    ultimately show ?thesis by simp
  qed
  from shrink [of a] show "magnitude (number_of_rat (Fract a (int d))) \<le> nat \<bar>a\<bar>"
    by (simp add: q magnitude_def)
  from shrink [of "int d"] show "denominator (number_of_rat (Fract a (int d))) \<le> d"
    by (simp add: q)
qed

lemma from_ratio_small:
  assumes "0 < d" "nat \<bar>a\<bar> < 2 ^ 1100" "d < 2 ^ 1100"
  shows "from_ratio a d = Inr (number_of_rat (Fract a (int d)))"
proof (cases "a = 0")
  case True
  with assms show ?thesis
    by (simp add: from_ratio_def from_ratio_with_profile_def rat_number_collapse number_of_rat_def
        number_zero_def)
next
  case False
  let ?n = "number_of_rat (Fract a (int d))"
  have "bit_length (magnitude ?n) \<le> 1100" "bit_length (denominator ?n) \<le> 1100"
    using number_of_rat_bounds [OF assms(1), of a] assms(2,3)
    unfolding bit_length_le_iff by (metis order.strict_trans1)+
  then have "check_profile ?n default_profile = Inr ()"
    by (simp add: check_profile_def component_bits_def default_profile_def
        MAX_NUMBER_COMPONENT_BITS_def)
  moreover have "Fract a (int d) \<noteq> 0"
    using False assms by (simp add: Fract_of_int_quotient)
  ultimately show ?thesis
    using assms(1) by (simp add: from_ratio_def from_ratio_fit fit_def)
qed

lemma binary64_fields:
  fixes bits :: u64
  shows "unat (bits AND mask 52) < 2 ^ 52" and "unat (drop_bit 52 bits AND 0x7FF) < 2 ^ 11"
    and "(push_bit 52 1 - 1 :: u64) = mask 52"
    and "unat (push_bit 52 1 OR (bits AND mask 52)) = 2 ^ 52 + unat (bits AND mask 52)"
proof -
  show "(push_bit 52 1 - 1 :: u64) = mask 52" by (simp add: mask_eq_exp_minus_1)
  show f: "unat (bits AND mask 52) < 2 ^ 52"
    by (simp only: take_bit_eq_mask [symmetric] unsigned_take_bit_eq take_bit_nat_less_exp)
  have "(0x7FF :: u64) = mask 11" by (simp add: mask_eq_exp_minus_1)
  then show "unat (drop_bit 52 bits AND 0x7FF) < 2 ^ 11"
    by (simp only: take_bit_eq_mask [symmetric] unsigned_take_bit_eq take_bit_nat_less_exp)
  have "push_bit 52 1 OR (bits AND mask 52) = push_bit 52 1 + (bits AND mask 52)"
    by (rule disjunctive_add_eq_or [symmetric], rule bit_eqI)
      (auto simp only: bit_and_iff bit_push_bit_iff bit_mask_iff bit_0_eq bot_fun_def bot_bool_def)
  then show "unat (push_bit 52 1 OR (bits AND mask 52)) = 2 ^ 52 + unat (bits AND mask 52)"
    using f by (simp add: unat_word_ariths)
qed

lemma binary64_exact:
  assumes "unat (drop_bit 52 bits AND 0x7FF) \<noteq> 0x7FF"
  shows "from_f64_boundary_exact bits = Inr (number_of_rat (binary64_value bits))"
proof -
  define e where "e = unat (drop_bit 52 bits AND 0x7FF)"
  define f where "f = unat (bits AND mask 52)"
  define neg where "neg \<longleftrightarrow> drop_bit 63 bits \<noteq> 0"
  have e: "uint (drop_bit 52 bits AND 0x7FF) = int e" "e \<noteq> 2047" "e < 2048"
    using assms binary64_fields(2) [of bits] by (simp_all add: e_def)
  have f: "f < 2 ^ 52" using binary64_fields(1) by (simp only: f_def)
  have v: "binary64_value bits = (let m = (if e = 0 then of_nat f / 2 ^ 1074
      else of_nat (2 ^ 52 + f) * 2 ^ e / 2 ^ 1075) in if neg then - m else m)"
    by (simp only: binary64_value_def Let_def e_def f_def neg_def)
  have def1: "from_f64_boundary_exact bits =
    (if e = 0 \<and> f = 0 then Inr number_zero
     else let (sig, ex) = (if e = 0 then (f, - 1074) else (2 ^ 52 + f, int e - 1023 - 52));
              num = (if ex \<ge> 0 then sig * 2 ^ nat ex else sig);
              den = (if ex \<ge> 0 then 1 else 2 ^ nat (- ex))
          in from_ratio (if neg then - int num else int num) den)"
    using e(2) unfolding from_f64_boundary_exact_def binary64_fields(3) binary64_fields(4) e(1)
      f_def [symmetric] neg_def [symmetric] Let_def
    by simp
  consider "e = 0" "f = 0" | "e = 0" "f \<noteq> 0" | "e \<noteq> 0" "e < 1075" | "1075 \<le> e" by linarith
  then show ?thesis
  proof cases
    case 1
    then show ?thesis by (simp add: def1 v number_of_rat_def number_zero_def)
  next
    case 2
    have "from_ratio (if neg then - int f else int f) (2 ^ 1074)
      = Inr (number_of_rat (Fract (if neg then - int f else int f) (int (2 ^ 1074))))"
      using f by (intro from_ratio_small) auto
    with 2 show ?thesis by (simp add: def1 v Fract_of_int_quotient)
  next
    case 3
    let ?s = "2 ^ 52 + f"
    have den: "(2 :: nat) ^ (1075 - e) < 2 ^ 1100" by (rule power_strict_increasing) simp_all
    have ex: "nat (1075 - int e) = 1075 - e" by simp
    have split: "(2 :: rat) ^ 1075 = 2 ^ e * 2 ^ (1075 - e)"
      using 3 by (simp only: power_add [symmetric]) simp
    have "from_ratio (if neg then - int ?s else int ?s) (2 ^ (1075 - e))
      = Inr (number_of_rat (Fract (if neg then - int ?s else int ?s) (int (2 ^ (1075 - e)))))"
      using f den by (intro from_ratio_small) auto
    moreover have "of_nat ?s * 2 ^ e / 2 ^ 1075 = (of_nat ?s / 2 ^ (1075 - e) :: rat)"
      unfolding split by simp
    ultimately show ?thesis
      using 3 unfolding def1 v
      by (cases neg) (simp_all add: Let_def ex Fract_of_int_quotient minus_divide_left del: power_numeral)
  next
    case 4
    let ?s = "(2 ^ 52 + f) * 2 ^ (e - 1075)"
    have "?s < 2 ^ 53 * 2 ^ (e - 1075)" using f by simp
    also have "\<dots> \<le> 2 ^ 53 * 2 ^ 1000"
      using e by (intro mult_left_mono power_increasing) simp_all
    also have "\<dots> \<le> (2 :: nat) ^ 1100" by (simp only: power_add [symmetric]) (rule power_increasing, simp_all)
    finally have num: "?s < 2 ^ 1100" .
    have ex: "nat (int e - 1075) = e - 1075" using 4 by simp
    have split: "(2 :: rat) ^ e = 2 ^ 1075 * 2 ^ (e - 1075)"
      using 4 by (simp only: power_add [symmetric]) simp
    have "from_ratio (if neg then - int ?s else int ?s) 1
      = Inr (number_of_rat (Fract (if neg then - int ?s else int ?s) (int 1)))"
    proof (rule from_ratio_small)
      have "nat \<bar>if neg then - int ?s else int ?s\<bar> = ?s" by (cases neg) (simp_all only: if_True if_False abs_minus_cancel abs_of_nat nat_int)
      with num show "nat \<bar>if neg then - int ?s else int ?s\<bar> < 2 ^ 1100" by (simp only:)
    qed simp_all
    moreover have "of_nat (2 ^ 52 + f) * 2 ^ e / 2 ^ 1075 = (of_nat ?s :: rat)"
      unfolding split by simp
    ultimately show ?thesis
      using 4 unfolding def1 v
      by (cases neg) (simp_all add: Let_def ex Fract_of_int_quotient minus_divide_left del: power_numeral)
  qed
qed

section \<open>Constructed numbers\<close>

text \<open>The numbers a client can obtain: the fields are private, so these are the module's public
  constructors and operations.\<close>

inductive constructed :: "exact_number \<Rightarrow> bool" where
  zero: "constructed number_zero"
| one: "constructed number_one"
| i64: "constructed (from_i64 v)"
| u64: "constructed (from_u64 w)"
| usize: "constructed (from_usize k)"
| ratio: "from_ratio_with_profile a d p = Inr n \<Longrightarrow> constructed n"
| f64: "from_f64_boundary_exact bits = Inr n \<Longrightarrow> constructed n"
| bytes: "from_canonical_bytes_with_profile s m d' p = Inr n \<Longrightarrow> constructed n"
| add: "constructed a' \<Longrightarrow> constructed b' \<Longrightarrow> checked_add_with_profile a' b' p = Inr n \<Longrightarrow> constructed n"
| sub: "constructed a' \<Longrightarrow> constructed b' \<Longrightarrow> checked_sub_with_profile a' b' p = Inr n \<Longrightarrow> constructed n"
| mul: "constructed a' \<Longrightarrow> constructed b' \<Longrightarrow> checked_mul_with_profile a' b' p = Inr n \<Longrightarrow> constructed n"
| div: "constructed a' \<Longrightarrow> constructed b' \<Longrightarrow> checked_div_with_profile a' b' p = Inr n \<Longrightarrow> constructed n"
| rem: "constructed a' \<Longrightarrow> constructed b' \<Longrightarrow> checked_rem a' b' = Inr n \<Longrightarrow> constructed n"
| round: "constructed a' \<Longrightarrow> constructed q \<Longrightarrow> round_to_with_profile a' q rule p = Inr n
    \<Longrightarrow> constructed n"
| floor: "constructed a' \<Longrightarrow> constructed (number_floor a')"
| ceil: "constructed a' \<Longrightarrow> constructed (number_ceil a')"
| truncate: "constructed a' \<Longrightarrow> constructed (number_truncate a')"
| abs: "constructed a' \<Longrightarrow> constructed (number_abs a')"

lemma from_ratio_canonical: "from_ratio_with_profile a d p = Inr n \<Longrightarrow> canonical n"
proof -
  assume h: "from_ratio_with_profile a d p = Inr n"
  then have "0 < d" by (auto simp: from_ratio_with_profile_def split: if_splits)
  with h show ?thesis by (simp add: from_ratio_fit fit_Inr)
qed

lemma checked_ops_canonical:
  assumes "canonical a" "canonical b"
  shows "checked_add_with_profile a b p = Inr n \<Longrightarrow> canonical n"
    and "checked_sub_with_profile a b p = Inr n \<Longrightarrow> canonical n"
    and "checked_mul_with_profile a b p = Inr n \<Longrightarrow> canonical n"
    and "checked_div_with_profile a b p = Inr n \<Longrightarrow> canonical n"
  using assms
  by (auto simp: checked_add_fit checked_sub_fit checked_mul_fit checked_div_fit dest: fit_Inr
      split: if_splits)

lemma round_to_canonical:
  assumes "canonical a" "canonical q" "round_to_with_profile a q rule p = Inr n"
  shows "canonical n"
  using assms round_to_fit [of a q rule p]
  by (cases "is_positive q") (auto simp: round_to_with_profile_def)

section \<open>Properties\<close>

text \<open>C10 (invariant). Every number the module can produce, by its constructors, its decoders,
  its boundary conversions or its arithmetic, in any order and under any profile, is canonical:
  a positive denominator, coprime to the numerator.\<close>

theorem every_number_canonical: "constructed n \<Longrightarrow> canonical n"
proof (induction rule: constructed.induct)
  case (f64 bits n)
  have "from_f64_boundary_exact bits = Inl NonFiniteBoundary"
    if "unat (drop_bit 52 bits AND 0x7FF) = 0x7FF"
    using that by (simp add: from_f64_boundary_exact_def uint_nat)
  with f64 binary64_exact [of bits] show ?case by fastforce
next
  case (abs a')
  then show ?case by (simp add: number_abs_def canonical_def)
next
  case (rem a' b' n)
  then show ?case by (auto simp: checked_rem_def canonical_whole [simplified] split: if_splits)
qed (auto simp: number_one_def from_i64_def from_u64_def from_usize_def number_floor_def
    number_ceil_def number_truncate_def canonical_whole [simplified]
    intro: from_ratio_canonical from_canonical_bytes_decode checked_ops_canonical round_to_canonical)

theorem every_number_canonical_witness:
  "constructed (number_floor (from_i64 7)) \<and> canonical (number_floor (from_i64 7))"
  using every_number_canonical [OF constructed.floor [OF constructed.i64 [of 7]]]
  by (simp add: constructed.floor constructed.i64)

text \<open>C5 (refinement). On canonical numbers the four checked operations are the operations of the
  rational field: each returns the canonical representation of the exact result, unless the work
  estimate or the size of the result exceeds the profile; division by zero is the only other
  failure.\<close>

theorem number_arithmetic_exact:
  assumes "canonical a" and "canonical b"
  shows "checked_add_with_profile a b p =
      try_res (check_binary_work a b p ''addition'') (\<lambda>_. fit p (rat_of a + rat_of b)) \<and>
    checked_sub_with_profile a b p =
      try_res (check_binary_work a b p ''subtraction'') (\<lambda>_. fit p (rat_of a - rat_of b)) \<and>
    checked_mul_with_profile a b p =
      try_res (check_binary_work a b p ''multiplication'') (\<lambda>_. fit p (rat_of a * rat_of b)) \<and>
    checked_div_with_profile a b p =
      (if rat_of b = 0 then Inl DivisionByZero
       else try_res (check_binary_work a b p ''division'') (\<lambda>_. fit p (rat_of a / rat_of b)))"
  using assms by (intro conjI checked_add_fit checked_sub_fit checked_mul_fit checked_div_fit)

theorem number_arithmetic_exact_witness:
  "canonical \<lparr>numerator = 1, denominator = 2\<rparr> \<and> canonical \<lparr>numerator = 1, denominator = 3\<rparr> \<and>
   checked_add_default \<lparr>numerator = 1, denominator = 2\<rparr> \<lparr>numerator = 1, denominator = 3\<rparr>
     = fit default_profile (1 / 2 + 1 / 3) \<and>
   checked_add_default \<lparr>numerator = 1, denominator = 2\<rparr> \<lparr>numerator = 1, denominator = 3\<rparr>
     = Inr \<lparr>numerator = 5, denominator = 6\<rparr>"
proof -
  let ?a = "\<lparr>numerator = 1, denominator = 2\<rparr>" and ?b = "\<lparr>numerator = 1, denominator = 3\<rparr>"
  have c: "canonical ?a" "canonical ?b" by (simp_all add: canonical_def)
  have w: "check_binary_work ?a ?b default_profile ''addition'' = Inr ()" by code_simp
  have r: "rat_of ?a = 1 / 2" "rat_of ?b = 1 / 3" by (simp_all add: rat_of_quot)
  have e: "checked_add_default ?a ?b = Inr \<lparr>numerator = 5, denominator = 6\<rparr>" by code_simp
  show ?thesis
    using number_arithmetic_exact [OF c, of default_profile] w c e
    by (simp add: checked_add_default_def r)
qed

text \<open>C13 (functional). \<open>Ord::cmp\<close> on canonical numbers is the order of the rationals, and two
  canonical numbers are equal component by component exactly when they denote the same rational.\<close>

theorem number_comparison_exact:
  assumes "canonical a" and "canonical b"
  shows "number_cmp a b = cmp (rat_of a) (rat_of b) \<and> (number_eq a b \<longleftrightarrow> rat_of a = rat_of b)"
proof -
  have "number_eq a b \<longleftrightarrow> a = b" by (cases a, cases b) (simp add: number_eq_def)
  with assms show ?thesis by (simp add: canonical_inject number_cmp_rat)
qed

theorem number_comparison_exact_witness:
  "canonical \<lparr>numerator = - 1, denominator = 2\<rparr> \<and> canonical \<lparr>numerator = 1, denominator = 3\<rparr> \<and>
   number_cmp \<lparr>numerator = - 1, denominator = 2\<rparr> \<lparr>numerator = 1, denominator = 3\<rparr> = Less \<and>
   \<not> number_eq \<lparr>numerator = - 1, denominator = 2\<rparr> \<lparr>numerator = 1, denominator = 3\<rparr>"
proof -
  let ?a = "\<lparr>numerator = - 1, denominator = 2\<rparr>" and ?b = "\<lparr>numerator = 1, denominator = 3\<rparr>"
  have c: "canonical ?a" "canonical ?b" by (simp_all add: canonical_def)
  show ?thesis
    using number_comparison_exact [OF c] c by (simp add: rat_of_quot)
qed

text \<open>C11 (functional). Rounding a canonical number to a positive quantum returns a multiple \<open>k\<close> of
  the quantum, where \<open>k\<close> is the integer the rule prescribes for the quotient, and it is the only
  such integer; the only failures are exceeded budgets.\<close>

theorem round_to_correct:
  assumes "canonical n" and "canonical q" and "is_positive q"
  shows "case round_to_with_profile n q rule p of
      Inr m \<Rightarrow> canonical m \<and>
        (\<exists>!k. rounding_ok rule (rat_of n / rat_of q) k \<and> rat_of m = rat_of q * of_int k)
    | Inl e \<Rightarrow> budget_error e"
  using round_to_fit [OF assms, of rule p]
  by (auto split: sum.split intro: rounding_unique)

theorem round_to_correct_witness:
  "canonical \<lparr>numerator = - 5, denominator = 2\<rparr> \<and> canonical number_one \<and> is_positive number_one \<and>
   round_to \<lparr>numerator = - 5, denominator = 2\<rparr> number_one NearestEven
     = Inr \<lparr>numerator = - 2, denominator = 1\<rparr> \<and>
   (\<exists>!k. rounding_ok NearestEven (rat_of \<lparr>numerator = - 5, denominator = 2\<rparr> / rat_of number_one) k
      \<and> rat_of \<lparr>numerator = - 2, denominator = 1\<rparr> = rat_of number_one * of_int k)"
proof -
  let ?n = "\<lparr>numerator = - 5, denominator = 2\<rparr>"
  have c: "canonical ?n" "canonical number_one" "is_positive number_one"
    by (simp_all add: canonical_def number_one_def is_positive_def coprime_commute)
  have "checked_div_with_profile ?n number_one default_profile = Inr ?n" by code_simp
  moreover have "rounded NearestEven ?n = - 2" by code_simp
  moreover have "checked_mul_with_profile number_one \<lparr>numerator = - 2, denominator = 1\<rparr>
      default_profile = Inr \<lparr>numerator = - 2, denominator = 1\<rparr>" by code_simp
  ultimately have r: "round_to_with_profile ?n number_one NearestEven default_profile
      = Inr \<lparr>numerator = - 2, denominator = 1\<rparr>"
    using c(3) by (simp only: round_to_with_profile_def try_res_simps not_True_eq_False if_False)
  note unique = round_to_correct [OF c, of NearestEven default_profile, unfolded r sum.case,
      THEN conjunct2]
  show ?thesis unfolding round_to_def by (intro conjI c r unique)
qed

text \<open>C12 (roundtrip). The canonical encoding (sign, minimal magnitude bytes, minimal denominator
  bytes) decodes to the number it came from, within the profile; and every accepted encoding is
  the encoding of the number it decodes to, so no number has two encodings.\<close>

theorem canonical_bytes_roundtrip:
  "(canonical n \<and> check_profile n p = Inr () \<longrightarrow>
      from_canonical_bytes_with_profile (number_sign n) (numerator_magnitude_bytes n)
        (denominator_bytes n) p = Inr n) \<and>
   (from_canonical_bytes_with_profile sign mag den p = Inr m \<longrightarrow>
      canonical m \<and> sign = number_sign m \<and> mag = numerator_magnitude_bytes m \<and>
      den = denominator_bytes m)"
  by (simp_all add: from_canonical_bytes_encode from_canonical_bytes_decode)

theorem canonical_bytes_roundtrip_witness:
  "canonical \<lparr>numerator = - 258, denominator = 5\<rparr> \<and>
   from_canonical_bytes (number_sign \<lparr>numerator = - 258, denominator = 5\<rparr>)
     (numerator_magnitude_bytes \<lparr>numerator = - 258, denominator = 5\<rparr>)
     (denominator_bytes \<lparr>numerator = - 258, denominator = 5\<rparr>)
     = Inr \<lparr>numerator = - 258, denominator = 5\<rparr> \<and>
   numerator_magnitude_bytes \<lparr>numerator = - 258, denominator = 5\<rparr> = [1, 2]"
proof -
  let ?n = "\<lparr>numerator = - 258, denominator = 5\<rparr>"
  have "coprime (258 :: int) 5" by code_simp
  then have c: "canonical ?n" by (simp add: canonical_def)
  have p: "check_profile ?n default_profile = Inr ()" by code_simp
  have b: "numerator_magnitude_bytes ?n = [1, 2]" by code_simp
  show ?thesis using canonical_bytes_roundtrip [of ?n default_profile] c p b by (simp add: from_canonical_bytes_def)
qed

text \<open>C14 (functional). Every finite binary64 bit pattern is converted without rounding and without
  failure to the rational it denotes; exactly the infinities and NaNs are refused.\<close>

theorem from_f64_boundary_exact_correct:
  "from_f64_boundary_exact bits =
     (if unat (drop_bit 52 bits AND 0x7FF) = 0x7FF then Inl NonFiniteBoundary
      else Inr (number_of_rat (binary64_value bits)))"
proof (cases "unat (drop_bit 52 bits AND 0x7FF) = 0x7FF")
  case True
  then have "uint (drop_bit 52 bits AND 0x7FF) = 0x7FF" by (simp add: uint_nat)
  with True show ?thesis by (simp only: from_f64_boundary_exact_def Let_def if_True simp_thms)
next
  case False
  with binary64_exact [OF False] show ?thesis by (simp only: if_False)
qed

end
