(* ===== verification/Order_Codec.thy ===== *)
theory Order_Codec
  imports Boon_Prelude
begin

text \<open>The interface of an order-preserving encoding, as the sorted keys of
  \<open>boon_list_access\<close> rely on it: an encoder whose outputs are separated in the order of the
  encoded values. Everything a client needs of such an encoder follows here once: the byte order is
  the order of the values, encodings are injective and prefix-free, and both facts survive whatever
  is written after them.\<close>

locale order_codec =
  fixes enc :: "'a \<Rightarrow> bytes" and lt :: "'a \<Rightarrow> 'a \<Rightarrow> bool" and valid :: "'a \<Rightarrow> bool"
  assumes sep: "valid x \<Longrightarrow> valid y \<Longrightarrow> lt x y \<Longrightarrow> lex_sep (enc x) (enc y)"
    and total: "valid x \<Longrightarrow> valid y \<Longrightarrow> x = y \<or> lt x y \<or> lt y x"
begin

lemma lt_irrefl: "valid x \<Longrightarrow> \<not> lt x x"
  using sep [of x x] lex_sep_antisym by blast

lemma lt_asym: "valid x \<Longrightarrow> valid y \<Longrightarrow> lt x y \<Longrightarrow> \<not> lt y x"
  using sep lex_sep_antisym by blast

lemma sep_iff:
  assumes "valid x" and "valid y"
  shows "lex_sep (enc x @ us) (enc y @ vs) \<longleftrightarrow> lt x y \<or> x = y \<and> lex_sep us vs"
proof (cases "x = y")
  case True
  with assms show ?thesis by (simp add: lt_irrefl)
next
  case False
  with assms consider "lt x y" | "lt y x" using total by blast
  then show ?thesis
  proof cases
    case 1
    with assms have "lex_sep (enc x @ us) (enc y @ vs)" by (intro lex_sep_append sep)
    with 1 show ?thesis by simp
  next
    case 2
    with assms have "lex_sep (enc y @ vs) (enc x @ us)" by (intro lex_sep_append sep)
    with False show ?thesis using lt_asym [OF assms(2,1) 2] lex_sep_antisym by blast
  qed
qed

lemma less_iff:
  assumes "valid x" and "valid y"
  shows "enc x < enc y \<longleftrightarrow> lt x y"
proof
  assume *: "enc x < enc y"
  then have "x \<noteq> y" by auto
  moreover have "\<not> lt y x" using * sep [OF assms(2,1)] lex_sep_less by (meson order.asym)
  ultimately show "lt x y" using total assms by blast
qed (use sep [OF assms] lex_sep_less in blast)

lemma prefix_iff:
  assumes "valid x" and "valid y"
  shows "prefix (enc x @ us) (enc y @ vs) \<longleftrightarrow> x = y \<and> prefix us vs"
proof (cases "x = y")
  case False
  with assms have "lex_sep (enc x @ us) (enc y @ vs) \<or> lex_sep (enc y @ vs) (enc x @ us)"
    using total sep lex_sep_append by blast
  with False show ?thesis using lex_sep_not_prefix by blast
qed simp

lemma parse_iff:
  assumes "valid x" and "valid y"
  shows "enc x @ us = enc y @ vs \<longleftrightarrow> x = y \<and> us = vs"
proof (cases "x = y")
  case False
  then show ?thesis using prefix_iff [OF assms, of us vs] by auto
qed simp

lemma inject: "valid x \<Longrightarrow> valid y \<Longrightarrow> enc x = enc y \<longleftrightarrow> x = y"
  using parse_iff [of x y "[]" "[]"] by simp

lemma reversed: "order_codec (\<lambda>x. map NOT (enc x)) (\<lambda>x y. lt y x) valid"
  by unfold_locales (auto intro: lex_sep_map_antimono sep not_u8_antimono dest: total)

lemma tagged: "order_codec (\<lambda>x. m # enc x) lt valid"
  by unfold_locales (auto intro: sep dest: total)

end

end
