(* ===== verification/Number_Order.thy ===== *)
theory Number_Order
  imports Exact_Number Order_Codec
begin

text \<open>The order-preserving byte encoding of numbers (\<open>canonical_order_bytes\<close> and its two
  helpers in \<open>number.rs\<close>): a run-length encoded Stern-Brocot path over the tokens 0, 1, 2. The
  bytes of two numbers are separated exactly as the numbers are ordered.\<close>

section \<open>Definitions\<close>

text \<open>The closure \<open>encode_token\<close>.\<close>

definition encode_token :: "bool \<Rightarrow> bool \<Rightarrow> u8" where
  "encode_token descending b =
     (let token = if b then 2 else 0 in if descending then 2 - token else token)"

definition encode_positive_integer_order :: "nat \<Rightarrow> bool \<Rightarrow> bytes" where
  "encode_positive_integer_order value descending =
     (let bits = bit_length value in
      replicate bits (encode_token descending True) @ [encode_token descending False] @
      map (\<lambda>position. encode_token descending (bit value position)) (rev [0..<bits - 1]))"

lemma run_zero_iff: "0 < d \<Longrightarrow> (n - Suc 0) div d = 0 \<longleftrightarrow> n \<le> (d :: nat)"
  by (auto simp: div_eq_0_iff)

text \<open>The \<open>loop\<close> of \<open>encode_positive_order_path\<close>. The source asserts that both components
  are positive (a zero component would make it panic); the first equation only closes the definition
  there, and no number of the invariant reaches it.\<close>

function order_path_loop :: "nat \<Rightarrow> nat \<Rightarrow> bool \<Rightarrow> bytes" where
  "order_path_loop num den right =
     (if num = 0 \<or> den = 0 then []
      else
       let run = if right then (num - 1) div den else (den - 1) div num;
           num' = if right then num - run * den else num;
           den' = if right then den else den - run * num;
           output = encode_positive_integer_order run (\<not> right)
       in if num' = den' then output @ [1]
          else output @ (if right then 0 else 2) # order_path_loop num' den' (\<not> right))"
  by pat_completeness auto

text \<open>The loop ends: a nonzero run makes the fraction smaller, and an empty run (the larger component
  is not on the side of \<open>right\<close>) can occur only once in a row.\<close>

termination
proof (relation "measures [\<lambda>(n, d, right). n + d, \<lambda>(n, d, right). if right = (n > d) then 0 else 1]",
    goal_cases)
  case (2 n d right run n' d' out)
  show ?case
  proof (cases "run = 0")
    case True
    with 2 have "n' = n" "d' = d" by auto
    moreover have "right = (n < d)"
      using 2 True by (cases right) (auto simp: run_zero_iff)
    ultimately show ?thesis using 2 by auto
  next
    case False
    with 2 have "n' + d' < n + d"
      by (cases right) (auto simp: div_eq_0_iff not_less div_greater_zero_iff intro!: diff_less)
    then show ?thesis by simp
  qed
qed simp

declare order_path_loop.simps [simp del]

definition encode_positive_order_path :: "nat \<Rightarrow> nat \<Rightarrow> bytes" where
  "encode_positive_order_path num den =
     (if num = den then [1]
      else let right = num > den in
        (if right then 2 else 0) # order_path_loop num den right)"

definition canonical_order_bytes :: "exact_number \<Rightarrow> bytes" where
  "canonical_order_bytes n =
     (case number_sign n of
        Negative \<Rightarrow> 0 # map (\<lambda>byte. 2 - byte)
          (encode_positive_order_path (magnitude n) (denominator n))
      | Zero \<Rightarrow> [1]
      | Positive \<Rightarrow> 2 # encode_positive_order_path (magnitude n) (denominator n))"

section \<open>Integers in runs\<close>

lemma lex_sep_low_bits:
  "v mod 2 ^ k < w mod 2 ^ k \<Longrightarrow>
     lex_sep (map (\<lambda>p. encode_token False (bit v p)) (rev [0..<k]))
       (map (\<lambda>p. encode_token False (bit (w :: nat) p)) (rev [0..<k]))"
proof (induction k)
  case (Suc k)
  have split: "u mod 2 ^ Suc k = of_bool (bit u k) * 2 ^ k + u mod 2 ^ k" for u :: nat
    using take_bit_Suc_from_most [of k u] by (simp add: take_bit_eq_mod)
  have "v mod 2 ^ k < 2 ^ k" "w mod 2 ^ k < 2 ^ k" by simp_all
  with Suc.prems have "bit v k = bit w k \<and> v mod 2 ^ k < w mod 2 ^ k \<or> \<not> bit v k \<and> bit w k"
    unfolding split by (cases "bit v k"; cases "bit w k") simp_all
  with Suc.IH show ?case by (auto simp: encode_token_def)
qed simp

lemma bit_length_top: "0 < v \<Longrightarrow> v = 2 ^ (bit_length v - 1) + v mod 2 ^ (bit_length v - 1)"
proof -
  assume "0 < v"
  then have "2 ^ (bit_length v - 1) \<le> v" by (intro bit_length_lower) simp
  moreover have "v < 2 * 2 ^ (bit_length v - 1)"
    using less_bit_length [of v] \<open>0 < v\<close>
    by (metis bit_length_eq_0 gr_implies_not0 power_Suc Suc_pred' neq0_conv)
  ultimately have "v mod 2 ^ (bit_length v - 1) = v - 2 ^ (bit_length v - 1)"
    by (simp add: le_mod_geq)
  with \<open>2 ^ (bit_length v - 1) \<le> v\<close> show ?thesis by simp
qed

lemma lex_sep_integer_order_asc:
  assumes "0 < v" and "v < w"
  shows "lex_sep (encode_positive_integer_order v False) (encode_positive_integer_order w False)"
proof (cases "bit_length v = bit_length w")
  case True
  have "v mod 2 ^ (bit_length v - 1) < w mod 2 ^ (bit_length v - 1)"
    using bit_length_top [of v] bit_length_top [of w] assms True by simp
  from lex_sep_low_bits [OF this] show ?thesis
    by (simp add: encode_positive_integer_order_def Let_def True)
next
  case False
  then obtain k where k: "bit_length w = bit_length v + Suc k"
    using bit_length_mono [of v w] assms(2) by (metis less_imp_Suc_add less_imp_le order_le_less add_Suc_right)
  have "replicate (bit_length w) (2 :: u8) = replicate (bit_length v) 2 @ 2 # replicate k 2"
    unfolding k replicate_add by simp
  then show ?thesis by (simp add: encode_positive_integer_order_def Let_def encode_token_def)
qed

lemma integer_order_desc:
  "encode_positive_integer_order v True = map (\<lambda>b. 2 - b) (encode_positive_integer_order v False)"
  by (simp add: encode_positive_integer_order_def encode_token_def Let_def)

text \<open>Every byte of an order encoding is a token 0, 1 or 2, so the complement is antitone on it.\<close>

lemma integer_order_tokens: "set (encode_positive_integer_order v descending) \<subseteq> {0, 1, 2}"
  by (auto simp: encode_positive_integer_order_def encode_token_def Let_def)

lemma order_path_loop_tokens: "set (order_path_loop n d right) \<subseteq> {0, 1, 2}"
proof (induction n d right rule: order_path_loop.induct)
  case (1 n d right)
  then show ?case
    by (subst order_path_loop.simps)
      (use integer_order_tokens in \<open>auto simp: Let_def split: if_splits\<close>)
qed

lemma order_path_tokens: "set (encode_positive_order_path n d) \<subseteq> {0, 1, 2}"
  using order_path_loop_tokens [of n d] by (auto simp: encode_positive_order_path_def Let_def)

lemma lex_sep_complement:
  assumes "lex_sep xs ys" and "set xs \<subseteq> {0, 1, 2}" and "set ys \<subseteq> {0, 1, 2}"
  shows "lex_sep (map (\<lambda>b. 2 - b) ys) (map (\<lambda>b. 2 - (b :: u8)) xs)"
  using assms by (induction xs ys rule: lex_sep.induct) auto

lemma lex_sep_integer_order_desc:
  "0 < v \<Longrightarrow> v < w \<Longrightarrow>
     lex_sep (encode_positive_integer_order w True) (encode_positive_integer_order v True)"
  unfolding integer_order_desc
  by (intro lex_sep_complement lex_sep_integer_order_asc integer_order_tokens)

section \<open>Stern-Brocot paths\<close>

text \<open>Walking from the other side complements the path, so only runs to the right need an argument.\<close>

lemma order_path_loop_mirror:
  "order_path_loop n d (\<not> right) = map (\<lambda>b. 2 - b) (order_path_loop d n right)"
proof (induction d n right rule: order_path_loop.induct)
  case (1 d n right)
  have c: "map (\<lambda>b. 2 - b) (encode_positive_integer_order v a) = encode_positive_integer_order v (\<not> a)" for v a
    by (cases a) (simp_all add: encode_positive_integer_order_def encode_token_def Let_def)
  show ?case
    by (subst (1 2) order_path_loop.simps) (use 1 in \<open>auto simp: Let_def c\<close>)
qed

lemma run_bounds:
  fixes n d :: nat
  assumes "0 < d" and "d < n"
  shows "0 < (n - 1) div d" "(n - 1) div d * d < n" "n \<le> (n - 1) div d * d + d"
proof -
  show "0 < (n - 1) div d" using assms by (auto simp: div_greater_zero_iff)
  have "(n - 1) div d * d \<le> n - 1" by simp
  then show "(n - 1) div d * d < n" using assms by linarith
  have "n - 1 < (n - 1) div d * d + d" using dividend_less_div_times [OF assms(1), of "n - 1"] by simp
  then show "n \<le> (n - 1) div d * d + d" by linarith
qed

lemma order_path_loop_right:
  assumes "0 < d" and "d < n"
  shows "order_path_loop n d True =
    (let run = (n - 1) div d; m = n - run * d in
     encode_positive_integer_order run False @
       (if m = d then [1] else 0 # map (\<lambda>b. 2 - b) (order_path_loop d m True)))"
proof -
  have "order_path_loop m d False = map (\<lambda>b. 2 - b) (order_path_loop d m True)" for m
    using order_path_loop_mirror [of m d True] by simp
  with assms show ?thesis by (subst order_path_loop.simps) (simp add: Let_def)
qed

lemma run_mono:
  fixes n d n' d' :: nat
  assumes d: "0 < d" "d < n" and d': "0 < d'" "d' < n'" and less: "n * d' < n' * d"
  shows "(n - 1) div d \<le> (n' - 1) div d'"
proof (rule ccontr)
  assume "\<not> ?thesis"
  then have "(n' - 1) div d' * d' + d' \<le> (n - 1) div d * d'"
    by (metis Suc_leI add.commute mult_Suc mult_le_mono1 not_le)
  with run_bounds(3) [OF d'] have "n' \<le> (n - 1) div d * d'" by linarith
  then have "n' * d \<le> (n - 1) div d * d * d'"
    by (metis mult.assoc mult.commute mult_le_mono1)
  also have "\<dots> \<le> n * d'" using run_bounds(2) [OF d] by (simp add: mult_le_mono1)
  finally show False using less by simp
qed

lemma lex_sep_order_path_loop:
  assumes "0 < d" "d < n" "0 < d'" "d' < n'" and "n * d' < n' * d"
  shows "lex_sep (order_path_loop n d True) (order_path_loop n' d' True)"
  using assms
proof (induction "n + d + n' + d'" arbitrary: n d n' d' rule: less_induct)
  case less
  define r r' where r: "r = (n - 1) div d" and r': "r' = (n' - 1) div d'"
  define m m' where m: "m = n - r * d" and m': "m' = n' - r' * d'"
  have b: "0 < r" "0 < m" "m \<le> d" "n = m + r * d"
    using run_bounds [of d n] less.prems by (simp_all add: m r)
  have b': "0 < m'" "m' \<le> d'" "n' = m' + r' * d'"
    using run_bounds [of d' n'] less.prems by (simp_all add: m' r')
  have loop: "order_path_loop n d True = encode_positive_integer_order r False @
      (if m = d then [1] else 0 # map (\<lambda>b. 2 - b) (order_path_loop d m True))"
    using order_path_loop_right [of d n] less.prems by (simp add: r m Let_def)
  have loop': "order_path_loop n' d' True = encode_positive_integer_order r' False @
      (if m' = d' then [1] else 0 # map (\<lambda>b. 2 - b) (order_path_loop d' m' True))"
    using order_path_loop_right [of d' n'] less.prems by (simp add: r' m' Let_def)
  show ?case
  proof (cases "r = r'")
    case False
    then have "r < r'" using run_mono [OF less.prems] unfolding r r' by linarith
    with b(1) show ?thesis unfolding loop loop' by (intro lex_sep_append lex_sep_integer_order_asc)
  next
    case True
    have lt: "m * d' < m' * d"
      using less.prems(5) unfolding b(4) b'(3) True by (simp add: algebra_simps)
    have "m \<noteq> d" using lt b'(2) less.prems by (auto simp: mult.commute)
    then have md: "m < d" using b by simp
    show ?thesis
    proof (cases "m' = d'")
      case False
      then have "m' < d'" using b' by simp
      moreover have "d' * m < d * m'" using lt by (simp add: mult.commute)
      ultimately have "lex_sep (order_path_loop d' m' True) (order_path_loop d m True)"
        using md b b' less.prems by (intro less.hyps) simp_all
      then show ?thesis
        using md \<open>m' < d'\<close> unfolding loop loop' True
        by (auto intro!: lex_sep_complement order_path_loop_tokens)
    qed (use md in \<open>simp add: loop loop' True\<close>)
  qed
qed

lemma lex_sep_order_path:
  assumes "0 < n" "0 < d" "0 < n'" "0 < d'" and "n * d' < n' * d"
  shows "lex_sep (encode_positive_order_path n d) (encode_positive_order_path n' d')"
proof -
  have mirror: "order_path_loop a b False = map (\<lambda>b. 2 - b) (order_path_loop b a True)" for a b
    using order_path_loop_mirror [of a b True] by simp
  consider (left) "n < d" "n' < d'" | (right) "d < n" "d' < n'" | (cross) "n \<le> d" "d' \<le> n'"
    | (impossible) "d \<le> n" "n' \<le> d'" by linarith
  then show ?thesis
  proof cases
    case left
    then have "lex_sep (order_path_loop d' n' True) (order_path_loop d n True)"
      using assms by (intro lex_sep_order_path_loop) (simp_all add: mult.commute)
    with left show ?thesis
      by (auto simp: encode_positive_order_path_def mirror intro!: lex_sep_complement
          order_path_loop_tokens)
  next
    case right
    with assms show ?thesis
      by (simp add: encode_positive_order_path_def lex_sep_order_path_loop)
  next
    case cross
    have "\<not> (n = d \<and> n' = d')" using assms(5) by auto
    with cross show ?thesis by (auto simp: encode_positive_order_path_def)
  next
    case impossible
    then have "n' * d \<le> d' * n" by (simp add: mult_le_mono)
    with assms(5) show ?thesis by (simp add: mult.commute)
  qed
qed

section \<open>The order encoding of numbers\<close>

lemma magnitude_cross:
  assumes "canonical a" "canonical b"
  shows "0 \<le> numerator a \<Longrightarrow> 0 \<le> numerator b \<Longrightarrow>
      rat_of a < rat_of b \<longleftrightarrow> magnitude a * denominator b < magnitude b * denominator a"
    and "numerator a \<le> 0 \<Longrightarrow> numerator b \<le> 0 \<Longrightarrow>
      rat_of a < rat_of b \<longleftrightarrow> magnitude b * denominator a < magnitude a * denominator b"
proof -
  have pos: "0 < denominator a" "0 < denominator b" using assms by (simp_all add: canonical_def)
  have lt: "rat_of a < rat_of b \<longleftrightarrow> numerator a * int (denominator b) < numerator b * int (denominator a)"
    using pos unfolding rat_of_def by (simp add: mult.commute)
  show "rat_of a < rat_of b \<longleftrightarrow> magnitude a * denominator b < magnitude b * denominator a"
    if "0 \<le> numerator a" "0 \<le> numerator b"
    unfolding lt using that by (simp add: magnitude_def flip: of_nat_less_iff [where ?'a = int])
  show "rat_of a < rat_of b \<longleftrightarrow> magnitude b * denominator a < magnitude a * denominator b"
    if "numerator a \<le> 0" "numerator b \<le> 0"
    unfolding lt using that by (simp add: magnitude_def flip: of_nat_less_iff [where ?'a = int])
qed

lemma lex_sep_canonical_order_bytes:
  assumes "canonical a" "canonical b" and "rat_of a < rat_of b"
  shows "lex_sep (canonical_order_bytes a) (canonical_order_bytes b)"
proof -
  have pos: "0 < denominator a" "0 < denominator b" using assms by (simp_all add: canonical_def)
  have sgn: "numerator a < 0 \<longleftrightarrow> rat_of a < 0" "numerator b < 0 \<longleftrightarrow> rat_of b < 0"
    "0 < numerator a \<longleftrightarrow> 0 < rat_of a" "0 < numerator b \<longleftrightarrow> 0 < rat_of b"
    using pos by (simp_all add: rat_of_quot field_simps)
  consider (neg) "numerator a < 0" "numerator b < 0" | (pos) "0 < numerator a" "0 < numerator b"
    | (cross) "numerator a \<le> 0" "0 \<le> numerator b" "\<not> (numerator a = 0 \<and> numerator b = 0)"
    using sgn assms(3) by linarith
  then show ?thesis
  proof cases
    case neg
    then have "lex_sep (encode_positive_order_path (magnitude b) (denominator b))
        (encode_positive_order_path (magnitude a) (denominator a))"
      using assms pos magnitude_cross(2) [OF assms(1,2)]
      by (intro lex_sep_order_path) (simp_all add: magnitude_def)
    with neg show ?thesis
      by (auto simp: canonical_order_bytes_def number_sign_def
          intro!: lex_sep_complement order_path_tokens)
  next
    case pos
    then have "lex_sep (encode_positive_order_path (magnitude a) (denominator a))
        (encode_positive_order_path (magnitude b) (denominator b))"
      using assms \<open>0 < denominator a\<close> \<open>0 < denominator b\<close> magnitude_cross(1) [OF assms(1,2)]
      by (intro lex_sep_order_path) (simp_all add: magnitude_def)
    with pos show ?thesis by (simp add: canonical_order_bytes_def number_sign_def)
  next
    case cross
    then show ?thesis by (auto simp: canonical_order_bytes_def number_sign_def)
  qed
qed

definition number_less :: "exact_number \<Rightarrow> exact_number \<Rightarrow> bool" where
  "number_less a b \<longleftrightarrow> number_cmp a b = Less"

lemma number_less_rat: "canonical a \<Longrightarrow> canonical b \<Longrightarrow> number_less a b \<longleftrightarrow> rat_of a < rat_of b"
  by (simp add: number_less_def number_cmp_rat cmp_simps)

interpretation number_codec: order_codec canonical_order_bytes number_less canonical
proof
  fix x y
  assume c: "canonical x" "canonical y"
  show "number_less x y \<Longrightarrow> lex_sep (canonical_order_bytes x) (canonical_order_bytes y)"
    using c lex_sep_canonical_order_bytes by (simp add: number_less_rat)
  show "x = y \<or> number_less x y \<or> number_less y x"
    using c canonical_inject [OF c] by (auto simp: number_less_rat)
qed

section \<open>Property\<close>

text \<open>C15 (refinement). The order bytes of canonical numbers compare, byte by byte, exactly as the
  numbers do; they consist of the tokens 0, 1 and 2 only; and the bytes of one number are never a
  prefix of the bytes of another, whatever is written after either.\<close>

theorem order_bytes_refine_order:
  assumes "canonical a" and "canonical b"
  shows "cmp (canonical_order_bytes a) (canonical_order_bytes b) = number_cmp a b \<and>
    set (canonical_order_bytes a) \<subseteq> {0, 1, 2} \<and>
    (prefix (canonical_order_bytes a @ us) (canonical_order_bytes b @ vs) \<longleftrightarrow>
       number_eq a b \<and> prefix us vs)"
proof -
  have e: "number_eq a b \<longleftrightarrow> a = b" by (cases a, cases b) (simp add: number_eq_def)
  have "cmp (canonical_order_bytes a) (canonical_order_bytes b) = number_cmp a b"
    using number_codec.less_iff assms number_codec.inject [OF assms] canonical_inject [OF assms]
    by (simp add: cmp_def number_less_rat number_cmp_rat)
  moreover have "set (canonical_order_bytes a) \<subseteq> {0, 1, 2}"
    using order_path_tokens [of "magnitude a" "denominator a"]
    by (auto simp: canonical_order_bytes_def split: exact_number_sign.splits)
  ultimately show ?thesis using number_codec.prefix_iff [OF assms] e by simp
qed

theorem order_bytes_refine_order_witness:
  "cmp (canonical_order_bytes \<lparr>numerator = 2, denominator = 5\<rparr>)
     (canonical_order_bytes \<lparr>numerator = 5, denominator = 12\<rparr>) = Less \<and>
   canonical_order_bytes \<lparr>numerator = 2, denominator = 5\<rparr> = [2, 0, 0, 0, 2, 2, 2, 2, 0, 1]"
proof -
  let ?a = "\<lparr>numerator = 2, denominator = 5\<rparr>" and ?b = "\<lparr>numerator = 5, denominator = 12\<rparr>"
  have "coprime (2 :: int) 5" "coprime (5 :: int) 12" by code_simp+
  then have c: "canonical ?a" "canonical ?b" by (simp_all add: canonical_def)
  have l: "number_cmp ?a ?b = Less" by code_simp
  have e: "canonical_order_bytes ?a = [2, 0, 0, 0, 2, 2, 2, 2, 0, 1]" by code_simp
  show ?thesis using order_bytes_refine_order [OF c] l e by simp
qed

end
