(* ===== verification/Key_Codec.thy ===== *)
theory Key_Codec
  imports Number_Order
begin

text \<open>The structural keys of \<open>boon_list_access\<close> (\<open>key.rs\<close>): key schemas, structural values,
  and the directed byte encoding whose byte order is the schema's order. A Rust \<open>String\<close> is its UTF-8
  byte sequence (\<open>bytes\<close>), which is what the codec and \<open>Ord\<close> read of it; a \<open>TagTypeId\<close> is the
  128-bit number whose big endian bytes it holds.\<close>

section \<open>Data\<close>

definition KEY_CODEC_VERSION :: u8 where "KEY_CODEC_VERSION = 3"
definition MAX_KEY_COMPONENTS :: nat where "MAX_KEY_COMPONENTS = 8"
definition NUMBER_MARKER :: u8 where "NUMBER_MARKER = 0x11"
definition TEXT_MARKER :: u8 where "TEXT_MARKER = 0x22"
definition CLOSED_TAG_MARKER :: u8 where "CLOSED_TAG_MARKER = 0x44"

type_synonym tag_type_id = u128

definition tag_type_id_from_bytes :: "bytes \<Rightarrow> tag_type_id" where
  "tag_type_id_from_bytes bs = of_nat (be_nat bs)"

definition tag_type_id_as_bytes :: "tag_type_id \<Rightarrow> bytes" where
  "tag_type_id_as_bytes t = be_fixed 16 (unat t)"

record closed_tag =
  type_id :: tag_type_id
  ordinal :: u32

datatype structural_value = Number exact_number | Text bytes | ClosedTag closed_tag

datatype key_kind = NumberKind | TextKind | ClosedTagKind tag_type_id

datatype direction = Asc | Desc

record key_component =
  kind :: key_kind
  direction :: direction

type_synonym structural_key = "structural_value list"
type_synonym key_schema = "key_component list"
type_synonym encoded_key = bytes

datatype key_error =
  InvalidSchemaArity nat nat
| InvalidKeyArity nat nat
| WrongKeyArity nat nat
| WrongKeyKind nat key_kind key_kind
| PrefixHasNoTarget nat nat
| PrefixTargetIsNotText nat key_kind

section \<open>Operations\<close>

fun value_kind :: "structural_value \<Rightarrow> key_kind" where
  "value_kind (Number _) = NumberKind"
| "value_kind (Text _) = TextKind"
| "value_kind (ClosedTag t) = ClosedTagKind (type_id t)"

fun value_payload_bytes :: "structural_value \<Rightarrow> u64" where
  "value_payload_bytes (Number n) = usize_to_u64 (canonical_storage_bytes n)"
| "value_payload_bytes (Text t) = usize_to_u64 (length t)"
| "value_payload_bytes (ClosedTag _) = 20"

definition structural_key_new :: "structural_value list \<Rightarrow> key_error + structural_key" where
  "structural_key_new parts =
     (if length parts > MAX_KEY_COMPONENTS
      then Inl (InvalidKeyArity (length parts) MAX_KEY_COMPONENTS) else Inr parts)"

definition key_payload_bytes :: "structural_key \<Rightarrow> u64" where
  "key_payload_bytes key =
     fold (\<lambda>part total. saturating_add total (value_payload_bytes part)) key 0"

definition key_schema_new :: "key_component list \<Rightarrow> key_error + key_schema" where
  "key_schema_new components =
     (if length components > MAX_KEY_COMPONENTS
      then Inl (InvalidSchemaArity (length components) MAX_KEY_COMPONENTS) else Inr components)"

fun encode_text_bytes :: "bytes \<Rightarrow> bytes" where
  "encode_text_bytes [] = []"
| "encode_text_bytes (b # bs) =
     (if b = 0 then [0, 255] else [b]) @ encode_text_bytes bs"

text \<open>\<open>encode_component\<close> appends to its output and inverts what it appended; the model returns the
  appended bytes.\<close>

definition encode_component :: "key_component \<Rightarrow> structural_value \<Rightarrow> bool \<Rightarrow> bytes" where
  "encode_component spec value terminate_text =
     (let appended = (case value of
            Number n \<Rightarrow> NUMBER_MARKER # canonical_order_bytes n
          | Text t \<Rightarrow> TEXT_MARKER # encode_text_bytes t @ (if terminate_text then [0, 0] else [])
          | ClosedTag t \<Rightarrow> CLOSED_TAG_MARKER # tag_type_id_as_bytes (type_id t) @
              be_fixed 4 (unat (ordinal t)))
      in if direction spec = Desc then map NOT appended else appended)"

definition validate_part :: "nat \<Rightarrow> key_kind \<Rightarrow> structural_value \<Rightarrow> key_error + unit" where
  "validate_part component expected value =
     (let actual = value_kind value in
      if expected \<noteq> actual then Inl (WrongKeyKind component expected actual) else Inr ())"

fun validate_parts :: "nat \<Rightarrow> key_schema \<Rightarrow> structural_key \<Rightarrow> key_error + unit" where
  "validate_parts position (spec # schema) (value # key) =
     try_res (validate_part position (kind spec) value)
       (\<lambda>_. validate_parts (Suc position) schema key)"
| "validate_parts position [] key = Inr ()"
| "validate_parts position schema [] = Inr ()"

definition validate_key :: "key_schema \<Rightarrow> structural_key \<Rightarrow> key_error + unit" where
  "validate_key schema key =
     (if length key \<noteq> length schema then Inl (WrongKeyArity (length schema) (length key))
      else validate_parts 0 schema key)"

definition encode_parts :: "key_schema \<Rightarrow> structural_key \<Rightarrow> bytes" where
  "encode_parts schema key =
     concat (map (\<lambda>(spec, value). encode_component spec value True) (zip schema key))"

definition encode :: "key_schema \<Rightarrow> structural_key \<Rightarrow> key_error + encoded_key" where
  "encode schema key =
     try_res (validate_key schema key) (\<lambda>_. Inr (KEY_CODEC_VERSION # encode_parts schema key))"

definition compare_keys :: "key_schema \<Rightarrow> structural_key \<Rightarrow> structural_key \<Rightarrow> key_error + ordering" where
  "compare_keys schema left right =
     try_res (encode schema left) (\<lambda>l. try_res (encode schema right) (\<lambda>r. Inr (cmp l r)))"

text \<open>The loop of \<open>encode_structural_prefix\<close> over \<open>leading.iter().enumerate()\<close>.\<close>

fun encode_leading :: "key_schema \<Rightarrow> nat \<Rightarrow> structural_value list \<Rightarrow> bytes \<Rightarrow> key_error + bytes" where
  "encode_leading schema position [] output = Inr output"
| "encode_leading schema position (value # leading) output =
     (let spec = schema ! position in
      try_res (validate_part position (kind spec) value)
        (\<lambda>_. encode_leading schema (Suc position) leading
               (output @ encode_component spec value True)))"

definition encode_structural_prefix ::
    "key_schema \<Rightarrow> structural_value list \<Rightarrow> key_error + bytes" where
  "encode_structural_prefix schema leading =
     (if length leading > length schema
      then Inl (PrefixHasNoTarget (length leading) (length schema))
      else encode_leading schema 0 leading [KEY_CODEC_VERSION])"

definition encode_text_prefix ::
    "key_schema \<Rightarrow> structural_value list \<Rightarrow> bytes \<Rightarrow> key_error + bytes" where
  "encode_text_prefix schema leading text_prefix =
     (if length leading \<ge> length schema
      then Inl (PrefixHasNoTarget (length leading) (length schema))
      else try_res (encode_structural_prefix schema leading) (\<lambda>output.
        let target = schema ! length leading in
        if kind target \<noteq> TextKind then Inl (PrefixTargetIsNotText (length leading) (kind target))
        else Inr (output @ encode_component target (Text text_prefix) False)))"

definition encode_component_prefix ::
    "key_schema \<Rightarrow> structural_value list \<Rightarrow> structural_value \<Rightarrow> key_error + bytes" where
  "encode_component_prefix schema leading value =
     (if length leading \<ge> length schema
      then Inl (PrefixHasNoTarget (length leading) (length schema))
      else try_res (encode_structural_prefix schema leading) (\<lambda>output.
        let spec = schema ! length leading in
        try_res (validate_part (length leading) (kind spec) value)
          (\<lambda>_. Inr (output @ encode_component spec value True))))"

text \<open>\<open>lexicographic_successor\<close>: the loop over \<open>(0..prefix.len()).rev()\<close>, \<open>n\<close> positions left.\<close>

fun successor_loop :: "bytes \<Rightarrow> nat \<Rightarrow> bytes option" where
  "successor_loop bs 0 = None"
| "successor_loop bs (Suc position) =
     (if bs ! position \<noteq> 255 then Some (take (position + 1) (bs[position := bs ! position + 1]))
      else successor_loop bs position)"

definition lexicographic_successor :: "bytes \<Rightarrow> bytes option" where
  "lexicographic_successor bs = successor_loop bs (length bs)"

section \<open>The structural order\<close>

text \<open>The specification: values of one kind compare by content, a descending component turns the
  order around, and keys compare at the first component that differs.\<close>

fun value_compare :: "structural_value \<Rightarrow> structural_value \<Rightarrow> ordering" where
  "value_compare (Number a) (Number b) = number_cmp a b"
| "value_compare (Text a) (Text b) = cmp a b"
| "value_compare (ClosedTag a) (ClosedTag b) = cmp (ordinal a) (ordinal b)"
| "value_compare _ _ = Equal"

definition component_compare ::
    "key_component \<Rightarrow> structural_value \<Rightarrow> structural_value \<Rightarrow> ordering" where
  "component_compare spec a b =
     (if direction spec = Asc then value_compare a b else value_compare b a)"

fun key_compare :: "key_schema \<Rightarrow> structural_key \<Rightarrow> structural_key \<Rightarrow> ordering" where
  "key_compare (spec # schema) (a # left) (b # right) =
     then_with (component_compare spec a b) (key_compare schema left right)"
| "key_compare _ _ _ = Equal"

text \<open>Keys hold numbers of the invariant of \<open>ExactNumber\<close>.\<close>

fun value_canonical :: "structural_value \<Rightarrow> bool" where
  "value_canonical (Number n) = canonical n"
| "value_canonical _ = True"

definition component_valid :: "key_component \<Rightarrow> structural_value \<Rightarrow> bool" where
  "component_valid spec value \<longleftrightarrow>
     value_kind value = kind spec \<and> value_canonical value"

definition component_less :: "key_component \<Rightarrow> structural_value \<Rightarrow> structural_value \<Rightarrow> bool" where
  "component_less spec a b \<longleftrightarrow> component_compare spec a b = Less"

section \<open>Components\<close>

lemma text_less_sep:
  "t < u \<Longrightarrow> lex_sep (encode_text_bytes t @ [0, 0]) (encode_text_bytes u @ [0, 0])"
proof (induction t arbitrary: u)
  case Nil
  then obtain b bs where "u = b # bs" by (cases u) auto
  then show ?case by (simp add: word_gt_0)
next
  case (Cons a t)
  then obtain b bs where "u = b # bs" by (cases u) auto
  with Cons show ?case by (auto simp: word_gt_0)
qed

lemma unat_less_sep: "m < n \<Longrightarrow> lex_sep (be_fixed 4 (unat m)) (be_fixed 4 (unat (n :: u32)))"
  using unsigned_less [of n] by (intro lex_sep_be_fixed) (simp_all add: word_less_nat_alt)

lemma value_compare_swap:
  "value_canonical a \<Longrightarrow> value_canonical b \<Longrightarrow> value_compare a b = Greater \<longleftrightarrow> value_compare b a = Less"
  by (cases a; cases b) (simp_all add: number_cmp_rat)

lemma value_compare_sep:
  assumes "value_canonical a" "value_canonical b" "value_kind a = value_kind b"
    and "value_compare a b = Less" and "direction spec = Asc"
  shows "lex_sep (encode_component spec a True) (encode_component spec b True)"
  using assms number_codec.sep
  by (cases a; cases b)
    (auto simp: encode_component_def number_less_def text_less_sep unat_less_sep)

lemma encode_component_desc:
  "encode_component \<lparr>kind = k, direction = Desc\<rparr> v terminate =
     map NOT (encode_component \<lparr>kind = k, direction = Asc\<rparr> v terminate)"
  by (simp add: encode_component_def Let_def)

lemma value_compare_total:
  assumes "value_canonical a" "value_canonical b" "value_kind a = value_kind b"
  shows "a = b \<or> value_compare a b = Less \<or> value_compare b a = Less"
proof (cases a)
  case (Number m)
  then obtain n where "b = Number n" using assms by (cases b) auto
  with Number assms show ?thesis
    using canonical_inject [of m n] by (auto simp: number_cmp_rat)
next
  case (ClosedTag t)
  then obtain u where "b = ClosedTag u" using assms by (cases b) auto
  with ClosedTag assms show ?thesis by (cases t, cases u) auto
qed (use assms in \<open>cases b; auto\<close>)

lemma asc_codec:
  "order_codec (\<lambda>v. encode_component \<lparr>kind = k, direction = Asc\<rparr> v True)
     (component_less \<lparr>kind = k, direction = Asc\<rparr>) (component_valid \<lparr>kind = k, direction = Asc\<rparr>)"
  by unfold_locales
    (auto simp: component_less_def component_compare_def component_valid_def
      dest: value_compare_total intro: value_compare_sep)

interpretation component_codec: order_codec
  "\<lambda>v. encode_component spec v True"
  "component_less spec" "component_valid spec" for spec
proof (cases spec)
  case (fields k d)
  show "order_codec (\<lambda>v. encode_component spec v True)
      (component_less spec) (component_valid spec)"
  proof (cases d)
    case Asc
    then show ?thesis using asc_codec fields by simp
  next
    case Desc
    have "component_less spec = (\<lambda>a b. component_less \<lparr>kind = k, direction = Asc\<rparr> b a)"
      "component_valid spec = component_valid \<lparr>kind = k, direction = Asc\<rparr>"
      by (auto simp: component_less_def component_compare_def component_valid_def fields Desc fun_eq_iff)
    then show ?thesis
      using order_codec.reversed [OF asc_codec] by (simp add: fields Desc encode_component_desc)
  qed
qed

section \<open>Keys\<close>

definition key_less :: "key_schema \<Rightarrow> structural_key \<Rightarrow> structural_key \<Rightarrow> bool" where
  "key_less schema left right \<longleftrightarrow> key_compare schema left right = Less"

definition key_valid :: "key_schema \<Rightarrow> structural_key \<Rightarrow> bool" where
  "key_valid schema key \<longleftrightarrow> list_all2 component_valid schema key"

lemma component_compare_iff:
  assumes "component_valid s a" "component_valid s b"
  shows "component_compare s a b = Equal \<longleftrightarrow> a = b"
    and "component_compare s a b = Greater \<longleftrightarrow> component_less s b a"
proof -
  have g: "component_compare s a b = Greater \<longleftrightarrow> component_less s b a"
    using assms value_compare_swap
    by (auto simp: component_less_def component_compare_def component_valid_def)
  show "component_compare s a b = Greater \<longleftrightarrow> component_less s b a" by (rule g)
  show "component_compare s a b = Equal \<longleftrightarrow> a = b"
    using g component_codec.total [OF assms] component_codec.lt_irrefl [OF assms(1)]
    by (cases "component_compare s a b") (auto simp: component_less_def)
qed

lemma encode_parts_Cons [simp]:
  "encode_parts (s # schema) (v # key) = encode_component s v True @ encode_parts schema key"
  by (simp add: encode_parts_def)

lemma encode_parts_Nil [simp]: "encode_parts [] key = []" "encode_parts schema [] = []"
  by (simp_all add: encode_parts_def)

lemma key_less_Cons:
  assumes "component_valid s a" "component_valid s b"
  shows "key_less (s # schema) (a # left) (b # right) \<longleftrightarrow>
    component_less s a b \<or> a = b \<and> key_less schema left right"
  using component_compare_iff [OF assms]
  by (cases "component_compare s a b") (auto simp: key_less_def component_less_def then_with_def)

interpretation key_codec: order_codec
  "\<lambda>key. KEY_CODEC_VERSION # encode_parts schema key" "key_less schema" "key_valid schema"
  for schema
proof
  fix x y
  assume v: "key_valid schema x" "key_valid schema y"
  show "lex_sep (KEY_CODEC_VERSION # encode_parts schema x) (KEY_CODEC_VERSION # encode_parts schema y)"
    if "key_less schema x y"
    using v that unfolding key_valid_def
  proof (induction schema x arbitrary: y rule: list_all2_induct)
    case (Cons s schema a x)
    then show ?case
      by (auto simp: list_all2_Cons1 key_less_Cons component_codec.sep_iff)
  qed (simp add: key_less_def)
  show "x = y \<or> key_less schema x y \<or> key_less schema y x"
    using v unfolding key_valid_def
  proof (induction schema x arbitrary: y rule: list_all2_induct)
    case (Cons s schema a x)
    then obtain c z where y: "y = c # z" "component_valid s c" "list_all2 component_valid schema z"
      by (auto simp: list_all2_Cons1)
    show ?case
      using component_codec.total [OF Cons.hyps(1) y(2)] Cons.IH [OF y(3)]
      by (auto simp: y(1) key_less_Cons [OF Cons.hyps(1) y(2)] key_less_Cons [OF y(2) Cons.hyps(1)])
  qed simp
qed

lemma validate_part_eq_Inr [simp]: "validate_part p k v = Inr u \<longleftrightarrow> value_kind v = k"
  by (auto simp: validate_part_def Let_def)

lemma validate_parts_Inr:
  "validate_parts p schema key = Inr u \<longleftrightarrow>
     (\<forall>(s, v) \<in> set (zip schema key). value_kind v = kind s)"
  by (induction p schema key rule: validate_parts.induct) auto

lemma validate_parts_valid:
  "length schema = length key \<Longrightarrow> list_all2 component_valid schema key \<longleftrightarrow>
     validate_parts p schema key = Inr () \<and> (\<forall>v \<in> set key. value_canonical v)"
  by (induction schema key arbitrary: p rule: list_induct2) (auto simp: component_valid_def)

lemma key_valid_iff:
  "key_valid schema key \<longleftrightarrow> validate_key schema key = Inr () \<and> (\<forall>v \<in> set key. value_canonical v)"
proof (cases "length key = length schema")
  case True
  then show ?thesis
    using validate_parts_valid [of schema key 0] by (simp add: key_valid_def validate_key_def)
qed (auto simp: key_valid_def validate_key_def dest: list_all2_lengthD)

lemma encode_eq_Inr:
  "encode schema key = Inr k \<longleftrightarrow>
     validate_key schema key = Inr () \<and> k = KEY_CODEC_VERSION # encode_parts schema key"
  by (auto simp: encode_def)

lemma key_compare_Greater:
  assumes "key_valid schema a" "key_valid schema b"
  shows "key_compare schema a b = Greater \<longleftrightarrow> key_less schema b a"
  using assms unfolding key_valid_def
proof (induction schema a arbitrary: b rule: list_all2_induct)
  case (Cons s schema a x)
  then obtain c y where b: "b = c # y" "component_valid s c" "list_all2 component_valid schema y"
    by (auto simp: list_all2_Cons1)
  note v = Cons.hyps(1) b(2)
  show ?case
    using component_compare_iff [OF v] component_codec.lt_asym [OF v] Cons.IH [OF b(3)]
    unfolding b(1) key_less_Cons [OF v(2,1)] key_compare.simps
    by (cases "component_compare s a c") (simp_all add: component_less_def then_with_def)
qed (simp add: key_less_def)

lemma key_compare_iff:
  assumes "key_valid schema a" "key_valid schema b"
  shows "key_compare schema a b = cmp (KEY_CODEC_VERSION # encode_parts schema a)
    (KEY_CODEC_VERSION # encode_parts schema b)" (is "_ = cmp ?a ?b")
proof (cases "key_compare schema a b")
  case Less
  then have "?a < ?b" unfolding key_codec.less_iff [OF assms] key_less_def .
  then show ?thesis by (simp only: Less cmp_def if_True)
next
  case Greater
  then have "?b < ?a" using key_compare_Greater [OF assms]
    unfolding key_codec.less_iff [OF assms(2,1)] by simp
  then have "cmp ?a ?b = Greater" unfolding cmp_simps .
  then show ?thesis by (simp only: Greater)
next
  case Equal
  then have "\<not> key_less schema a b" "\<not> key_less schema b a"
    using key_compare_Greater [OF assms] by (simp_all add: key_less_def)
  then have "a = b" using key_codec.total [OF assms] by blast
  then have "cmp ?a ?b = Equal" unfolding cmp_simps by simp
  then show ?thesis by (simp only: Equal)
qed

section \<open>Prefixes\<close>

lemma validate_parts_Nil [simp]: "validate_parts p schema [] = Inr ()"
  by (cases schema) simp_all

lemma encode_leading_eq:
  "p + length leading \<le> length schema \<Longrightarrow>
   encode_leading schema p leading out =
     try_res (validate_parts p (drop p schema) leading)
       (\<lambda>_. Inr (out @ encode_parts (drop p schema) leading))"
proof (induction leading arbitrary: p out)
  case (Cons v leading)
  then have "drop p schema = schema ! p # drop (Suc p) schema" by (simp add: Cons_nth_drop_Suc)
  with Cons show ?case
    by (simp add: Let_def try_res_assoc)
qed simp

lemma validate_parts_take: "validate_parts p (take (length vs) schema) vs = validate_parts p schema vs"
  by (induction p schema vs rule: validate_parts.induct) simp_all

lemma encode_parts_take: "encode_parts (take (length vs) schema) vs = encode_parts schema vs"
  by (induction schema vs rule: list_induct2') simp_all

lemma encode_structural_prefix_Inr:
  "encode_structural_prefix schema leading = Inr bs \<longleftrightarrow>
     validate_key (take (length leading) schema) leading = Inr () \<and>
     bs = KEY_CODEC_VERSION # encode_parts (take (length leading) schema) leading"
  by (auto simp: encode_structural_prefix_def encode_leading_eq validate_key_def validate_parts_take
      encode_parts_take)

lemma encode_text_prefix_iff:
  "prefix (encode_text_bytes p) (encode_text_bytes t @ [0, 0] @ rest) \<longleftrightarrow> prefix p t"
proof (induction p arbitrary: t)
  case (Cons a p)
  then show ?case by (cases t) auto
qed simp

lemma prefix_map_not: "prefix (map NOT xs) (map NOT ys) \<longleftrightarrow> prefix (xs :: bytes) ys"
proof (induction xs arbitrary: ys)
  case (Cons x xs)
  then show ?case by (cases ys) auto
qed simp

lemma text_component_prefix:
  assumes "kind s = TextKind" "component_valid s v"
  shows "prefix (encode_component s (Text p) False) (encode_component s v True @ rest) \<longleftrightarrow>
    (\<exists>t. v = Text t \<and> prefix p t)"
proof -
  obtain t where v: "v = Text t" using assms by (cases v) (auto simp: component_valid_def)
  have "rest = map NOT (map NOT rest)" by (simp add: map_idI)
  then obtain rest' where r: "rest = map NOT rest'" by blast
  show ?thesis
  proof (cases "direction s")
    case Asc
    then show ?thesis using encode_text_prefix_iff [of p t rest] by (simp add: v encode_component_def)
  next
    case Desc
    have "prefix (map NOT (encode_text_bytes p)) (map NOT (encode_text_bytes t @ [0, 0] @ rest')) \<longleftrightarrow>
        prefix p t"
      unfolding prefix_map_not by (rule encode_text_prefix_iff)
    with Desc show ?thesis by (simp add: v encode_component_def r)
  qed
qed

section \<open>Successors\<close>

lemma successor_loop_Some:
  "n \<le> length bs \<Longrightarrow> successor_loop bs n = Some s \<Longrightarrow>
     \<exists>i < n. s = take i bs @ [bs ! i + 1] \<and> bs ! i \<noteq> 255 \<and> (\<forall>j \<in> {i<..<n}. bs ! j = 255)"
proof (induction n)
  case (Suc n)
  show ?case
  proof (cases "bs ! n = 255")
    case False
    with Suc.prems show ?thesis
      by (intro exI [of _ n]) (auto simp: take_Suc_conv_app_nth take_update_swap list_update_append)
  next
    case True
    with Suc show ?thesis by (force simp: less_Suc_eq)
  qed
qed simp

lemma successor_loop_None:
  "n \<le> length bs \<Longrightarrow> successor_loop bs n = None \<Longrightarrow> j < n \<Longrightarrow> bs ! j = 255"
  by (induction n) (auto simp: less_Suc_eq split: if_splits)

lemma byte_max: "(b :: u8) \<le> 255"
  using unat_u8_less [of b] by (simp add: word_le_nat_alt)

lemma byte_less_max: "(b :: u8) < 255 \<longleftrightarrow> b \<noteq> 255"
  using byte_max [of b] by auto

text \<open>A block of 255 has no key above it but its own extensions.\<close>

lemma replicate_max_le:
  "replicate k (255 :: u8) \<le> key \<longleftrightarrow> prefix (replicate k 255) key"
proof (induction k arbitrary: key)
  case (Suc k)
  then show ?case by (cases key) (auto simp: byte_less_max leD[OF byte_max])
qed simp

lemma byte_between: "(b :: u8) \<noteq> 255 \<Longrightarrow> c < b + 1 \<longleftrightarrow> c \<le> b"
proof -
  assume "b \<noteq> 255"
  then have "unat b < 255" using byte_less_max [of b] by (simp add: word_less_nat_alt)
  then have "unat (b + 1) = unat b + 1" by (simp add: unat_word_ariths)
  then show ?thesis by (simp add: word_less_nat_alt word_le_nat_alt less_Suc_eq_le)
qed

lemma Cons_range:
  "(prefix xs cs \<longleftrightarrow> xs \<le> cs \<and> cs < ys) \<Longrightarrow>
   prefix (u # xs) (c # cs) \<longleftrightarrow> u # xs \<le> c # cs \<and> c # cs < u # ys" for u :: "'a::linorder"
  unfolding Cons_le_Cons Cons_less_Cons Cons_prefix_Cons by (metis order.asym less_irrefl)

lemma successor_range:
  assumes "b \<noteq> (255 :: u8)"
  shows "prefix (us @ b # replicate k 255) key \<longleftrightarrow>
    us @ b # replicate k 255 \<le> key \<and> key < us @ [b + 1]"
proof (induction us arbitrary: key)
  case Nil
  show ?case
  proof (cases key)
    case (Cons c cs)
    have "key < [b + 1] \<longleftrightarrow> c \<le> b" unfolding Cons Cons_less_Cons byte_between [OF assms] by simp
    moreover have "b # replicate k 255 \<le> key \<longleftrightarrow> b < c \<or> b = c \<and> prefix (replicate k 255) cs"
      unfolding Cons Cons_le_Cons replicate_max_le by (rule refl)
    moreover have "prefix (b # replicate k 255) key \<longleftrightarrow> b = c \<and> prefix (replicate k 255) cs"
      unfolding Cons Cons_prefix_Cons by (rule refl)
    ultimately show ?thesis unfolding append_Nil by (metis leD order_refl)
  qed simp
next
  case (Cons u us)
  show ?case
  proof (cases key)
    case (Cons c cs)
    show ?thesis unfolding Cons append_Cons by (rule Cons_range [OF Cons.IH])
  qed simp
qed

lemma lexicographic_successor_Some:
  assumes "lexicographic_successor bs = Some s"
  shows "prefix bs key \<longleftrightarrow> bs \<le> key \<and> key < s"
proof -
  obtain i where i: "i < length bs" "s = take i bs @ [bs ! i + 1]" "bs ! i \<noteq> 255"
    "\<forall>j \<in> {i<..<length bs}. bs ! j = 255"
    using successor_loop_Some [of "length bs" bs s] assms by (auto simp: lexicographic_successor_def)
  have "drop (Suc i) bs = replicate (length bs - Suc i) 255"
    using i(4) by (intro nth_equalityI) auto
  then have "bs = take i bs @ bs ! i # replicate (length bs - Suc i) 255"
    using id_take_nth_drop [OF i(1)] by simp
  then show ?thesis using successor_range [OF i(3)] i(2) by metis
qed

lemma lexicographic_successor_None:
  assumes "lexicographic_successor bs = None"
  shows "prefix bs key \<longleftrightarrow> bs \<le> key"
proof -
  have "bs = replicate (length bs) 255"
    using successor_loop_None [of "length bs" bs] assms
    by (intro nth_equalityI) (auto simp: lexicographic_successor_def)
  then show ?thesis using replicate_max_le by metis
qed

lemma encode_parts_split:
  "length key = length schema \<Longrightarrow> n \<le> length schema \<Longrightarrow>
   encode_parts schema key =
     encode_parts (take n schema) (take n key) @ encode_parts (drop n schema) (drop n key)"
  by (simp add: encode_parts_def take_zip drop_zip flip: concat_append map_append take_zip drop_zip)

lemma key_valid_take: "key_valid schema key \<Longrightarrow> key_valid (take n schema) (take n key)"
  by (simp add: key_valid_def list_all2_takeI)

lemma key_prefix_iff:
  assumes "key_valid schema key" "key_valid (take (length leading) schema) leading"
    and "length leading \<le> length schema"
  shows "prefix ((KEY_CODEC_VERSION # encode_parts (take (length leading) schema) leading) @ us)
      (KEY_CODEC_VERSION # encode_parts schema key) \<longleftrightarrow>
    prefix leading key \<and>
      prefix us (encode_parts (drop (length leading) schema) (drop (length leading) key))"
proof -
  let ?n = "length leading"
  have l: "length key = length schema" using assms(1) by (auto simp: key_valid_def dest: list_all2_lengthD)
  have "prefix leading key \<longleftrightarrow> leading = take ?n key"
    by (metis append_eq_conv_conj prefix_def take_is_prefix)
  then show ?thesis
    using key_codec.prefix_iff [OF assms(2) key_valid_take [OF assms(1)], of us]
      encode_parts_split [OF l assms(3)] by simp
qed

lemma structural_prefix_selects:
  assumes "key_valid schema key" and "\<forall>v \<in> set leading. value_canonical v"
    and "encode_structural_prefix schema leading = Inr bs"
  shows "prefix (bs @ us) (KEY_CODEC_VERSION # encode_parts schema key) \<longleftrightarrow>
    prefix leading key \<and>
      prefix us (encode_parts (drop (length leading) schema) (drop (length leading) key))"
proof -
  have v: "validate_key (take (length leading) schema) leading = Inr ()"
    and bs: "bs = KEY_CODEC_VERSION # encode_parts (take (length leading) schema) leading"
    using assms(3) by (simp_all add: encode_structural_prefix_Inr)
  have "length leading \<le> length schema"
    using assms(3) by (auto simp: encode_structural_prefix_def split: if_splits)
  with v assms show ?thesis unfolding bs by (intro key_prefix_iff) (auto simp: key_valid_iff)
qed

lemma next_part:
  assumes "key_valid schema key" and "n < length schema"
  shows "encode_parts (drop n schema) (drop n key) =
      encode_component (schema ! n) (key ! n) True @ encode_parts (drop (Suc n) schema) (drop (Suc n) key)"
    and "component_valid (schema ! n) (key ! n)" and "n < length key"
proof -
  show l: "n < length key" using assms by (auto simp: key_valid_def dest: list_all2_lengthD)
  show "encode_parts (drop n schema) (drop n key) =
      encode_component (schema ! n) (key ! n) True @ encode_parts (drop (Suc n) schema) (drop (Suc n) key)"
    using assms l by (simp flip: Cons_nth_drop_Suc)
  show "component_valid (schema ! n) (key ! n)"
    using assms by (simp add: key_valid_def list_all2_nthD)
qed

lemma prefix_snoc_nth:
  "length xs < length ys \<Longrightarrow> prefix (xs @ [v]) ys \<longleftrightarrow> prefix xs ys \<and> v = ys ! length xs"
proof (induction xs arbitrary: ys)
  case Nil
  then show ?case by (cases ys) auto
next
  case (Cons x xs)
  then show ?case by (cases ys) auto
qed

lemma component_prefix_selects:
  assumes "key_valid schema key" and "\<forall>v \<in> set (value # leading). value_canonical v"
    and "encode_component_prefix schema leading value = Inr p"
  shows "prefix p (KEY_CODEC_VERSION # encode_parts schema key) \<longleftrightarrow> prefix (leading @ [value]) key"
proof -
  let ?n = "length leading"
  obtain bs where n: "?n < length schema" and bs: "encode_structural_prefix schema leading = Inr bs"
    and p: "p = bs @ encode_component (schema ! ?n) value True"
    and v: "component_valid (schema ! ?n) value"
    using assms(2,3)
    by (auto simp: encode_component_prefix_def Let_def component_valid_def split: if_splits)
  note np = next_part [OF assms(1) n]
  have "prefix (encode_component (schema ! ?n) value True)
      (encode_parts (drop ?n schema) (drop ?n key)) \<longleftrightarrow> value = key ! ?n"
    using component_codec.prefix_iff [OF v np(2), of "[]"] by (simp add: np(1))
  then show ?thesis
    unfolding p prefix_snoc_nth [OF np(3)]
    using structural_prefix_selects [OF assms(1) _ bs] assms(2) by simp
qed

lemma text_prefix_selects:
  assumes "key_valid schema key" and "\<forall>v \<in> set leading. value_canonical v"
    and "encode_text_prefix schema leading text_prefix = Inr p"
  shows "prefix p (KEY_CODEC_VERSION # encode_parts schema key) \<longleftrightarrow>
    prefix leading key \<and> (\<exists>t. key ! length leading = Text t \<and> prefix text_prefix t)"
proof -
  let ?n = "length leading"
  obtain bs where n: "?n < length schema" and bs: "encode_structural_prefix schema leading = Inr bs"
    and p: "p = bs @ encode_component (schema ! ?n) (Text text_prefix) False"
    and v: "kind (schema ! ?n) = TextKind"
    using assms(3) by (auto simp: encode_text_prefix_def Let_def split: if_splits)
  show ?thesis
    unfolding p structural_prefix_selects [OF assms(1,2) bs] next_part(1) [OF assms(1) n]
      text_component_prefix [OF v next_part(2) [OF assms(1) n]] by (rule refl)
qed

section \<open>Properties\<close>

text \<open>C2 (refinement). For keys the schema accepts, comparing the encoded bytes is the directed
  structural comparison, component by component; and two keys have the same encoding only if they are
  the same key.\<close>

theorem compare_keys_structural:
  assumes "validate_key schema left = Inr ()" and "validate_key schema right = Inr ()"
    and "\<forall>v \<in> set left \<union> set right. value_canonical v"
  shows "compare_keys schema left right = Inr (key_compare schema left right) \<and>
    (encode schema left = encode schema right \<longleftrightarrow> left = right)"
proof -
  have v: "key_valid schema left" "key_valid schema right" using assms by (auto simp: key_valid_iff)
  show ?thesis
    using key_compare_iff [OF v] key_codec.inject [OF v] assms by (simp add: compare_keys_def encode_def)
qed

theorem compare_keys_structural_witness:
  "compare_keys [\<lparr>kind = TextKind, direction = Desc\<rparr>, \<lparr>kind = NumberKind, direction = Asc\<rparr>]
     [Text [97], Number \<lparr>numerator = 1, denominator = 2\<rparr>]
     [Text [97, 0], Number \<lparr>numerator = 1, denominator = 3\<rparr>] = Inr Greater"
proof -
  let ?s = "[\<lparr>kind = TextKind, direction = Desc\<rparr>, \<lparr>kind = NumberKind, direction = Asc\<rparr>]"
  let ?l = "[Text [97], Number \<lparr>numerator = 1, denominator = 2\<rparr>]"
    and ?r = "[Text [97, 0], Number \<lparr>numerator = 1, denominator = 3\<rparr>]"
  have v: "validate_key ?s ?l = Inr ()" "validate_key ?s ?r = Inr ()" by code_simp+
  have c: "\<forall>v \<in> set ?l \<union> set ?r. value_canonical v" by (simp add: canonical_def)
  have k: "key_compare ?s ?l ?r = Greater" by code_simp
  show ?thesis using compare_keys_structural [OF v c] k by simp
qed

text \<open>C16 (functional). An encoded prefix selects exactly the keys it stands for: a structural prefix
  the keys starting with its values, a component prefix those that also have the given next value, a
  text prefix those whose next component is a text starting with the given text.\<close>

theorem encoded_prefix_selects:
  assumes "encode schema key = Inr k" and "\<forall>v \<in> set (value # leading @ key). value_canonical v"
  shows "(encode_structural_prefix schema leading = Inr p \<longrightarrow> (prefix p k \<longleftrightarrow> prefix leading key)) \<and>
    (encode_component_prefix schema leading value = Inr p \<longrightarrow>
       (prefix p k \<longleftrightarrow> prefix (leading @ [value]) key)) \<and>
    (encode_text_prefix schema leading text_prefix = Inr p \<longrightarrow>
       (prefix p k \<longleftrightarrow> prefix leading key \<and>
          (\<exists>t. key ! length leading = Text t \<and> prefix text_prefix t)))"
proof -
  have kv: "key_valid schema key" and k: "k = KEY_CODEC_VERSION # encode_parts schema key"
    using assms by (auto simp: encode_eq_Inr key_valid_iff)
  show ?thesis
    unfolding k
    using structural_prefix_selects [OF kv, of leading p "[]"] assms(2)
      component_prefix_selects [OF kv, of "value" leading p]
      text_prefix_selects [OF kv, of leading text_prefix p] by simp
qed

theorem encoded_prefix_selects_witness:
  "\<exists>p k. encode_text_prefix [\<lparr>kind = TextKind, direction = Desc\<rparr>] [] [97] = Inr p \<and>
     encode [\<lparr>kind = TextKind, direction = Desc\<rparr>] [Text [97, 0, 98]] = Inr k \<and> prefix p k"
proof -
  let ?s = "[\<lparr>kind = TextKind, direction = Desc\<rparr>]" and ?k = "[Text [97, 0, 98]]"
  have k: "encode ?s ?k = Inr [3, 221, 158, 255, 0, 157, 255, 255]" by code_simp
  have p: "encode_text_prefix ?s [] [97] = Inr [3, 221, 158]" by code_simp
  show ?thesis
    using encoded_prefix_selects [OF k, of "Text []" "[]" "[3, 221, 158]" "[97]"] k p by simp
qed

text \<open>C17 (functional). \<open>lexicographic_successor\<close> bounds the keys that extend a prefix: they are the
  keys from the prefix on and below its successor, or all keys from the prefix on when there is none.\<close>

theorem lexicographic_successor_range:
  "prefix bs key \<longleftrightarrow>
     bs \<le> key \<and> (case lexicographic_successor bs of None \<Rightarrow> True | Some s \<Rightarrow> key < s)"
  by (cases "lexicographic_successor bs")
    (simp_all add: lexicographic_successor_None lexicographic_successor_Some)

end
