(* ===== verification/Work_Tracker.thy ===== *)
theory Work_Tracker
  imports Boon_Prelude
begin

text \<open>The work budget of an access (\<open>boon_list_access/src/work.rs\<close>): counters with limits, of which
  exceeding one is an error and is itself counted.\<close>

record work_limits =
  max_index_seeks :: u64
  max_key_ranges :: u64
  max_keys_visited :: u64
  max_candidates_visited :: u64
  max_rows_returned :: u64
  max_branch_polls :: u64
  max_full_scans :: u64

definition default_work_limits :: work_limits where
  "default_work_limits = \<lparr>max_index_seeks = 256, max_key_ranges = 256, max_keys_visited = 100000,
     max_candidates_visited = 100000, max_rows_returned = 10000, max_branch_polls = 400000,
     max_full_scans = 1\<rparr>"

record access_metrics =
  index_seeks :: u64
  key_ranges :: u64
  keys_visited :: u64
  candidates_visited :: u64
  rows_returned :: u64
  cursor_seeks :: u64
  branch_polls :: u64
  union_duplicates_skipped :: u64
  intersection_candidates_skipped :: u64
  full_scans :: u64
  work_limit_failures :: u64

datatype limit_kind =
  IndexSeeks | KeyRanges | KeysVisited | CandidatesVisited | RowsReturned | BranchPolls | FullScans

record work_limit_exceeded =
  limit_kind :: limit_kind
  limit :: u64

record work_tracker =
  work_limits :: work_limits
  work_metrics :: access_metrics

definition default_access_metrics :: access_metrics where
  "default_access_metrics = \<lparr>index_seeks = 0, key_ranges = 0, keys_visited = 0,
     candidates_visited = 0, rows_returned = 0, cursor_seeks = 0, branch_polls = 0,
     union_duplicates_skipped = 0, intersection_candidates_skipped = 0, full_scans = 0,
     work_limit_failures = 0\<rparr>"

definition work_tracker_new :: "work_limits \<Rightarrow> work_tracker" where
  "work_tracker_new limits = \<lparr>work_limits = limits, work_metrics = default_access_metrics\<rparr>"

definition work_tracker_reset :: "work_tracker \<Rightarrow> work_tracker" where
  "work_tracker_reset w = w\<lparr>work_metrics := default_access_metrics\<rparr>"

section \<open>Operations\<close>

text \<open>\<open>bump\<close> takes \<open>counter\<close> and \<open>failures\<close> by mutable reference; the model returns both.\<close>

definition bump :: "u64 \<Rightarrow> u64 \<Rightarrow> limit_kind \<Rightarrow> u64 \<Rightarrow> (work_limit_exceeded + unit) \<times> u64 \<times> u64" where
  "bump counter bound kind failures =
     (if counter \<ge> bound
      then (Inl \<lparr>limit_kind = kind, limit = bound\<rparr>, counter, saturating_add failures 1)
      else (Inr (), counter + 1, failures))"

definition bump_metric ::
    "(access_metrics \<Rightarrow> u64) \<Rightarrow> ((u64 \<Rightarrow> u64) \<Rightarrow> access_metrics \<Rightarrow> access_metrics) \<Rightarrow>
     (work_limits \<Rightarrow> u64) \<Rightarrow> limit_kind \<Rightarrow> work_tracker \<Rightarrow>
     (work_limit_exceeded + unit) \<times> work_tracker" where
  "bump_metric get upd bound kind w =
     (let (result, counter, failures) = bump (get (work_metrics w)) (bound (work_limits w)) kind
            (work_limit_failures (work_metrics w))
      in (result, w\<lparr>work_metrics :=
            (upd (\<lambda>_. counter) (work_metrics w))\<lparr>work_limit_failures := failures\<rparr>\<rparr>))"

definition begin_seek :: "bool \<Rightarrow> bool \<Rightarrow> work_tracker \<Rightarrow> (work_limit_exceeded + unit) \<times> work_tracker" where
  "begin_seek cursor full_scan w =
     try_st (bump_metric index_seeks index_seeks_update max_index_seeks IndexSeeks w) (\<lambda>_ w.
     try_st (bump_metric key_ranges key_ranges_update max_key_ranges KeyRanges w) (\<lambda>_ w.
     let w = (if cursor
              then w\<lparr>work_metrics := (work_metrics w)
                \<lparr>cursor_seeks := saturating_add (cursor_seeks (work_metrics w)) 1\<rparr>\<rparr>
              else w)
     in if full_scan then bump_metric full_scans full_scans_update max_full_scans FullScans w
        else (Inr (), w)))"

definition visit_key :: "work_tracker \<Rightarrow> (work_limit_exceeded + unit) \<times> work_tracker" where
  "visit_key = bump_metric keys_visited keys_visited_update max_keys_visited KeysVisited"

definition visit_candidate :: "work_tracker \<Rightarrow> (work_limit_exceeded + unit) \<times> work_tracker" where
  "visit_candidate = bump_metric candidates_visited candidates_visited_update
     max_candidates_visited CandidatesVisited"

definition return_row :: "work_tracker \<Rightarrow> (work_limit_exceeded + unit) \<times> work_tracker" where
  "return_row = bump_metric rows_returned rows_returned_update max_rows_returned RowsReturned"

definition poll_branch :: "work_tracker \<Rightarrow> (work_limit_exceeded + unit) \<times> work_tracker" where
  "poll_branch = bump_metric branch_polls branch_polls_update max_branch_polls BranchPolls"

definition skip_union_duplicates :: "u64 \<Rightarrow> work_tracker \<Rightarrow> work_tracker" where
  "skip_union_duplicates count w = w\<lparr>work_metrics := (work_metrics w)
     \<lparr>union_duplicates_skipped := saturating_add (union_duplicates_skipped (work_metrics w)) count\<rparr>\<rparr>"

definition skip_intersection_candidate :: "work_tracker \<Rightarrow> work_tracker" where
  "skip_intersection_candidate w = w\<lparr>work_metrics := (work_metrics w)
     \<lparr>intersection_candidates_skipped :=
        saturating_add (intersection_candidates_skipped (work_metrics w)) 1\<rparr>\<rparr>"

section \<open>Counters stay within their limits\<close>

definition within_limits :: "work_tracker \<Rightarrow> bool" where
  "within_limits w \<longleftrightarrow> (let m = work_metrics w; l = work_limits w in
     index_seeks m \<le> max_index_seeks l \<and> key_ranges m \<le> max_key_ranges l \<and>
     keys_visited m \<le> max_keys_visited l \<and> candidates_visited m \<le> max_candidates_visited l \<and>
     rows_returned m \<le> max_rows_returned l \<and> branch_polls m \<le> max_branch_polls l \<and>
     full_scans m \<le> max_full_scans l)"

text \<open>Every history of a tracker: any sequence of operations, failed ones included.\<close>

inductive tracked :: "work_limits \<Rightarrow> work_tracker \<Rightarrow> bool" for limits where
  tracked_new: "tracked limits (work_tracker_new limits)"
| tracked_reset: "tracked limits w \<Longrightarrow> tracked limits (work_tracker_reset w)"
| tracked_seek: "tracked limits w \<Longrightarrow> tracked limits (snd (begin_seek cursor full w))"
| tracked_key: "tracked limits w \<Longrightarrow> tracked limits (snd (visit_key w))"
| tracked_candidate: "tracked limits w \<Longrightarrow> tracked limits (snd (visit_candidate w))"
| tracked_row: "tracked limits w \<Longrightarrow> tracked limits (snd (return_row w))"
| tracked_poll: "tracked limits w \<Longrightarrow> tracked limits (snd (poll_branch w))"
| tracked_union: "tracked limits w \<Longrightarrow> tracked limits (skip_union_duplicates n w)"
| tracked_intersection: "tracked limits w \<Longrightarrow> tracked limits (skip_intersection_candidate w)"

lemma less_succ_le: "a < b \<Longrightarrow> a + 1 \<le> b" for a b :: u64
  using inc_le by blast

lemmas work_ops = visit_key_def visit_candidate_def return_row_def poll_branch_def begin_seek_def
  skip_union_duplicates_def skip_intersection_candidate_def work_tracker_reset_def
  bump_metric_def bump_def Let_def

lemma tracked_bounded: "tracked limits w \<Longrightarrow> within_limits w \<and> work_limits w = limits"
proof (induction rule: tracked.induct)
  case tracked_new
  show ?case by (simp add: work_tracker_new_def within_limits_def default_access_metrics_def)
next
  case (tracked_seek w cursor full)
  then show ?case by (auto simp: work_ops within_limits_def not_le intro: less_succ_le)
qed (auto simp: work_ops within_limits_def not_le default_access_metrics_def intro: less_succ_le)

lemma unat_succ: "a < b \<Longrightarrow> unat (a + 1) = unat a + 1" for a b :: u64
  using unsigned_less [of b, where ?'a = nat] by (simp add: word_less_nat_alt unat_word_ariths)

section \<open>Property\<close>

text \<open>C18 (bounds). Over every history of a tracker, failed calls included, no counter exceeds its
  limit and the limits never change; and a candidate is admitted exactly while the counter is below
  its limit, counting one without wrap-around, while a refusal leaves every other counter alone.\<close>

theorem work_counters_bounded:
  assumes "tracked limits w"
  shows "within_limits w \<and> work_limits w = limits \<and>
    (case visit_candidate w of
       (Inr _, w') \<Rightarrow> candidates_visited (work_metrics w) < max_candidates_visited limits \<and>
         unat (candidates_visited (work_metrics w')) = unat (candidates_visited (work_metrics w)) + 1
     | (Inl e, w') \<Rightarrow> candidates_visited (work_metrics w) = max_candidates_visited limits \<and>
         e = \<lparr>limit_kind = CandidatesVisited, limit = max_candidates_visited limits\<rparr> \<and>
         w' = w\<lparr>work_metrics := (work_metrics w)\<lparr>work_limit_failures :=
                saturating_add (work_limit_failures (work_metrics w)) 1\<rparr>\<rparr>)"
  using tracked_bounded [OF assms]
  by (auto simp: work_ops within_limits_def not_le unat_succ)

theorem work_counters_bounded_witness:
  "within_limits (snd (begin_seek True True (work_tracker_new default_work_limits)))"
  using work_counters_bounded [OF tracked_seek [OF tracked_new], of True True default_work_limits]
  by simp

end
