(* ===== verification/Sorted_Collections.thy ===== *)
theory Sorted_Collections
  imports Boon_Prelude
begin

text \<open>The ordered collections of the standard library that the index is built on: a \<open>BTreeSet\<close> is
  its strictly increasing list of elements, a \<open>BTreeMap\<close> its list of entries with strictly
  increasing keys, the order in which both are iterated. Two locales state what clients rely on; the
  lists are their interpretations.\<close>

section \<open>Operations\<close>

fun bset_insert :: "'a::linorder \<Rightarrow> 'a list \<Rightarrow> 'a list" where
  "bset_insert x [] = [x]"
| "bset_insert x (y # ys) = (if x < y then x # y # ys else if x = y then y # ys else y # bset_insert x ys)"

fun bset_remove :: "'a::linorder \<Rightarrow> 'a list \<Rightarrow> 'a list" where
  "bset_remove x [] = []"
| "bset_remove x (y # ys) = (if x = y then ys else y # bset_remove x ys)"

definition bset_contains :: "'a \<Rightarrow> 'a list \<Rightarrow> bool" where
  "bset_contains x xs \<longleftrightarrow> x \<in> set xs"

fun bmap_insert :: "'k::linorder \<Rightarrow> 'v \<Rightarrow> ('k \<times> 'v) list \<Rightarrow> ('k \<times> 'v) list" where
  "bmap_insert k v [] = [(k, v)]"
| "bmap_insert k v ((l, w) # m) =
     (if k < l then (k, v) # (l, w) # m else if k = l then (k, v) # m else (l, w) # bmap_insert k v m)"

fun bmap_remove :: "'k::linorder \<Rightarrow> ('k \<times> 'v) list \<Rightarrow> ('k \<times> 'v) list" where
  "bmap_remove k [] = []"
| "bmap_remove k ((l, w) # m) = (if k = l then m else (l, w) # bmap_remove k m)"

text \<open>\<open>Bound\<close> and \<open>range\<close>.\<close>

datatype 'a bound = Included 'a | Excluded 'a | Unbounded

fun above :: "'a::linorder bound \<Rightarrow> 'a \<Rightarrow> bool" where
  "above (Included b) x \<longleftrightarrow> b \<le> x"
| "above (Excluded b) x \<longleftrightarrow> b < x"
| "above Unbounded x \<longleftrightarrow> True"

fun below :: "'a::linorder bound \<Rightarrow> 'a \<Rightarrow> bool" where
  "below (Included b) x \<longleftrightarrow> x \<le> b"
| "below (Excluded b) x \<longleftrightarrow> x < b"
| "below Unbounded x \<longleftrightarrow> True"

definition bset_range :: "'a::linorder bound \<Rightarrow> 'a bound \<Rightarrow> 'a list \<Rightarrow> 'a list" where
  "bset_range lower upper xs = filter (\<lambda>x. above lower x \<and> below upper x) xs"

definition bmap_range :: "'k::linorder bound \<Rightarrow> 'k bound \<Rightarrow> ('k \<times> 'v) list \<Rightarrow> ('k \<times> 'v) list" where
  "bmap_range lower upper m = filter (\<lambda>(k, _). above lower k \<and> below upper k) m"

abbreviation bset_inv :: "'a::linorder list \<Rightarrow> bool" where
  "bset_inv \<equiv> sorted_wrt (<)"

abbreviation bmap_inv :: "('k::linorder \<times> 'v) list \<Rightarrow> bool" where
  "bmap_inv m \<equiv> sorted_wrt (<) (map fst m)"

section \<open>Ordered sets\<close>

locale ordered_set =
  fixes insert :: "'a \<Rightarrow> 's \<Rightarrow> 's" and remove :: "'a \<Rightarrow> 's \<Rightarrow> 's"
    and contains :: "'a \<Rightarrow> 's \<Rightarrow> bool" and size :: "'s \<Rightarrow> nat"
    and elems :: "'s \<Rightarrow> 'a set" and inv :: "'s \<Rightarrow> bool"
  assumes inv_insert: "inv s \<Longrightarrow> inv (insert x s)"
    and inv_remove: "inv s \<Longrightarrow> inv (remove x s)"
    and elems_insert: "inv s \<Longrightarrow> elems (insert x s) = Set.insert x (elems s)"
    and elems_remove: "inv s \<Longrightarrow> elems (remove x s) = elems s - {x}"
    and contains_iff: "inv s \<Longrightarrow> contains x s \<longleftrightarrow> x \<in> elems s"
    and size_card: "inv s \<Longrightarrow> size s = card (elems s)"
    and finite_elems: "finite (elems s)"
begin

lemma fold_insert:
  "inv s \<Longrightarrow> inv (fold insert xs s) \<and> elems (fold insert xs s) = elems s \<union> set xs"
  by (induction xs arbitrary: s) (auto simp: inv_insert elems_insert)

lemma fold_remove:
  "inv s \<Longrightarrow> inv (fold remove xs s) \<and> elems (fold remove xs s) = elems s - set xs"
  by (induction xs arbitrary: s) (auto simp: inv_remove elems_remove)

lemma size_fold_insert:
  "inv s \<Longrightarrow> distinct xs \<Longrightarrow> elems s \<inter> set xs = {} \<Longrightarrow>
     size (fold insert xs s) = size s + length xs"
  using fold_insert [of s xs]
  by (simp add: size_card card_Un_disjoint finite_elems distinct_card)

lemma size_fold_remove:
  "inv s \<Longrightarrow> distinct xs \<Longrightarrow> set xs \<subseteq> elems s \<Longrightarrow>
     size (fold remove xs s) = size s - length xs"
  using fold_remove [of s xs]
  by (simp add: size_card card_Diff_subset distinct_card)

lemma sum_fold_insert:
  fixes f :: "'a \<Rightarrow> nat"
  shows "inv s \<Longrightarrow> distinct xs \<Longrightarrow> elems s \<inter> set xs = {} \<Longrightarrow>
     sum f (elems (fold insert xs s)) = sum f (elems s) + sum_list (map f xs)"
  using fold_insert [of s xs]
  by (simp add: sum.union_disjoint finite_elems sum_list_distinct_conv_sum_set)

lemma sum_fold_remove:
  fixes f :: "'a \<Rightarrow> nat"
  shows "inv s \<Longrightarrow> distinct xs \<Longrightarrow> set xs \<subseteq> elems s \<Longrightarrow>
     sum f (elems (fold remove xs s)) + sum_list (map f xs) = sum f (elems s)"
  using fold_remove [of s xs] sum.subset_diff [of "set xs" "elems s" f]
  by (simp only: finite_elems sum_list_distinct_conv_sum_set)

end

lemma set_bset_insert: "set (bset_insert x xs) = Set.insert x (set xs)"
  by (induction xs) auto

lemma bset_inv_insert: "bset_inv xs \<Longrightarrow> bset_inv (bset_insert x xs)"
  by (induction xs) (auto simp: set_bset_insert)

lemma set_bset_remove: "bset_inv xs \<Longrightarrow> set (bset_remove x xs) = set xs - {x}"
  by (induction xs) auto

lemma set_bset_remove_subset: "set (bset_remove x xs) \<subseteq> set xs"
  by (induction xs) auto

lemma bset_inv_remove: "bset_inv xs \<Longrightarrow> bset_inv (bset_remove x xs)"
  using set_bset_remove_subset by (induction xs) fastforce+

lemma bset_inv_distinct: "bset_inv xs \<Longrightarrow> distinct xs"
  by (simp add: strict_sorted_iff)

interpretation btree_set: ordered_set bset_insert bset_remove bset_contains length set bset_inv
  by unfold_locales
    (auto simp: set_bset_insert bset_inv_insert set_bset_remove bset_inv_remove bset_contains_def
      bset_inv_distinct distinct_card)

lemma bset_inv_range: "bset_inv xs \<Longrightarrow> bset_inv (bset_range lower upper xs)"
  by (simp add: bset_range_def sorted_wrt_filter)

lemma set_bset_range [simp]: "set (bset_range l u xs) = {x \<in> set xs. above l x \<and> below u x}"
  by (auto simp: bset_range_def)

section \<open>Ordered maps\<close>

locale ordered_map =
  fixes get :: "'m \<Rightarrow> 'k \<rightharpoonup> 'v" and insert :: "'k \<Rightarrow> 'v \<Rightarrow> 'm \<Rightarrow> 'm"
    and remove :: "'k \<Rightarrow> 'm \<Rightarrow> 'm" and items :: "'m \<Rightarrow> ('k \<times> 'v) list" and inv :: "'m \<Rightarrow> bool"
  assumes inv_insert: "inv m \<Longrightarrow> inv (insert k v m)"
    and inv_remove: "inv m \<Longrightarrow> inv (remove k m)"
    and get_insert: "inv m \<Longrightarrow> get (insert k v m) = (get m)(k \<mapsto> v)"
    and get_remove: "inv m \<Longrightarrow> get (remove k m) = (get m)(k := None)"
    and items_get: "inv m \<Longrightarrow> (k, v) \<in> set (items m) \<longleftrightarrow> get m k = Some v"
    and items_keys: "inv m \<Longrightarrow> distinct (map fst (items m))"
begin

lemma items_distinct: "inv m \<Longrightarrow> distinct (items m)"
  using items_keys distinct_map by blast

lemma items_insert_new:
  "inv m \<Longrightarrow> get m k = None \<Longrightarrow> set (items (insert k v m)) = Set.insert (k, v) (set (items m))"
  by (auto simp: items_get inv_insert get_insert split: if_splits)

lemma items_insert_old:
  "inv m \<Longrightarrow> get m k = Some w \<Longrightarrow>
     set (items (insert k v m)) = Set.insert (k, v) (set (items m) - {(k, w)})"
  by (auto simp: items_get inv_insert get_insert split: if_splits)

lemma items_remove:
  "inv m \<Longrightarrow> get m k = Some w \<Longrightarrow> set (items (remove k m)) = set (items m) - {(k, w)}"
  by (auto simp: items_get inv_remove get_remove split: if_splits)

lemma sum_insert_new:
  fixes f :: "'k \<times> 'v \<Rightarrow> nat"
  shows "inv m \<Longrightarrow> get m k = None \<Longrightarrow>
     sum f (set (items (insert k v m))) = sum f (set (items m)) + f (k, v)"
  using items_get [of m k v] by (simp add: items_insert_new)

lemma sum_insert_old:
  fixes f :: "'k \<times> 'v \<Rightarrow> nat"
  assumes "inv m" "get m k = Some w"
  shows "sum f (set (items (insert k v m))) + f (k, w) = sum f (set (items m)) + f (k, v)"
proof -
  have "(k, w) \<in> set (items m)" using assms by (simp add: items_get)
  then have "sum f (set (items m)) = f (k, w) + sum f (set (items m) - {(k, w)})"
    by (simp add: sum.remove)
  moreover have "(k, v) \<notin> set (items m) - {(k, w)}" using assms by (auto simp: items_get)
  ultimately show ?thesis using assms by (simp add: items_insert_old)
qed

lemma sum_remove:
  fixes f :: "'k \<times> 'v \<Rightarrow> nat"
  assumes "inv m" "get m k = Some w"
  shows "sum f (set (items (remove k m))) + f (k, w) = sum f (set (items m))"
proof -
  have "(k, w) \<in> set (items m)" using assms by (simp add: items_get)
  with assms show ?thesis by (simp add: items_remove sum.remove)
qed

end

lemma bmap_insert_keys: "fst ` set (bmap_insert k v m) = Set.insert k (fst ` set m)"
  by (induction k v m rule: bmap_insert.induct) auto

lemma bmap_inv_insert: "bmap_inv m \<Longrightarrow> bmap_inv (bmap_insert k v m)"
proof (induction k v m rule: bmap_insert.induct)
  case (2 k v l w m)
  have "\<forall>x \<in> fst ` set (bmap_insert k v m). l < x" if "\<not> k < l" "k \<noteq> l"
    using 2 that unfolding bmap_insert_keys by auto
  with 2 show ?case by auto
qed simp

lemma bmap_remove_keys: "fst ` set (bmap_remove k m) \<subseteq> fst ` set m"
  by (induction k m rule: bmap_remove.induct) auto

lemma bmap_inv_remove: "bmap_inv m \<Longrightarrow> bmap_inv (bmap_remove k m)"
proof (induction k m rule: bmap_remove.induct)
  case (2 k l w m)
  have "\<forall>x \<in> fst ` set m. l < x" using 2 by simp
  then have "\<forall>x \<in> fst ` set (bmap_remove k m). l < x" using bmap_remove_keys [of k m] by blast
  with 2 show ?case by auto
qed simp

lemma map_of_bmap_insert: "map_of (bmap_insert k v m) = (map_of m)(k \<mapsto> v)"
  by (induction m) auto

lemma bmap_get_None: "(\<forall>l \<in> fst ` set m. k < l) \<Longrightarrow> map_of m k = None"
  for k :: "'k::linorder"
  unfolding map_of_eq_None_iff by blast

lemma map_of_bmap_remove: "bmap_inv m \<Longrightarrow> map_of (bmap_remove k m) = (map_of m)(k := None)"
  by (induction k m rule: bmap_remove.induct) (auto simp: bmap_get_None fun_eq_iff)

lemma bmap_inv_distinct: "bmap_inv m \<Longrightarrow> distinct (map fst m)"
  by (simp add: strict_sorted_iff)

interpretation btree_map: ordered_map map_of bmap_insert bmap_remove id bmap_inv
  by unfold_locales
    (simp_all add: bmap_inv_insert bmap_inv_remove map_of_bmap_insert map_of_bmap_remove
      bmap_inv_distinct)

end
