(* ===== verification/Ordered_Index.thy ===== *)
theory Ordered_Index
  imports Key_Codec Work_Tracker Sorted_Collections "HOL-Library.Product_Lexorder"
begin

text \<open>The ordered secondary index of \<open>boon_list_access\<close> (\<open>index.rs\<close>, the type \<open>OrderedIndex\<close> and
  its mutations): a sorted set of entries, the rows they come from, resource limits and accounting.
  Identities and tokens are 128-bit numbers (the source keeps their big endian bytes, whose order is
  the same).\<close>

section \<open>Data\<close>

definition IDENTITY_BYTES :: u64 where "IDENTITY_BYTES = 16"

record index_resource_limits =
  max_entries :: u64
  max_encoded_key_bytes :: u64
  max_payload_bytes :: u64

definition UNBOUNDED_LIMITS :: index_resource_limits where
  "UNBOUNDED_LIMITS = \<lparr>max_entries = - 1, max_encoded_key_bytes = - 1, max_payload_bytes = - 1\<rparr>"

datatype index_resource = Entries | EncodedKeyBytes | PayloadBytes

type_synonym index_plan_id = u128
type_synonym row_id = u128
type_synonym source_order_token = u128

record cursor_key =
  cursor_structural_key :: structural_key
  cursor_source_order :: source_order_token
  cursor_row_id :: row_id

datatype mutation_outcome = Inserted | Removed | Updated | Unchanged | NotFound

record index_metrics =
  logical_rows :: u64
  index_entries :: u64
  insertions :: u64
  removals :: u64
  updates :: u64
  unchanged_updates :: u64
  physical_entry_updates :: u64
  rebuilds :: u64

definition default_index_metrics :: index_metrics where
  "default_index_metrics = \<lparr>logical_rows = 0, index_entries = 0, insertions = 0, removals = 0,
     updates = 0, unchanged_updates = 0, physical_entry_updates = 0, rebuilds = 0\<rparr>"

record row_state =
  row_keys :: "structural_key list"
  row_source_order :: source_order_token

record prepared_row_keys =
  prepared_keys :: "structural_key list"
  prepared_encoded :: "bytes list"
  prepared_encoded_bytes :: u64
  prepared_structural_bytes :: u64

datatype entry_suffix = BeforeAll | Row source_order_token row_id | AfterAll

datatype entry_order_key = EntryOrderKey (encoded_key: bytes) (suffix: entry_suffix)

definition entry_before :: "bytes \<Rightarrow> entry_order_key" where
  "entry_before encoded = EntryOrderKey encoded BeforeAll"

definition entry_row :: "bytes \<Rightarrow> source_order_token \<Rightarrow> row_id \<Rightarrow> entry_order_key" where
  "entry_row encoded source_order row = EntryOrderKey encoded (Row source_order row)"

definition entry_after :: "bytes \<Rightarrow> entry_order_key" where
  "entry_after encoded = EntryOrderKey encoded AfterAll"

fun row_parts :: "entry_order_key \<Rightarrow> (source_order_token \<times> row_id) option" where
  "row_parts (EntryOrderKey _ (Row source_order row)) = Some (source_order, row)"
| "row_parts _ = None"

text \<open>The derived order of \<open>EntrySuffix\<close>: by variant, then by the fields of \<open>Row\<close>.\<close>

fun suffix_rank :: "entry_suffix \<Rightarrow> nat \<times> source_order_token \<times> row_id" where
  "suffix_rank BeforeAll = (0, 0, 0)"
| "suffix_rank (Row s r) = (1, s, r)"
| "suffix_rank AfterAll = (2, 0, 0)"

lemma suffix_rank_inject: "suffix_rank a = suffix_rank b \<longleftrightarrow> a = b"
  by (cases a; cases b) auto

instantiation entry_suffix :: linorder
begin

definition less_eq_entry_suffix :: "entry_suffix \<Rightarrow> entry_suffix \<Rightarrow> bool" where
  "a \<le> b \<longleftrightarrow> suffix_rank a \<le> suffix_rank b"

definition less_entry_suffix :: "entry_suffix \<Rightarrow> entry_suffix \<Rightarrow> bool" where
  "a < b \<longleftrightarrow> suffix_rank a < suffix_rank b"

instance
  by standard
    (auto simp: less_eq_entry_suffix_def less_entry_suffix_def less_le_not_le suffix_rank_inject
      dest: order_antisym)

end

text \<open>\<open>Ord for EntryOrderKey\<close>.\<close>

definition entry_cmp :: "entry_order_key \<Rightarrow> entry_order_key \<Rightarrow> ordering" where
  "entry_cmp a b = then_with (cmp (encoded_key a) (encoded_key b)) (cmp (suffix a) (suffix b))"

instantiation entry_order_key :: linorder
begin

definition less_eq_entry_order_key :: "entry_order_key \<Rightarrow> entry_order_key \<Rightarrow> bool" where
  "a \<le> b \<longleftrightarrow> (encoded_key a, suffix a) \<le> (encoded_key b, suffix b)"

definition less_entry_order_key :: "entry_order_key \<Rightarrow> entry_order_key \<Rightarrow> bool" where
  "a < b \<longleftrightarrow> (encoded_key a, suffix a) < (encoded_key b, suffix b)"

instance
proof
  fix a b :: entry_order_key
  show "a \<le> b \<Longrightarrow> b \<le> a \<Longrightarrow> a = b"
    unfolding less_eq_entry_order_key_def by (cases a; cases b) (metis order_antisym prod.inject entry_order_key.sel)
qed (auto simp: less_eq_entry_order_key_def less_entry_order_key_def less_le_not_le)

end

lemma entry_less_iff:
  "a < b \<longleftrightarrow> encoded_key a < encoded_key b \<or> encoded_key a = encoded_key b \<and> suffix a < suffix b"
  by (auto simp: less_entry_order_key_def)

lemma entry_cmp_eq: "entry_cmp a b = cmp a b"
  by (cases a; cases b) (auto simp: entry_cmp_def then_with_def cmp_def entry_less_iff)

record ordered_index =
  ix_plan_id :: index_plan_id
  ix_schema :: key_schema
  ix_limits :: index_resource_limits
  ix_entries :: "entry_order_key list"
  ix_rows :: "(row_id \<times> row_state) list"
  ix_encoded_key_bytes :: u64
  ix_structural_key_bytes :: u64
  ix_metrics :: index_metrics

datatype access_error =
  Key key_error
| DuplicateRow row_id
| UnknownRow row_id
| InvalidDirectedRange
| InvalidBranchCount string nat nat
| IncompatibleStreamSchemas string
| InvalidProjectionPrefix nat nat
| ResourceLimitExceeded index_resource u64 u64
| InvalidIntegrityPollBudget
| CompletedIntegrityTask
| CorruptIndex string
| WorkLimit work_limit_exceeded

section \<open>Resources\<close>

definition retained_payload_bytes :: "u64 \<Rightarrow> u64 \<Rightarrow> u64 \<Rightarrow> u64" where
  "retained_payload_bytes entries encoded_bytes structural_bytes =
     saturating_add (saturating_add encoded_bytes structural_bytes)
       (saturating_mul entries (saturating_mul IDENTITY_BYTES 2))"

definition check_resource :: "index_resource \<Rightarrow> u64 \<Rightarrow> u64 \<Rightarrow> access_error + unit" where
  "check_resource resource attempted maximum =
     (if attempted > maximum then Inl (ResourceLimitExceeded resource attempted maximum) else Inr ())"

definition check_projected_resources ::
    "ordered_index \<Rightarrow> u64 \<Rightarrow> u64 \<Rightarrow> u64 \<Rightarrow> u64 \<Rightarrow> access_error + unit" where
  "check_projected_resources ix entries encoded_bytes structural_bytes candidate_bytes =
     try_res (check_resource Entries entries (max_entries (ix_limits ix))) (\<lambda>_.
     try_res (check_resource EncodedKeyBytes candidate_bytes (max_encoded_key_bytes (ix_limits ix))) (\<lambda>_.
     check_resource PayloadBytes (retained_payload_bytes entries encoded_bytes structural_bytes)
       (max_payload_bytes (ix_limits ix))))"

definition payload_bytes :: "ordered_index \<Rightarrow> u64" where
  "payload_bytes ix = retained_payload_bytes (usize_to_u64 (length (ix_entries ix)))
     (ix_encoded_key_bytes ix) (ix_structural_key_bytes ix)"

definition set_max_payload_bytes :: "u64 \<Rightarrow> ordered_index \<Rightarrow> (access_error + unit) \<times> ordered_index" where
  "set_max_payload_bytes maximum ix =
     (case check_resource PayloadBytes (payload_bytes ix) maximum of
        Inl e \<Rightarrow> (Inl e, ix)
      | Inr _ \<Rightarrow> (Inr (), ix\<lparr>ix_limits := (ix_limits ix)\<lparr>max_payload_bytes := maximum\<rparr>\<rparr>))"

section \<open>Construction and queries\<close>

definition index_new_with_limits ::
    "index_plan_id \<Rightarrow> key_schema \<Rightarrow> index_resource_limits \<Rightarrow> ordered_index" where
  "index_new_with_limits plan schema limits =
     \<lparr>ix_plan_id = plan, ix_schema = schema, ix_limits = limits, ix_entries = [], ix_rows = [],
      ix_encoded_key_bytes = 0, ix_structural_key_bytes = 0, ix_metrics = default_index_metrics\<rparr>"

definition index_new :: "index_plan_id \<Rightarrow> key_schema \<Rightarrow> ordered_index" where
  "index_new plan schema = index_new_with_limits plan schema UNBOUNDED_LIMITS"

definition index_len :: "ordered_index \<Rightarrow> nat" where
  "index_len ix = length (ix_rows ix)"

definition index_contains :: "row_id \<Rightarrow> ordered_index \<Rightarrow> bool" where
  "index_contains row ix \<longleftrightarrow> map_of (ix_rows ix) row \<noteq> None"

definition index_metrics_report :: "ordered_index \<Rightarrow> index_metrics" where
  "index_metrics_report ix = (ix_metrics ix)
     \<lparr>logical_rows := usize_to_u64 (length (ix_rows ix)),
      index_entries := usize_to_u64 (length (ix_entries ix))\<rparr>"

definition cursor_for :: "row_id \<Rightarrow> ordered_index \<Rightarrow> cursor_key option" where
  "cursor_for row ix =
     (case map_of (ix_rows ix) row of
        None \<Rightarrow> None
      | Some state \<Rightarrow> (case row_keys state of
          [key] \<Rightarrow> Some \<lparr>cursor_structural_key = key, cursor_source_order = row_source_order state,
                      cursor_row_id = row\<rparr>
        | _ \<Rightarrow> None))"

definition cursor_keys_for :: "row_id \<Rightarrow> ordered_index \<Rightarrow> cursor_key list" where
  "cursor_keys_for row ix =
     (case map_of (ix_rows ix) row of
        None \<Rightarrow> []
      | Some state \<Rightarrow> map (\<lambda>key. \<lparr>cursor_structural_key = key,
          cursor_source_order = row_source_order state, cursor_row_id = row\<rparr>) (row_keys state))"

section \<open>Mutations\<close>

text \<open>\<open>prepare_row_keys\<close>: the first loop fills a map from encodings to keys and keeps the first key
  of each encoding (\<open>entry(..).or_insert(..)\<close>); the second reads it in order.\<close>

fun prepare_unique :: "key_schema \<Rightarrow> structural_key list \<Rightarrow> (bytes \<times> structural_key) list \<Rightarrow>
    access_error + (bytes \<times> structural_key) list" where
  "prepare_unique schema [] unique = Inr unique"
| "prepare_unique schema (key # keys) unique =
     try_res (map_err Key (encode schema key)) (\<lambda>encoded.
       prepare_unique schema keys
         (if map_of unique encoded = None then bmap_insert encoded key unique else unique))"

definition prepare_row_keys :: "key_schema \<Rightarrow> structural_key list \<Rightarrow> access_error + prepared_row_keys" where
  "prepare_row_keys schema keys =
     try_res (prepare_unique schema keys []) (\<lambda>unique.
       Inr \<lparr>prepared_keys = map snd unique, prepared_encoded = map fst unique,
            prepared_encoded_bytes =
              fold (\<lambda>(encoded, _) total. saturating_add total (usize_to_u64 (length encoded))) unique 0,
            prepared_structural_bytes =
              fold (\<lambda>(_, key) total. saturating_add total (key_payload_bytes key)) unique 0\<rparr>)"

definition longest_encoded :: "prepared_row_keys \<Rightarrow> u64" where
  "longest_encoded prepared =
     (case prepared_encoded prepared of
        [] \<Rightarrow> 0
      | encoded # rest \<Rightarrow>
          fold (\<lambda>e m. max m (usize_to_u64 (length e))) rest (usize_to_u64 (length encoded)))"

text \<open>The insertion loop of \<open>insert_many\<close>: on a collision it removes the entries up to the colliding
  one, in order, and reports corruption.\<close>

fun rollback_entries :: "source_order_token \<Rightarrow> row_id \<Rightarrow> bytes \<Rightarrow> bytes list \<Rightarrow>
    entry_order_key list \<Rightarrow> entry_order_key list" where
  "rollback_entries source_order row encoded [] entries = entries"
| "rollback_entries source_order row encoded (rollback # rest) entries =
     (let entries = bset_remove (entry_row rollback source_order row) entries in
      if rollback = encoded then entries else rollback_entries source_order row encoded rest entries)"

fun insert_entries :: "source_order_token \<Rightarrow> row_id \<Rightarrow> bytes list \<Rightarrow> bytes list \<Rightarrow>
    entry_order_key list \<Rightarrow> (access_error + unit) \<times> entry_order_key list" where
  "insert_entries source_order row all [] entries = (Inr (), entries)"
| "insert_entries source_order row all (encoded # rest) entries =
     (let entry = entry_row encoded source_order row in
      if bset_contains entry entries
      then (Inl (CorruptIndex ''new row collided with an existing index entry''),
            rollback_entries source_order row encoded all entries)
      else insert_entries source_order row all rest (bset_insert entry entries))"

definition insert_many :: "row_id \<Rightarrow> source_order_token \<Rightarrow> structural_key list \<Rightarrow> ordered_index \<Rightarrow>
    (access_error + mutation_outcome) \<times> ordered_index" where
  "insert_many row source_order keys ix =
     (if map_of (ix_rows ix) row \<noteq> None then (Inl (DuplicateRow row), ix)
      else case prepare_row_keys (ix_schema ix) keys of
        Inl e \<Rightarrow> (Inl e, ix)
      | Inr prepared \<Rightarrow>
        (let encoded_bytes = saturating_add (ix_encoded_key_bytes ix) (prepared_encoded_bytes prepared);
             structural_bytes =
               saturating_add (ix_structural_key_bytes ix) (prepared_structural_bytes prepared) in
         case check_projected_resources ix
                (saturating_add (usize_to_u64 (length (ix_entries ix)))
                   (usize_to_u64 (length (prepared_keys prepared))))
                encoded_bytes structural_bytes (longest_encoded prepared) of
           Inl e \<Rightarrow> (Inl e, ix)
         | Inr _ \<Rightarrow>
           (case insert_entries source_order row (prepared_encoded prepared)
                   (prepared_encoded prepared) (ix_entries ix) of
              (Inl e, entries) \<Rightarrow> (Inl e, ix\<lparr>ix_entries := entries\<rparr>)
            | (Inr _, entries) \<Rightarrow>
              (Inr Inserted, ix\<lparr>ix_entries := entries,
                 ix_rows := bmap_insert row
                   \<lparr>row_keys = prepared_keys prepared, row_source_order = source_order\<rparr> (ix_rows ix),
                 ix_encoded_key_bytes := encoded_bytes,
                 ix_structural_key_bytes := structural_bytes,
                 ix_metrics := (ix_metrics ix)
                   \<lparr>insertions := saturating_add (insertions (ix_metrics ix)) 1,
                    physical_entry_updates := saturating_add (physical_entry_updates (ix_metrics ix))
                      (usize_to_u64 (length (prepared_encoded prepared)))\<rparr>\<rparr>))))"

definition index_insert :: "row_id \<Rightarrow> source_order_token \<Rightarrow> structural_key \<Rightarrow> ordered_index \<Rightarrow>
    (access_error + mutation_outcome) \<times> ordered_index" where
  "index_insert row source_order key = insert_many row source_order [key]"

text \<open>The removal loop of \<open>remove\<close>: it stops at the first missing entry, with the entries before it
  already gone.\<close>

fun remove_entries :: "source_order_token \<Rightarrow> row_id \<Rightarrow> bytes list \<Rightarrow> entry_order_key list \<Rightarrow>
    (access_error + unit) \<times> entry_order_key list" where
  "remove_entries source_order row [] entries = (Inr (), entries)"
| "remove_entries source_order row (encoded # rest) entries =
     (let entry = entry_row encoded source_order row in
      if bset_contains entry entries
      then remove_entries source_order row rest (bset_remove entry entries)
      else (Inl (CorruptIndex ''row metadata had no corresponding index entry''), entries))"

definition index_remove :: "row_id \<Rightarrow> ordered_index \<Rightarrow> (access_error + mutation_outcome) \<times> ordered_index" where
  "index_remove row ix =
     (case map_of (ix_rows ix) row of
        None \<Rightarrow> (Inr NotFound, ix)
      | Some previous \<Rightarrow>
        (case prepare_row_keys (ix_schema ix) (row_keys previous) of
           Inl e \<Rightarrow> (Inl e, ix)
         | Inr prepared \<Rightarrow>
           (case remove_entries (row_source_order previous) row (prepared_encoded prepared) (ix_entries ix) of
              (Inl e, entries) \<Rightarrow> (Inl e, ix\<lparr>ix_entries := entries\<rparr>)
            | (Inr _, entries) \<Rightarrow>
              (Inr Removed, ix\<lparr>ix_entries := entries, ix_rows := bmap_remove row (ix_rows ix),
                 ix_encoded_key_bytes :=
                   saturating_sub (ix_encoded_key_bytes ix) (prepared_encoded_bytes prepared),
                 ix_structural_key_bytes :=
                   saturating_sub (ix_structural_key_bytes ix) (prepared_structural_bytes prepared),
                 ix_metrics := (ix_metrics ix)
                   \<lparr>removals := saturating_add (removals (ix_metrics ix)) 1,
                    physical_entry_updates := saturating_add (physical_entry_updates (ix_metrics ix))
                      (usize_to_u64 (length (prepared_encoded prepared)))\<rparr>\<rparr>))))"

definition entries_of :: "bytes list \<Rightarrow> source_order_token \<Rightarrow> row_id \<Rightarrow> entry_order_key list" where
  "entries_of encoded source_order row =
     fold (\<lambda>e. bset_insert (entry_row e source_order row)) encoded []"

definition bset_difference :: "'a list \<Rightarrow> 'a list \<Rightarrow> 'a list" where
  "bset_difference xs ys = filter (\<lambda>x. \<not> bset_contains x ys) xs"

text \<open>The second half of \<open>update_many\<close>, from the projected totals on.\<close>

definition replace_row :: "row_id \<Rightarrow> source_order_token \<Rightarrow> row_state \<Rightarrow> prepared_row_keys \<Rightarrow>
    prepared_row_keys \<Rightarrow> ordered_index \<Rightarrow> (access_error + mutation_outcome) \<times> ordered_index" where
  "replace_row row source_order previous old prepared ix =
     (let encoded_bytes = saturating_add
            (saturating_sub (ix_encoded_key_bytes ix) (prepared_encoded_bytes old))
            (prepared_encoded_bytes prepared);
          structural_bytes = saturating_add
            (saturating_sub (ix_structural_key_bytes ix) (prepared_structural_bytes old))
            (prepared_structural_bytes prepared);
          projected_entries = saturating_add
            (saturating_sub (usize_to_u64 (length (ix_entries ix)))
               (usize_to_u64 (length (prepared_encoded old))))
            (usize_to_u64 (length (prepared_encoded prepared))) in
      case check_projected_resources ix projected_entries encoded_bytes structural_bytes
             (longest_encoded prepared) of
        Inl e \<Rightarrow> (Inl e, ix)
      | Inr _ \<Rightarrow>
        (let old_entries = entries_of (prepared_encoded old) (row_source_order previous) row;
             new_entries = entries_of (prepared_encoded prepared) source_order row;
             removed = bset_difference old_entries new_entries;
             inserted = bset_difference new_entries old_entries in
         if \<exists>entry \<in> set removed. \<not> bset_contains entry (ix_entries ix)
         then (Inl (CorruptIndex ''row metadata had no corresponding index entry''), ix)
         else if \<exists>entry \<in> set inserted. bset_contains entry (ix_entries ix)
         then (Inl (CorruptIndex ''updated row collided with an existing index entry''), ix)
         else (Inr Updated, ix\<lparr>
           ix_entries := fold bset_insert inserted (fold bset_remove removed (ix_entries ix)),
           ix_rows := bmap_insert row
             \<lparr>row_keys = prepared_keys prepared, row_source_order = source_order\<rparr> (ix_rows ix),
           ix_encoded_key_bytes := encoded_bytes,
           ix_structural_key_bytes := structural_bytes,
           ix_metrics := (ix_metrics ix)
             \<lparr>updates := saturating_add (updates (ix_metrics ix)) 1,
              physical_entry_updates := saturating_add (physical_entry_updates (ix_metrics ix))
                (usize_to_u64 (length removed + length inserted))\<rparr>\<rparr>)))"

definition update_many :: "row_id \<Rightarrow> source_order_token \<Rightarrow> structural_key list \<Rightarrow> ordered_index \<Rightarrow>
    (access_error + mutation_outcome) \<times> ordered_index" where
  "update_many row source_order keys ix =
     (case prepare_row_keys (ix_schema ix) keys of
        Inl e \<Rightarrow> (Inl e, ix)
      | Inr prepared \<Rightarrow>
        (case map_of (ix_rows ix) row of
           None \<Rightarrow> (Inl (UnknownRow row), ix)
         | Some previous \<Rightarrow>
           if row_keys previous = prepared_keys prepared \<and> row_source_order previous = source_order
           then (Inr Unchanged, ix\<lparr>ix_metrics := (ix_metrics ix)
                  \<lparr>unchanged_updates := saturating_add (unchanged_updates (ix_metrics ix)) 1\<rparr>\<rparr>)
           else (case prepare_row_keys (ix_schema ix) (row_keys previous) of
                   Inl e \<Rightarrow> (Inl e, ix)
                 | Inr old \<Rightarrow> replace_row row source_order previous old prepared ix)))"

definition index_update :: "row_id \<Rightarrow> source_order_token \<Rightarrow> structural_key \<Rightarrow> ordered_index \<Rightarrow>
    (access_error + mutation_outcome) \<times> ordered_index" where
  "index_update row source_order key = update_many row source_order [key]"

text \<open>The rebuild constructors: insert every row, stop at the first error.\<close>

fun rebuild_rows :: "(row_id \<times> source_order_token \<times> structural_key list) list \<Rightarrow> ordered_index \<Rightarrow>
    access_error + ordered_index" where
  "rebuild_rows [] ix = Inr (ix\<lparr>ix_metrics := (ix_metrics ix)\<lparr>rebuilds := 1\<rparr>\<rparr>)"
| "rebuild_rows ((row, source_order, keys) # rest) ix =
     (case insert_many row source_order keys ix of
        (Inl e, _) \<Rightarrow> Inl e
      | (Inr _, ix) \<Rightarrow> rebuild_rows rest ix)"

definition rebuild_many_with_limits :: "index_plan_id \<Rightarrow> key_schema \<Rightarrow> index_resource_limits \<Rightarrow>
    (row_id \<times> source_order_token \<times> structural_key list) list \<Rightarrow> access_error + ordered_index" where
  "rebuild_many_with_limits plan schema limits rows =
     rebuild_rows rows (index_new_with_limits plan schema limits)"

definition rebuild_many :: "index_plan_id \<Rightarrow> key_schema \<Rightarrow>
    (row_id \<times> source_order_token \<times> structural_key list) list \<Rightarrow> access_error + ordered_index" where
  "rebuild_many plan schema rows = rebuild_rows rows (index_new plan schema)"

definition rebuild_with_limits :: "index_plan_id \<Rightarrow> key_schema \<Rightarrow> index_resource_limits \<Rightarrow>
    (row_id \<times> source_order_token \<times> structural_key) list \<Rightarrow> access_error + ordered_index" where
  "rebuild_with_limits plan schema limits rows =
     rebuild_rows (map (\<lambda>(row, source_order, key). (row, source_order, [key])) rows)
       (index_new_with_limits plan schema limits)"

definition rebuild :: "index_plan_id \<Rightarrow> key_schema \<Rightarrow>
    (row_id \<times> source_order_token \<times> structural_key) list \<Rightarrow> access_error + ordered_index" where
  "rebuild plan schema rows =
     rebuild_rows (map (\<lambda>(row, source_order, key). (row, source_order, [key])) rows)
       (index_new plan schema)"

section \<open>Prepared keys\<close>

definition encoding :: "key_schema \<Rightarrow> structural_key \<Rightarrow> bytes" where
  "encoding schema key = (case encode schema key of Inr encoded \<Rightarrow> encoded | Inl _ \<Rightarrow> [])"

text \<open>The keys of a row are kept without duplicates, in the order of their encodings.\<close>

definition keys_ok :: "key_schema \<Rightarrow> structural_key list \<Rightarrow> bool" where
  "keys_ok schema keys \<longleftrightarrow>
     (\<forall>key \<in> set keys. encode schema key = Inr (encoding schema key)) \<and>
     bset_inv (map (encoding schema) keys)"

definition keys_payload :: "structural_key list \<Rightarrow> nat" where
  "keys_payload keys = sum_list (map (\<lambda>key. unat (key_payload_bytes key)) keys)"

definition encoded_payload :: "key_schema \<Rightarrow> structural_key list \<Rightarrow> nat" where
  "encoded_payload schema keys = sum_list (map (\<lambda>key. length (encoding schema key)) keys)"

lemma encode_encoding: "encode schema key = Inr b \<Longrightarrow> encoding schema key = b"
  by (simp add: encoding_def)

lemma prepare_unique_inv:
  assumes "prepare_unique schema keys unique = Inr unique'" and "bmap_inv unique"
    and "\<forall>(b, k) \<in> set unique. encode schema k = Inr b"
  shows "bmap_inv unique' \<and> (\<forall>(b, k) \<in> set unique'. encode schema k = Inr b) \<and>
    fst ` set unique' = fst ` set unique \<union> encoding schema ` set keys \<and>
    (\<forall>key \<in> set keys. encode schema key = Inr (encoding schema key))"
  using assms
proof (induction schema keys unique rule: prepare_unique.induct)
  case (2 schema key keys unique)
  from "2.prems"(1) obtain b where b: "encode schema key = Inr b"
    and rest: "prepare_unique schema keys
        (if map_of unique b = None then bmap_insert b key unique else unique) = Inr unique'"
    by (cases "encode schema key") auto
  let ?m = "if map_of unique b = None then bmap_insert b key unique else unique"
  have inv: "bmap_inv ?m" using "2.prems"(2) by (simp add: bmap_inv_insert)
  have ok: "\<forall>(b, k) \<in> set ?m. encode schema k = Inr b"
    using "2.prems"(3) b btree_map.items_insert_new [OF "2.prems"(2), of b key] by simp
  have keys: "fst ` set ?m = Set.insert b (fst ` set unique)"
    using bmap_insert_keys [of b key unique] by (auto simp: map_of_eq_None_iff)
  have e: "encoding schema key = b" using b by (rule encode_encoding)
  show ?case
    using "2.IH" [of b, OF _ inv ok] b rest
    unfolding keys list.set(2) image_insert e ball_simps(7) by simp
qed simp

lemma bmap_insert_snoc:
  "(\<forall>l \<in> fst ` set m. l < k) \<Longrightarrow> bmap_insert k v m = m @ [(k, v)]" for k :: "'k::linorder"
  by (induction m) auto

lemma prepare_unique_sorted:
  assumes "keys_ok schema keys" and "\<forall>b \<in> fst ` set unique. \<forall>key \<in> set keys. b < encoding schema key"
  shows "prepare_unique schema keys unique = Inr (unique @ map (\<lambda>key. (encoding schema key, key)) keys)"
  using assms
proof (induction keys arbitrary: unique)
  case (Cons key keys)
  have e: "encode schema key = Inr (encoding schema key)" using Cons.prems by (simp add: keys_ok_def)
  have "encoding schema key \<notin> fst ` set unique" using Cons.prems(2) by force
  then have n: "map_of unique (encoding schema key) = None" by (simp add: map_of_eq_None_iff)
  have s: "bmap_insert (encoding schema key) key unique = unique @ [(encoding schema key, key)]"
    using Cons.prems(2) by (intro bmap_insert_snoc) simp
  have "prepare_unique schema keys (unique @ [(encoding schema key, key)]) =
      Inr ((unique @ [(encoding schema key, key)]) @ map (\<lambda>key. (encoding schema key, key)) keys)"
    using Cons.prems by (intro Cons.IH) (auto simp: keys_ok_def)
  with e n s show ?case by simp
qed simp

lemma unat_fold_saturating:
  "unat (fold (\<lambda>x total. saturating_add total (f x)) xs a) =
     min (unat a + sum_list (map (\<lambda>x. unat (f x)) xs)) (2 ^ 64 - 1)" for a :: u64
proof (induction xs arbitrary: a)
  case Nil
  have "unat a \<le> 2 ^ 64 - 1" using unsigned_less [of a, where ?'a = nat] by simp
  then show ?case by simp
next
  case (Cons x xs)
  then show ?case by (simp add: unat_saturating_add)
qed

lemma unat_usize_to_u64: "unat (usize_to_u64 n) = min n (2 ^ 64 - 1)"
  by (simp add: usize_to_u64_def unsigned_of_nat take_bit_nat_eq_self unsigned_minus_1_eq_mask
      mask_eq_exp_minus_1)

definition prepared_ok :: "key_schema \<Rightarrow> prepared_row_keys \<Rightarrow> bool" where
  "prepared_ok schema p \<longleftrightarrow> keys_ok schema (prepared_keys p) \<and>
     prepared_encoded p = map (encoding schema) (prepared_keys p) \<and>
     unat (prepared_encoded_bytes p) = min (encoded_payload schema (prepared_keys p)) (2 ^ 64 - 1) \<and>
     unat (prepared_structural_bytes p) = min (keys_payload (prepared_keys p)) (2 ^ 64 - 1)"

lemma sum_list_min_le: "sum_list (map (\<lambda>x. min (f x) c) xs) \<le> (sum_list (map f xs) :: nat)"
  by (induction xs) auto

lemma min_sum_list_min: "min (sum_list (map (\<lambda>x. min (f x) c) xs)) c = min (sum_list (map f xs)) (c :: nat)"
  by (induction xs) (auto simp: min_def split: if_splits)


lemma prepare_row_keys_ok:
  assumes "prepare_row_keys schema keys = Inr p"
  shows "prepared_ok schema p \<and>
    encoding schema ` set (prepared_keys p) = encoding schema ` set keys \<and>
    (\<forall>key \<in> set keys. encode schema key = Inr (encoding schema key))"
proof -
  obtain u where u: "prepare_unique schema keys [] = Inr u"
    and p: "p = \<lparr>prepared_keys = map snd u, prepared_encoded = map fst u,
      prepared_encoded_bytes =
        fold (\<lambda>(encoded, _) total. saturating_add total (usize_to_u64 (length encoded))) u 0,
      prepared_structural_bytes =
        fold (\<lambda>(_, key) total. saturating_add total (key_payload_bytes key)) u 0\<rparr>"
    using assms unfolding prepare_row_keys_def by auto
  have inv: "bmap_inv u" and ok: "\<forall>(b, k) \<in> set u. encode schema k = Inr b"
    and ks: "fst ` set u = encoding schema ` set keys"
    and enc: "\<forall>key \<in> set keys. encode schema key = Inr (encoding schema key)"
    using prepare_unique_inv [OF u] by auto
  have fst_u: "map fst u = map (encoding schema) (map snd u)"
    using ok by (auto intro!: map_cong simp: encode_encoding)
  have "keys_ok schema (map snd u)"
    using inv ok unfolding keys_ok_def fst_u [symmetric] by (auto simp: encode_encoding)
  moreover have "unat (prepared_encoded_bytes p) = min (encoded_payload schema (map snd u)) (2 ^ 64 - 1)"
  proof -
    have "unat (prepared_encoded_bytes p) =
        min (sum_list (map (\<lambda>x. min (length (fst x)) (2 ^ 64 - 1)) u)) (2 ^ 64 - 1)"
      using unat_fold_saturating [of "\<lambda>x. usize_to_u64 (length (fst x))" u 0]
      by (simp add: p case_prod_beta' unat_usize_to_u64)
    also have "\<dots> = min (sum_list (map length (map fst u))) (2 ^ 64 - 1)"
      unfolding min_sum_list_min map_map comp_def by (rule refl)
    finally show ?thesis by (simp only: fst_u encoded_payload_def map_map comp_def)
  qed
  moreover have "unat (prepared_structural_bytes p) = min (keys_payload (map snd u)) (2 ^ 64 - 1)"
    using unat_fold_saturating [of "\<lambda>x. key_payload_bytes (snd x)" u 0]
    by (simp add: p case_prod_beta' keys_payload_def comp_def)
  moreover have "encoding schema ` set (map snd u) = encoding schema ` set keys"
    using arg_cong [OF fst_u, of set] ks by (simp only: set_map)
  ultimately show ?thesis using enc fst_u by (simp add: prepared_ok_def p)
qed

lemma prepare_row_keys_again:
  assumes "keys_ok schema keys"
  obtains p where "prepare_row_keys schema keys = Inr p" and "prepared_ok schema p"
    and "prepared_keys p = keys"
proof -
  have u: "prepare_unique schema keys [] = Inr (map (\<lambda>key. (encoding schema key, key)) keys)"
    using prepare_unique_sorted [OF assms, of "[]"] by simp
  then obtain p where p: "prepare_row_keys schema keys = Inr p" "prepared_keys p = keys"
    by (auto simp: prepare_row_keys_def comp_def)
  with prepare_row_keys_ok that show ?thesis by blast
qed


section \<open>The invariant\<close>

definition row_entries :: "key_schema \<Rightarrow> row_id \<times> row_state \<Rightarrow> entry_order_key list" where
  "row_entries schema = (\<lambda>(row, state).
     map (\<lambda>key. entry_row (encoding schema key) (row_source_order state) row) (row_keys state))"

definition encoded_total :: "ordered_index \<Rightarrow> nat" where
  "encoded_total ix = (\<Sum>entry \<in> set (ix_entries ix). length (encoded_key entry))"

definition structural_total :: "ordered_index \<Rightarrow> nat" where
  "structural_total ix = (\<Sum>p \<in> set (ix_rows ix). keys_payload (row_keys (snd p)))"

text \<open>The contents fit the 64-bit counters. Memory bounds this for every index; a finite payload limit
  enforces it (see \<open>bounded_contents_fit\<close>).\<close>

definition contents_fit :: "ordered_index \<Rightarrow> bool" where
  "contents_fit ix \<longleftrightarrow> length (ix_entries ix) < 2 ^ 64 \<and> encoded_total ix < 2 ^ 64 \<and>
     structural_total ix < 2 ^ 64"

definition index_inv :: "ordered_index \<Rightarrow> bool" where
  "index_inv ix \<longleftrightarrow> bset_inv (ix_entries ix) \<and> bmap_inv (ix_rows ix) \<and>
     (\<forall>p \<in> set (ix_rows ix). keys_ok (ix_schema ix) (row_keys (snd p))) \<and>
     set (ix_entries ix) = (\<Union>p \<in> set (ix_rows ix). set (row_entries (ix_schema ix) p)) \<and>
     length (ix_entries ix) < 2 ^ 64 \<and>
     unat (ix_encoded_key_bytes ix) = encoded_total ix \<and>
     unat (ix_structural_key_bytes ix) = structural_total ix"

definition within_resource_limits :: "ordered_index \<Rightarrow> bool" where
  "within_resource_limits ix \<longleftrightarrow>
     length (ix_entries ix) \<le> unat (max_entries (ix_limits ix)) \<and>
     (\<forall>entry \<in> set (ix_entries ix).
        usize_to_u64 (length (encoded_key entry)) \<le> max_encoded_key_bytes (ix_limits ix)) \<and>
     payload_bytes ix \<le> max_payload_bytes (ix_limits ix)"

lemma entry_row_inject [simp]: "entry_row b s r = entry_row b' s' r' \<longleftrightarrow> b = b' \<and> s = s' \<and> r = r'"
  by (simp add: entry_row_def)

lemma encoded_key_entry_row [simp]: "encoded_key (entry_row b s r) = b"
  by (simp add: entry_row_def)

lemma row_parts_entry_row [simp]: "row_parts (entry_row b s r) = Some (s, r)"
  by (simp add: entry_row_def)

lemma row_entries_row: "entry \<in> set (row_entries schema p) \<Longrightarrow> row_parts entry = Some (row_source_order (snd p), fst p)"
  by (auto simp: row_entries_def split: prod.splits)

lemma distinct_row_entries: "keys_ok schema (row_keys (snd p)) \<Longrightarrow> distinct (row_entries schema p)"
  by (cases p) (auto simp: row_entries_def keys_ok_def distinct_map inj_on_def dest: bset_inv_distinct)

lemma length_row_entries: "length (row_entries schema p) = length (row_keys (snd p))"
  by (simp add: row_entries_def split: prod.splits)

lemma sum_row_entries:
  "sum_list (map (\<lambda>entry. length (encoded_key entry)) (row_entries schema p)) =
     encoded_payload schema (row_keys (snd p))"
  by (simp add: row_entries_def encoded_payload_def comp_def split: prod.splits)

lemma row_entries_subset:
  "index_inv ix \<Longrightarrow> map_of (ix_rows ix) row = Some state \<Longrightarrow>
     set (row_entries (ix_schema ix) (row, state)) \<subseteq> set (ix_entries ix)"
  unfolding index_inv_def by (metis (no_types, lifting) UN_upper map_of_SomeD)

lemma other_row_entries:
  assumes "index_inv ix" and "entry \<in> set (ix_entries ix)" and "row_parts entry = Some (s, row)"
  obtains state where "map_of (ix_rows ix) row = Some state" and "s = row_source_order state"
    and "entry \<in> set (row_entries (ix_schema ix) (row, state))"
proof -
  obtain p where p: "p \<in> set (ix_rows ix)" "entry \<in> set (row_entries (ix_schema ix) p)"
    using assms(1,2) unfolding index_inv_def by blast
  then have "fst p = row" "s = row_source_order (snd p)" using row_entries_row assms(3) by fastforce+
  moreover have "map_of (ix_rows ix) (fst p) = Some (snd p)"
    using p(1) assms(1) btree_map.items_get [of "ix_rows ix" "fst p" "snd p"]
    by (simp add: index_inv_def)
  ultimately show ?thesis using that [of "snd p"] p(2) by (metis prod.collapse)
qed

lemma new_row_disjoint:
  assumes "index_inv ix" and "map_of (ix_rows ix) row = None"
  shows "set (ix_entries ix) \<inter> set (row_entries (ix_schema ix) (row, state)) = {}"
  using other_row_entries [OF assms(1)] row_entries_row [of _ "ix_schema ix" "(row, state)"] assms(2)
  by (metis disjoint_iff fst_conv option.distinct(1) snd_conv)

section \<open>Entry loops\<close>

lemma insert_entries_ok:
  assumes "bset_inv entries" "distinct (map (\<lambda>e. entry_row e s r) rest)"
    and "set entries \<inter> set (map (\<lambda>e. entry_row e s r) rest) = {}"
  shows "insert_entries s r all rest entries =
    (Inr (), fold bset_insert (map (\<lambda>e. entry_row e s r) rest) entries)"
  using assms
  by (induction rest arbitrary: entries)
    (auto simp: btree_set.contains_iff bset_inv_insert set_bset_insert Let_def)

lemma remove_entries_ok:
  assumes "bset_inv entries" "distinct (map (\<lambda>e. entry_row e s r) rest)"
    and "set (map (\<lambda>e. entry_row e s r) rest) \<subseteq> set entries"
  shows "remove_entries s r rest entries =
    (Inr (), fold bset_remove (map (\<lambda>e. entry_row e s r) rest) entries)"
  using assms
proof (induction rest arbitrary: entries)
  case (Cons e rest)
  then have "remove_entries s r rest (bset_remove (entry_row e s r) entries) =
      (Inr (), fold bset_remove (map (\<lambda>e. entry_row e s r) rest) (bset_remove (entry_row e s r) entries))"
    by (intro Cons.IH) (auto simp: bset_inv_remove set_bset_remove)
  with Cons.prems show ?case by (simp add: btree_set.contains_iff Let_def)
qed simp

lemma entries_of_ok:
  "set (entries_of encoded s r) = set (map (\<lambda>e. entry_row e s r) encoded) \<and> bset_inv (entries_of encoded s r)"
proof -
  have "entries_of encoded s r = fold bset_insert (map (\<lambda>e. entry_row e s r) encoded) []"
    by (simp add: entries_of_def fold_map comp_def)
  then show ?thesis using btree_set.fold_insert [of "[]" "map (\<lambda>e. entry_row e s r) encoded"] by simp
qed

lemma row_entries_prepared:
  "prepared_ok schema p \<Longrightarrow>
     row_entries schema (r, \<lparr>row_keys = prepared_keys p, row_source_order = s\<rparr>) =
     map (\<lambda>e. entry_row e s r) (prepared_encoded p)"
  by (simp add: row_entries_def prepared_ok_def comp_def)

section \<open>Accounting\<close>

lemma unat_saturating_mul:
  "unat (saturating_mul a b) = min (unat a * unat b) (2 ^ LENGTH('w) - 1)" for a b :: "'w::len word"
proof (cases "unat a * unat b < 2 ^ LENGTH('w)")
  case True
  then have "unat (a * b) = unat a * unat b" by (simp add: unat_word_ariths)
  with True show ?thesis by (simp add: saturating_mul_def)
next
  case False
  then show ?thesis
    by (simp add: saturating_mul_def unsigned_minus_1_eq_mask mask_eq_exp_minus_1)
qed

lemma unat_retained:
  "unat (retained_payload_bytes n e s) = min (unat e + unat s + unat n * 32) (2 ^ 64 - 1)"
proof -
  have "unat (saturating_mul IDENTITY_BYTES 2) = 32" by code_simp
  then show ?thesis
    by (simp add: retained_payload_bytes_def unat_saturating_add unat_saturating_mul)
qed

lemma check_resource_Inr [simp]: "check_resource r a m = Inr u \<longleftrightarrow> a \<le> m"
  by (auto simp: check_resource_def)

lemma check_resource_Inl: "check_resource r a m = Inl e \<Longrightarrow> e = ResourceLimitExceeded r a m"
  by (auto simp: check_resource_def split: if_splits)

lemma check_projected_Inr:
  "check_projected_resources ix n e s c = Inr u \<longleftrightarrow>
     n \<le> max_entries (ix_limits ix) \<and> c \<le> max_encoded_key_bytes (ix_limits ix) \<and>
     retained_payload_bytes n e s \<le> max_payload_bytes (ix_limits ix)"
  by (auto simp: check_projected_resources_def)

lemma check_projected_Inl:
  "check_projected_resources ix n e s c = Inl x \<Longrightarrow> \<exists>r a m. x = ResourceLimitExceeded r a m"
  unfolding check_projected_resources_def try_res_eq_Inl by (auto dest: check_resource_Inl)

lemma fold_max_le: "fold (\<lambda>e m. max m (f e)) xs a \<le> c \<longleftrightarrow> a \<le> c \<and> (\<forall>x \<in> set xs. f x \<le> c)"
  for c :: "'a::linorder"
  by (induction xs arbitrary: a) auto

lemma longest_encoded_le:
  "longest_encoded p \<le> c \<longleftrightarrow> (\<forall>e \<in> set (prepared_encoded p). usize_to_u64 (length e) \<le> c)"
  by (cases "prepared_encoded p") (auto simp: longest_encoded_def fold_max_le)

section \<open>Insertion\<close>

definition inserted_index ::
    "row_id \<Rightarrow> source_order_token \<Rightarrow> prepared_row_keys \<Rightarrow> ordered_index \<Rightarrow> ordered_index" where
  "inserted_index row s p ix = ix\<lparr>
     ix_entries := fold bset_insert (map (\<lambda>e. entry_row e s row) (prepared_encoded p)) (ix_entries ix),
     ix_rows := bmap_insert row \<lparr>row_keys = prepared_keys p, row_source_order = s\<rparr> (ix_rows ix),
     ix_encoded_key_bytes := saturating_add (ix_encoded_key_bytes ix) (prepared_encoded_bytes p),
     ix_structural_key_bytes := saturating_add (ix_structural_key_bytes ix) (prepared_structural_bytes p),
     ix_metrics := (ix_metrics ix)
       \<lparr>insertions := saturating_add (insertions (ix_metrics ix)) 1,
        physical_entry_updates := saturating_add (physical_entry_updates (ix_metrics ix))
          (usize_to_u64 (length (prepared_encoded p)))\<rparr>\<rparr>"

lemma distinct_prepared:
  "prepared_ok schema p \<Longrightarrow> distinct (map (\<lambda>e. entry_row e s row) (prepared_encoded p))"
  using distinct_row_entries [of schema "(row, \<lparr>row_keys = prepared_keys p, row_source_order = s\<rparr>)"]
  by (simp add: row_entries_prepared) (simp add: prepared_ok_def)

lemma insert_many_inv_eq:
  assumes "index_inv ix"
  shows "insert_many row s keys ix =
    (if map_of (ix_rows ix) row \<noteq> None then (Inl (DuplicateRow row), ix)
     else case prepare_row_keys (ix_schema ix) keys of
       Inl e \<Rightarrow> (Inl e, ix)
     | Inr p \<Rightarrow>
       (case check_projected_resources ix
           (saturating_add (usize_to_u64 (length (ix_entries ix))) (usize_to_u64 (length (prepared_keys p))))
           (saturating_add (ix_encoded_key_bytes ix) (prepared_encoded_bytes p))
           (saturating_add (ix_structural_key_bytes ix) (prepared_structural_bytes p))
           (longest_encoded p) of
          Inl e \<Rightarrow> (Inl e, ix)
        | Inr _ \<Rightarrow> (Inr Inserted, inserted_index row s p ix)))"
proof (cases "map_of (ix_rows ix) row")
  case None
  have "insert_entries s row (prepared_encoded p) (prepared_encoded p) (ix_entries ix) =
      (Inr (), fold bset_insert (map (\<lambda>e. entry_row e s row) (prepared_encoded p)) (ix_entries ix))"
    if "prepare_row_keys (ix_schema ix) keys = Inr p" for p
  proof -
    have ok: "prepared_ok (ix_schema ix) p" using prepare_row_keys_ok [OF that] by simp
    have "set (ix_entries ix) \<inter> set (map (\<lambda>e. entry_row e s row) (prepared_encoded p)) = {}"
      using new_row_disjoint [OF assms None] by (simp only: row_entries_prepared [OF ok, symmetric])
    with ok assms show ?thesis
      by (intro insert_entries_ok distinct_prepared) (auto simp: index_inv_def)
  qed
  with None show ?thesis
    unfolding insert_many_def inserted_index_def Let_def
    by (simp split: sum.split)
qed (simp add: insert_many_def)

lemma inserted_index_simps [simp]:
  "ix_schema (inserted_index row s p ix) = ix_schema ix"
  "ix_limits (inserted_index row s p ix) = ix_limits ix"
  "ix_rows (inserted_index row s p ix) =
     bmap_insert row \<lparr>row_keys = prepared_keys p, row_source_order = s\<rparr> (ix_rows ix)"
  by (simp_all add: inserted_index_def)

lemma inserted_index_totals:
  assumes "index_inv ix" "map_of (ix_rows ix) row = None" "prepared_ok (ix_schema ix) p"
  shows "bset_inv (ix_entries (inserted_index row s p ix))"
    and "set (ix_entries (inserted_index row s p ix)) = set (ix_entries ix) \<union>
      set (row_entries (ix_schema ix) (row, \<lparr>row_keys = prepared_keys p, row_source_order = s\<rparr>))"
    and "length (ix_entries (inserted_index row s p ix)) =
      length (ix_entries ix) + length (prepared_keys p)"
    and "encoded_total (inserted_index row s p ix) =
      encoded_total ix + encoded_payload (ix_schema ix) (prepared_keys p)"
    and "structural_total (inserted_index row s p ix) =
      structural_total ix + keys_payload (prepared_keys p)"
proof -
  let ?st = "\<lparr>row_keys = prepared_keys p, row_source_order = s\<rparr>"
  have new: "ix_entries (inserted_index row s p ix) =
      fold bset_insert (row_entries (ix_schema ix) (row, ?st)) (ix_entries ix)"
    using row_entries_prepared [OF assms(3)] by (simp add: inserted_index_def)
  have inv: "bset_inv (ix_entries ix)" "bmap_inv (ix_rows ix)" using assms(1) by (simp_all add: index_inv_def)
  have d: "distinct (row_entries (ix_schema ix) (row, ?st))"
    using assms(3) by (intro distinct_row_entries) (simp add: prepared_ok_def)
  note disj = new_row_disjoint [OF assms(1,2), of ?st]
  show "bset_inv (ix_entries (inserted_index row s p ix))"
    "set (ix_entries (inserted_index row s p ix)) =
       set (ix_entries ix) \<union> set (row_entries (ix_schema ix) (row, ?st))"
    using btree_set.fold_insert [OF inv(1)] by (simp_all add: new)
  show "length (ix_entries (inserted_index row s p ix)) =
      length (ix_entries ix) + length (prepared_keys p)"
    using btree_set.size_fold_insert [OF inv(1) d disj] by (simp add: new length_row_entries)
  show "encoded_total (inserted_index row s p ix) =
      encoded_total ix + encoded_payload (ix_schema ix) (prepared_keys p)"
    using btree_set.sum_fold_insert [OF inv(1) d disj, of "\<lambda>entry. length (encoded_key entry)"]
    by (simp add: encoded_total_def new sum_row_entries)
  show "structural_total (inserted_index row s p ix) =
      structural_total ix + keys_payload (prepared_keys p)"
    using btree_map.sum_insert_new [OF inv(2) assms(2), of "\<lambda>p. keys_payload (row_keys (snd p))" ?st]
    by (simp add: structural_total_def)
qed

lemma inserted_index_inv:
  assumes "index_inv ix" "map_of (ix_rows ix) row = None" "prepared_ok (ix_schema ix) p"
    and "contents_fit (inserted_index row s p ix)"
  shows "index_inv (inserted_index row s p ix)"
proof -
  let ?st = "\<lparr>row_keys = prepared_keys p, row_source_order = s\<rparr>"
  note tot = inserted_index_totals [OF assms(1-3), of s]
  have inv: "bmap_inv (ix_rows ix)" using assms(1) by (simp add: index_inv_def)
  have rows: "set (ix_rows (inserted_index row s p ix)) = Set.insert (row, ?st) (set (ix_rows ix))"
    using btree_map.items_insert_new [OF inv assms(2), of ?st] by simp
  have "unat (ix_encoded_key_bytes (inserted_index row s p ix)) = encoded_total (inserted_index row s p ix)"
    using assms(1,3,4) tot(4)
    by (simp add: inserted_index_def [of row s p ix] unat_saturating_add index_inv_def prepared_ok_def contents_fit_def)
  moreover have "unat (ix_structural_key_bytes (inserted_index row s p ix)) =
      structural_total (inserted_index row s p ix)"
    using assms(1,3,4) tot(5)
    by (simp add: inserted_index_def [of row s p ix] unat_saturating_add index_inv_def prepared_ok_def contents_fit_def)
  moreover have "length (ix_entries (inserted_index row s p ix)) < 2 ^ 64"
    using assms(4) by (simp add: contents_fit_def)
  moreover have "bmap_inv (ix_rows (inserted_index row s p ix))"
    using inv by (simp add: bmap_inv_insert)
  ultimately show ?thesis
    using assms(1,3) tot(1,2) rows unfolding index_inv_def
    by (simp only: inserted_index_simps(1) ball_simps(7) snd_conv row_state.simps UN_insert Un_commute
        prepared_ok_def simp_thms) blast
qed


section \<open>Removal\<close>

definition removed_index :: "row_id \<Rightarrow> row_state \<Rightarrow> prepared_row_keys \<Rightarrow> ordered_index \<Rightarrow> ordered_index" where
  "removed_index row previous p ix = ix\<lparr>
     ix_entries := fold bset_remove (row_entries (ix_schema ix) (row, previous)) (ix_entries ix),
     ix_rows := bmap_remove row (ix_rows ix),
     ix_encoded_key_bytes := saturating_sub (ix_encoded_key_bytes ix) (prepared_encoded_bytes p),
     ix_structural_key_bytes := saturating_sub (ix_structural_key_bytes ix) (prepared_structural_bytes p),
     ix_metrics := (ix_metrics ix)
       \<lparr>removals := saturating_add (removals (ix_metrics ix)) 1,
        physical_entry_updates := saturating_add (physical_entry_updates (ix_metrics ix))
          (usize_to_u64 (length (prepared_encoded p)))\<rparr>\<rparr>"

lemma index_inv_keys_ok:
  "index_inv ix \<Longrightarrow> map_of (ix_rows ix) row = Some state \<Longrightarrow> keys_ok (ix_schema ix) (row_keys state)"
  unfolding index_inv_def using map_of_SomeD by fastforce

lemma row_entries_stored:
  "prepared_ok schema p \<Longrightarrow> prepared_keys p = row_keys state \<Longrightarrow>
     row_entries schema (row, state) = map (\<lambda>e. entry_row e (row_source_order state) row) (prepared_encoded p)"
  using row_entries_prepared [of schema p row "row_source_order state"] by (cases state) simp

lemma index_remove_inv_eq:
  assumes "index_inv ix" and "map_of (ix_rows ix) row = Some previous"
  obtains p where "prepared_ok (ix_schema ix) p" and "prepared_keys p = row_keys previous"
    and "index_remove row ix = (Inr Removed, removed_index row previous p ix)"
proof -
  obtain p where p: "prepare_row_keys (ix_schema ix) (row_keys previous) = Inr p"
    "prepared_ok (ix_schema ix) p" "prepared_keys p = row_keys previous"
    using prepare_row_keys_again [OF index_inv_keys_ok [OF assms]] by blast
  note stored = row_entries_stored [OF p(2,3), of row]
  have "remove_entries (row_source_order previous) row (prepared_encoded p) (ix_entries ix) =
      (Inr (), fold bset_remove (row_entries (ix_schema ix) (row, previous)) (ix_entries ix))"
    unfolding stored using assms row_entries_subset [OF assms] p(2)
    by (intro remove_entries_ok distinct_prepared) (auto simp: index_inv_def stored)
  with p assms(2) have "index_remove row ix = (Inr Removed, removed_index row previous p ix)"
    by (simp add: index_remove_def removed_index_def)
  with p that show ?thesis by blast
qed

lemma removed_index_totals:
  assumes "index_inv ix" "map_of (ix_rows ix) row = Some previous"
  shows "bset_inv (ix_entries (removed_index row previous p ix))"
    and "set (ix_entries (removed_index row previous p ix)) =
      set (ix_entries ix) - set (row_entries (ix_schema ix) (row, previous))"
    and "length (ix_entries (removed_index row previous p ix)) \<le> length (ix_entries ix)"
    and "encoded_total (removed_index row previous p ix) +
      encoded_payload (ix_schema ix) (row_keys previous) = encoded_total ix"
    and "structural_total (removed_index row previous p ix) + keys_payload (row_keys previous) =
      structural_total ix"
proof -
  have inv: "bset_inv (ix_entries ix)" "bmap_inv (ix_rows ix)" using assms(1) by (simp_all add: index_inv_def)
  have d: "distinct (row_entries (ix_schema ix) (row, previous))"
    using index_inv_keys_ok [OF assms] by (intro distinct_row_entries) simp
  note sub = row_entries_subset [OF assms]
  show "bset_inv (ix_entries (removed_index row previous p ix))"
    "set (ix_entries (removed_index row previous p ix)) =
       set (ix_entries ix) - set (row_entries (ix_schema ix) (row, previous))"
    using btree_set.fold_remove [OF inv(1)] by (simp_all add: removed_index_def)
  show "length (ix_entries (removed_index row previous p ix)) \<le> length (ix_entries ix)"
    using btree_set.size_fold_remove [OF inv(1) d sub] by (simp add: removed_index_def)
  show "encoded_total (removed_index row previous p ix) +
      encoded_payload (ix_schema ix) (row_keys previous) = encoded_total ix"
    using btree_set.sum_fold_remove [OF inv(1) d sub, of "\<lambda>entry. length (encoded_key entry)"]
    by (simp add: encoded_total_def removed_index_def sum_row_entries)
  show "structural_total (removed_index row previous p ix) + keys_payload (row_keys previous) =
      structural_total ix"
    using btree_map.sum_remove [OF inv(2) assms(2), of "\<lambda>p. keys_payload (row_keys (snd p))"]
    by (simp add: structural_total_def removed_index_def)
qed

lemma removed_entries_other:
  assumes "index_inv ix" "map_of (ix_rows ix) row = Some previous"
  shows "set (ix_entries ix) - set (row_entries (ix_schema ix) (row, previous)) =
    (\<Union>p \<in> set (ix_rows ix) - {(row, previous)}. set (row_entries (ix_schema ix) p))"
proof -
  have e: "set (ix_entries ix) = (\<Union>p \<in> set (ix_rows ix). set (row_entries (ix_schema ix) p))"
    using assms(1) by (simp add: index_inv_def)
  have "set (row_entries (ix_schema ix) p) \<inter> set (row_entries (ix_schema ix) (row, previous)) = {}"
    if "p \<in> set (ix_rows ix)" "p \<noteq> (row, previous)" for p
  proof -
    have "map_of (ix_rows ix) (fst p) = Some (snd p)"
      using that(1) assms(1) btree_map.items_get [of "ix_rows ix" "fst p" "snd p"] by (simp add: index_inv_def)
    then have "fst p \<noteq> row" using that(2) assms(2) by (cases p) auto
    then show ?thesis by (auto dest!: row_entries_row)
  qed
  then show ?thesis unfolding e by blast
qed

lemma removed_index_inv:
  assumes "index_inv ix" "map_of (ix_rows ix) row = Some previous"
    and "prepared_ok (ix_schema ix) p" "prepared_keys p = row_keys previous"
  shows "index_inv (removed_index row previous p ix)"
proof -
  note tot = removed_index_totals [OF assms(1,2), of p]
  have inv: "bmap_inv (ix_rows ix)" using assms(1) by (simp add: index_inv_def)
  have rows: "set (ix_rows (removed_index row previous p ix)) = set (ix_rows ix) - {(row, previous)}"
    using btree_map.items_remove [OF inv assms(2)] by (simp add: removed_index_def)
  have lt: "encoded_total ix < 2 ^ 64" "structural_total ix < 2 ^ 64"
    using assms(1) unsigned_less [of "ix_encoded_key_bytes ix", where ?'a = nat]
      unsigned_less [of "ix_structural_key_bytes ix", where ?'a = nat] by (simp_all add: index_inv_def)
  have "unat (ix_encoded_key_bytes (removed_index row previous p ix)) =
      encoded_total (removed_index row previous p ix)"
    using assms(1,3) tot(4) lt
    by (simp add: removed_index_def [of row previous p ix] unat_saturating_sub index_inv_def
        prepared_ok_def assms(4))
  moreover have "unat (ix_structural_key_bytes (removed_index row previous p ix)) =
      structural_total (removed_index row previous p ix)"
    using assms(1,3) tot(5) lt
    by (simp add: removed_index_def [of row previous p ix] unat_saturating_sub index_inv_def
        prepared_ok_def assms(4))
  moreover have "length (ix_entries (removed_index row previous p ix)) < 2 ^ 64"
    using tot(3) assms(1) by (simp add: index_inv_def)
  moreover have "bmap_inv (ix_rows (removed_index row previous p ix))"
    using inv by (simp add: removed_index_def bmap_inv_remove)
  moreover have "ix_schema (removed_index row previous p ix) = ix_schema ix" by (simp add: removed_index_def)
  moreover have "\<forall>p \<in> set (ix_rows ix). keys_ok (ix_schema ix) (row_keys (snd p))"
    using assms(1) by (simp add: index_inv_def)
  ultimately show ?thesis
    using tot(1,2) unfolding index_inv_def rows
    by (simp only: removed_entries_other [OF assms(1,2)] simp_thms) blast
qed


section \<open>Update\<close>

definition replaced_index :: "row_id \<Rightarrow> source_order_token \<Rightarrow> row_state \<Rightarrow> prepared_row_keys \<Rightarrow>
    prepared_row_keys \<Rightarrow> ordered_index \<Rightarrow> ordered_index" where
  "replaced_index row s previous old p ix =
     (let old_entries = entries_of (prepared_encoded old) (row_source_order previous) row;
          new_entries = entries_of (prepared_encoded p) s row;
          removed = bset_difference old_entries new_entries;
          inserted = bset_difference new_entries old_entries in
      ix\<lparr>ix_entries := fold bset_insert inserted (fold bset_remove removed (ix_entries ix)),
        ix_rows := bmap_insert row \<lparr>row_keys = prepared_keys p, row_source_order = s\<rparr> (ix_rows ix),
        ix_encoded_key_bytes := saturating_add
          (saturating_sub (ix_encoded_key_bytes ix) (prepared_encoded_bytes old)) (prepared_encoded_bytes p),
        ix_structural_key_bytes := saturating_add
          (saturating_sub (ix_structural_key_bytes ix) (prepared_structural_bytes old))
          (prepared_structural_bytes p),
        ix_metrics := (ix_metrics ix)
          \<lparr>updates := saturating_add (updates (ix_metrics ix)) 1,
           physical_entry_updates := saturating_add (physical_entry_updates (ix_metrics ix))
             (usize_to_u64 (length removed + length inserted))\<rparr>\<rparr>)"

lemma replaced_index_bytes:
  "ix_encoded_key_bytes (replaced_index row s previous old p ix) = saturating_add
     (saturating_sub (ix_encoded_key_bytes ix) (prepared_encoded_bytes old)) (prepared_encoded_bytes p)"
  "ix_structural_key_bytes (replaced_index row s previous old p ix) = saturating_add
     (saturating_sub (ix_structural_key_bytes ix) (prepared_structural_bytes old))
     (prepared_structural_bytes p)"
  by (simp_all add: replaced_index_def Let_def)

lemma set_bset_difference [simp]: "set (bset_difference xs ys) = set xs - set ys"
  by (auto simp: bset_difference_def bset_contains_def)

lemma replaced_entries:
  fixes s :: source_order_token
  assumes "index_inv ix" "map_of (ix_rows ix) row = Some previous"
    and "prepared_ok (ix_schema ix) old" "prepared_keys old = row_keys previous"
    and "prepared_ok (ix_schema ix) p"
  defines "Old \<equiv> set (row_entries (ix_schema ix) (row, previous))"
    and "New \<equiv> set (row_entries (ix_schema ix) (row, \<lparr>row_keys = prepared_keys p, row_source_order = s\<rparr>))"
  shows "set (entries_of (prepared_encoded old) (row_source_order previous) row) = Old"
    and "set (entries_of (prepared_encoded p) s row) = New"
    and "Old \<subseteq> set (ix_entries ix)" and "New \<inter> (set (ix_entries ix) - Old) = {}"
    and "bset_inv (ix_entries (replaced_index row s previous old p ix))"
    and "set (ix_entries (replaced_index row s previous old p ix)) = set (ix_entries ix) - Old \<union> New"
proof -
  show o: "set (entries_of (prepared_encoded old) (row_source_order previous) row) = Old"
    using entries_of_ok row_entries_stored [OF assms(3,4), of row] by (simp add: Old_def)
  show n: "set (entries_of (prepared_encoded p) s row) = New"
    using entries_of_ok row_entries_prepared [OF assms(5), of row s] by (simp add: New_def)
  show sub: "Old \<subseteq> set (ix_entries ix)" unfolding Old_def by (rule row_entries_subset [OF assms(1,2)])
  show dis: "New \<inter> (set (ix_entries ix) - Old) = {}"
  proof -
    have "fst q \<noteq> row" if "q \<in> set (ix_rows ix) - {(row, previous)}" for q
    proof -
      have "map_of (ix_rows ix) (fst q) = Some (snd q)"
        using that assms(1) btree_map.items_get [of "ix_rows ix" "fst q" "snd q"] by (simp add: index_inv_def)
      then show ?thesis using that assms(2) by (cases q) auto
    qed
    then show ?thesis
      unfolding New_def Old_def removed_entries_other [OF assms(1,2)] by (fastforce dest!: row_entries_row)
  qed
  have inv: "bset_inv (ix_entries ix)" using assms(1) by (simp add: index_inv_def)
  note r = btree_set.fold_remove [OF inv]
  note i = btree_set.fold_insert [OF conjunct1 [OF r]]
  show "bset_inv (ix_entries (replaced_index row s previous old p ix))"
    using i by (simp add: replaced_index_def Let_def)
  have "set (ix_entries (replaced_index row s previous old p ix)) = set (ix_entries ix) - (Old - New) \<union> (New - Old)"
    using i r by (simp add: replaced_index_def Let_def o n)
  then show "set (ix_entries (replaced_index row s previous old p ix)) = set (ix_entries ix) - Old \<union> New"
    using sub by blast
qed

lemma replace_row_inv_eq:
  assumes "index_inv ix" "map_of (ix_rows ix) row = Some previous"
    and "prepared_ok (ix_schema ix) old" "prepared_keys old = row_keys previous"
    and "prepared_ok (ix_schema ix) p"
  shows "replace_row row s previous old p ix =
    (case check_projected_resources ix
        (saturating_add (saturating_sub (usize_to_u64 (length (ix_entries ix)))
           (usize_to_u64 (length (prepared_encoded old)))) (usize_to_u64 (length (prepared_encoded p))))
        (saturating_add (saturating_sub (ix_encoded_key_bytes ix) (prepared_encoded_bytes old))
           (prepared_encoded_bytes p))
        (saturating_add (saturating_sub (ix_structural_key_bytes ix) (prepared_structural_bytes old))
           (prepared_structural_bytes p))
        (longest_encoded p) of
       Inl e \<Rightarrow> (Inl e, ix)
     | Inr _ \<Rightarrow> (Inr Updated, replaced_index row s previous old p ix))"
proof -
  note e = replaced_entries(1) [OF assms] replaced_entries(2) [OF assms, of s]
    replaced_entries(3) [OF assms] replaced_entries(4-6) [OF assms, of s]
  have "\<not> (\<exists>entry \<in> set (bset_difference (entries_of (prepared_encoded old) (row_source_order previous) row)
      (entries_of (prepared_encoded p) s row)). \<not> bset_contains entry (ix_entries ix))"
    using e(1-4) unfolding set_bset_difference bset_contains_def by blast
  moreover have "\<not> (\<exists>entry \<in> set (bset_difference (entries_of (prepared_encoded p) s row)
      (entries_of (prepared_encoded old) (row_source_order previous) row)). bset_contains entry (ix_entries ix))"
    using e(1-4) unfolding set_bset_difference bset_contains_def by blast
  ultimately show ?thesis
    unfolding replace_row_def replaced_index_def Let_def by (simp only: if_False split: sum.split)
qed


lemma sum_exchange:
  fixes f :: "'a \<Rightarrow> nat"
  assumes "finite E" "finite N" "O' \<subseteq> E" "N \<inter> (E - O') = {}"
  shows "sum f (E - O' \<union> N) + sum f O' = sum f E + sum f N"
proof -
  have "sum f (E - O' \<union> N) = sum f (E - O') + sum f N"
    using assms by (intro sum.union_disjoint) auto
  moreover have "sum f E = sum f (E - O') + sum f O'" using assms by (intro sum.subset_diff)
  ultimately show ?thesis by simp
qed

lemma sum_set_row_entries:
  assumes "keys_ok schema (row_keys (snd q))"
  shows "(\<Sum>entry \<in> set (row_entries schema q). length (encoded_key entry)) = encoded_payload schema (row_keys (snd q))"
    and "card (set (row_entries schema q)) = length (row_keys (snd q))"
  using sum_list_distinct_conv_sum_set [OF distinct_row_entries [OF assms], of "\<lambda>entry. length (encoded_key entry)"]
    distinct_card [OF distinct_row_entries [OF assms]]
  by (simp_all add: sum_row_entries length_row_entries)

lemma replaced_index_totals:
  assumes "index_inv ix" "map_of (ix_rows ix) row = Some previous"
    and "prepared_ok (ix_schema ix) old" "prepared_keys old = row_keys previous"
    and "prepared_ok (ix_schema ix) p"
  shows "length (ix_entries (replaced_index row s previous old p ix)) + length (row_keys previous) =
      length (ix_entries ix) + length (prepared_keys p)"
    and "encoded_total (replaced_index row s previous old p ix) +
      encoded_payload (ix_schema ix) (row_keys previous) =
      encoded_total ix + encoded_payload (ix_schema ix) (prepared_keys p)"
    and "structural_total (replaced_index row s previous old p ix) + keys_payload (row_keys previous) =
      structural_total ix + keys_payload (prepared_keys p)"
proof -
  let ?st = "\<lparr>row_keys = prepared_keys p, row_source_order = s\<rparr>"
  note e = replaced_entries(1) [OF assms] replaced_entries(2) [OF assms, of s]
    replaced_entries(3) [OF assms] replaced_entries(4-6) [OF assms, of s]
  have inv: "bset_inv (ix_entries ix)" "bmap_inv (ix_rows ix)" using assms(1) by (simp_all add: index_inv_def)
  have ko: "keys_ok (ix_schema ix) (row_keys (snd (row, previous)))"
    and kn: "keys_ok (ix_schema ix) (row_keys (snd (row, ?st)))"
    using index_inv_keys_ok [OF assms(1,2)] assms(5) by (simp_all add: prepared_ok_def)
  have ex: "sum f (set (ix_entries (replaced_index row s previous old p ix))) +
      sum f (set (row_entries (ix_schema ix) (row, previous))) =
      sum f (set (ix_entries ix)) + sum f (set (row_entries (ix_schema ix) (row, ?st)))"
    for f :: "entry_order_key \<Rightarrow> nat"
    unfolding e(6) using e(3,4) by (intro sum_exchange) simp_all
  show "length (ix_entries (replaced_index row s previous old p ix)) + length (row_keys previous) =
      length (ix_entries ix) + length (prepared_keys p)"
    using ex [of "\<lambda>_. 1"] sum_set_row_entries(2) [OF ko] sum_set_row_entries(2) [OF kn]
      btree_set.size_card [OF inv(1)] btree_set.size_card [OF e(5)] by simp
  show "encoded_total (replaced_index row s previous old p ix) +
      encoded_payload (ix_schema ix) (row_keys previous) =
      encoded_total ix + encoded_payload (ix_schema ix) (prepared_keys p)"
    using ex [of "\<lambda>entry. length (encoded_key entry)"] sum_set_row_entries(1) [OF ko]
      sum_set_row_entries(1) [OF kn] by (simp add: encoded_total_def)
  show "structural_total (replaced_index row s previous old p ix) + keys_payload (row_keys previous) =
      structural_total ix + keys_payload (prepared_keys p)"
    using btree_map.sum_insert_old [OF inv(2) assms(2), of "\<lambda>p. keys_payload (row_keys (snd p))" ?st]
    by (simp add: structural_total_def replaced_index_def Let_def)
qed

lemma saturating_exchange:
  assumes "amount' + taken = amount + given" "taken \<le> amount" "amount < 2 ^ 64" "amount' < 2 ^ 64"
    and "unat a = amount" "unat b = min taken (2 ^ 64 - 1)" "unat c = min given (2 ^ 64 - 1)"
  shows "unat (saturating_add (saturating_sub a b) (c :: u64)) = amount'"
proof -
  have "min taken (2 ^ 64 - 1) = taken" "min given (2 ^ 64 - 1) = given" using assms(1-4) by auto
  then show ?thesis using assms by (simp add: unat_saturating_add unat_saturating_sub)
qed

lemma replaced_index_inv:
  assumes "index_inv ix" "map_of (ix_rows ix) row = Some previous"
    and "prepared_ok (ix_schema ix) old" "prepared_keys old = row_keys previous"
    and "prepared_ok (ix_schema ix) p" and "contents_fit (replaced_index row s previous old p ix)"
  shows "index_inv (replaced_index row s previous old p ix)"
proof -
  let ?st = "\<lparr>row_keys = prepared_keys p, row_source_order = s\<rparr>"
  let ?ix = "replaced_index row s previous old p ix"
  note tot = replaced_index_totals [OF assms(1-5), of s] and e = replaced_entries(1) [OF assms(1-5)] replaced_entries(2) [OF assms(1-5), of s]
    replaced_entries(3) [OF assms(1-5)] replaced_entries(4-6) [OF assms(1-5), of s]
  have inv: "bmap_inv (ix_rows ix)" using assms(1) by (simp add: index_inv_def)
  have rows: "set (ix_rows ?ix) = Set.insert (row, ?st) (set (ix_rows ix) - {(row, previous)})"
    using btree_map.items_insert_old [OF inv assms(2), of ?st] by (simp add: replaced_index_def Let_def)
  have lt: "encoded_total ix < 2 ^ 64" "structural_total ix < 2 ^ 64"
    using assms(1) unsigned_less [of "ix_encoded_key_bytes ix", where ?'a = nat]
      unsigned_less [of "ix_structural_key_bytes ix", where ?'a = nat] by (simp_all add: index_inv_def)
  have le: "encoded_payload (ix_schema ix) (row_keys previous) \<le> encoded_total ix"
    "keys_payload (row_keys previous) \<le> structural_total ix"
    using removed_index_totals(4,5) [OF assms(1,2)] by (metis le_add2)+
  have "unat (ix_encoded_key_bytes ?ix) = encoded_total ?ix"
    unfolding replaced_index_bytes
    by (rule saturating_exchange [OF tot(2) le(1) lt(1)])
      (use assms in \<open>simp_all add: index_inv_def prepared_ok_def contents_fit_def\<close>)
  moreover have "unat (ix_structural_key_bytes ?ix) = structural_total ?ix"
    unfolding replaced_index_bytes
    by (rule saturating_exchange [OF tot(3) le(2) lt(2)])
      (use assms in \<open>simp_all add: index_inv_def prepared_ok_def contents_fit_def\<close>)
  moreover have "length (ix_entries ?ix) < 2 ^ 64" using assms(6) by (simp add: contents_fit_def)
  moreover have "bmap_inv (ix_rows ?ix)" using inv by (simp add: replaced_index_def Let_def bmap_inv_insert)
  moreover have "ix_schema ?ix = ix_schema ix" by (simp add: replaced_index_def Let_def)
  moreover have "\<forall>p \<in> set (ix_rows ix). keys_ok (ix_schema ix) (row_keys (snd p))"
    using assms(1) by (simp add: index_inv_def)
  moreover have "keys_ok (ix_schema ix) (prepared_keys p)" using assms(5) by (simp add: prepared_ok_def)
  ultimately show ?thesis
    using e(5,6) unfolding index_inv_def rows
    by (simp only: removed_entries_other [OF assms(1,2)] simp_thms UN_insert Un_commute ball_simps(7)
        snd_conv row_state.simps) blast
qed

section \<open>Limits\<close>

lemma usize_to_u64_add: "saturating_add (usize_to_u64 a) (usize_to_u64 b) = usize_to_u64 (a + b)"
  by (rule word_unat_eq_iff [THEN iffD2]) (simp add: unat_saturating_add unat_usize_to_u64)

lemma usize_to_u64_exchange:
  "n' + taken = n + given \<Longrightarrow> taken \<le> n \<Longrightarrow> n < 2 ^ 64 \<Longrightarrow>
     saturating_add (saturating_sub (usize_to_u64 n) (usize_to_u64 taken)) (usize_to_u64 given) = usize_to_u64 n'"
  by (rule word_unat_eq_iff [THEN iffD2]) (simp add: unat_saturating_add unat_saturating_sub unat_usize_to_u64)

lemma prepare_row_keys_Inl: "prepare_row_keys schema keys = Inl e \<Longrightarrow> \<exists>k. e = Key k"
proof -
  have "prepare_unique schema keys u = Inl e \<Longrightarrow> \<exists>k. e = Key k" for u
    by (induction schema keys u rule: prepare_unique.induct)
      (auto simp: map_err_def split: sum.splits if_splits)
  then show "prepare_row_keys schema keys = Inl e \<Longrightarrow> \<exists>k. e = Key k"
    unfolding prepare_row_keys_def try_res_eq_Inl by auto
qed

lemma unat_payload_bytes:
  "index_inv ix \<Longrightarrow> unat (payload_bytes ix) =
     min (encoded_total ix + structural_total ix + length (ix_entries ix) * 32) (2 ^ 64 - 1)"
  by (simp add: payload_bytes_def unat_retained unat_usize_to_u64 index_inv_def)

text \<open>What a finite payload limit gives: a total that passes the check did not saturate.\<close>

lemma retained_below_max:
  assumes "retained_payload_bytes n e s \<le> m" and "m < - 1"
  shows "unat e + unat s + unat n * 32 < 2 ^ 64 - 1"
proof -
  have "unat m < 2 ^ 64 - 1"
    using assms(2) by (simp add: word_less_nat_alt unsigned_minus_1_eq_mask mask_eq_exp_minus_1)
  moreover have "unat (retained_payload_bytes n e s) \<le> unat m"
    using assms(1) by (simp add: word_le_nat_alt)
  ultimately show ?thesis unfolding unat_retained by simp
qed

lemma inserted_index_limits:
  assumes "index_inv ix" "within_resource_limits ix" "map_of (ix_rows ix) row = None"
    and "prepared_ok (ix_schema ix) p" "contents_fit (inserted_index row s p ix)"
    and "check_projected_resources ix
      (saturating_add (usize_to_u64 (length (ix_entries ix))) (usize_to_u64 (length (prepared_keys p))))
      (saturating_add (ix_encoded_key_bytes ix) (prepared_encoded_bytes p))
      (saturating_add (ix_structural_key_bytes ix) (prepared_structural_bytes p))
      (longest_encoded p) = Inr ()"
  shows "within_resource_limits (inserted_index row s p ix)"
proof -
  let ?ix = "inserted_index row s p ix"
  note tot = inserted_index_totals [OF assms(1,3,4), of s]
  have c: "usize_to_u64 (length (ix_entries ?ix)) \<le> max_entries (ix_limits ix)"
    "longest_encoded p \<le> max_encoded_key_bytes (ix_limits ix)"
    "payload_bytes ?ix \<le> max_payload_bytes (ix_limits ix)"
    using assms(6) tot(3)
    by (simp_all add: check_projected_Inr usize_to_u64_add payload_bytes_def inserted_index_def)
  have "length (ix_entries ?ix) \<le> unat (max_entries (ix_limits ix))"
    using c(1) assms(5) by (simp add: word_le_nat_alt unat_usize_to_u64 contents_fit_def)
  moreover have "usize_to_u64 (length (encoded_key entry)) \<le> max_encoded_key_bytes (ix_limits ix)"
    if "entry \<in> set (ix_entries ?ix)" for entry
    using that c(2) assms(2) unfolding tot(2) row_entries_prepared [OF assms(4)]
    by (auto simp: within_resource_limits_def longest_encoded_le)
  ultimately show ?thesis using c(3) by (simp add: within_resource_limits_def)
qed

lemma inserted_index_fits:
  assumes "index_inv ix" "map_of (ix_rows ix) row = None" "prepared_ok (ix_schema ix) p"
    and "max_payload_bytes (ix_limits ix) < - 1"
    and "check_projected_resources ix
      (saturating_add (usize_to_u64 (length (ix_entries ix))) (usize_to_u64 (length (prepared_keys p))))
      (saturating_add (ix_encoded_key_bytes ix) (prepared_encoded_bytes p))
      (saturating_add (ix_structural_key_bytes ix) (prepared_structural_bytes p))
      (longest_encoded p) = Inr ()"
  shows "contents_fit (inserted_index row s p ix)"
proof -
  note tot = inserted_index_totals [OF assms(1-3), of s]
  have "unat (saturating_add (ix_encoded_key_bytes ix) (prepared_encoded_bytes p)) +
      unat (saturating_add (ix_structural_key_bytes ix) (prepared_structural_bytes p)) +
      unat (usize_to_u64 (length (ix_entries ix) + length (prepared_keys p))) * 32 < 2 ^ 64 - 1"
    by (rule retained_below_max [OF _ assms(4)])
      (use assms(5) in \<open>simp add: check_projected_Inr usize_to_u64_add\<close>)
  then show ?thesis
    using assms(1,3) tot(3-5)
    by (simp add: contents_fit_def unat_saturating_add unat_usize_to_u64 index_inv_def prepared_ok_def
        min_def split: if_splits)
qed

lemma removed_index_limits:
  assumes "index_inv ix" "within_resource_limits ix" "map_of (ix_rows ix) row = Some previous"
    and "prepared_ok (ix_schema ix) p" "prepared_keys p = row_keys previous"
  shows "within_resource_limits (removed_index row previous p ix)"
proof -
  let ?ix = "removed_index row previous p ix"
  note tot = removed_index_totals [OF assms(1,3), of p]
  have "unat (payload_bytes ?ix) \<le> unat (payload_bytes ix)"
    using tot(3-5) unfolding unat_payload_bytes [OF assms(1)]
      unat_payload_bytes [OF removed_index_inv [OF assms(1,3-5)]] by simp
  moreover have "ix_limits ?ix = ix_limits ix" by (simp add: removed_index_def)
  ultimately show ?thesis
    using assms(2) tot(2,3) by (auto simp: within_resource_limits_def word_le_nat_alt)
qed

lemma replaced_index_counts:
  assumes "index_inv ix" "map_of (ix_rows ix) row = Some previous"
    and "prepared_ok (ix_schema ix) old" "prepared_keys old = row_keys previous"
    and "prepared_ok (ix_schema ix) p"
  shows "saturating_add (saturating_sub (usize_to_u64 (length (ix_entries ix)))
      (usize_to_u64 (length (prepared_encoded old)))) (usize_to_u64 (length (prepared_encoded p))) =
    usize_to_u64 (length (ix_entries (replaced_index row s previous old p ix)))"
proof -
  have "card (set (row_entries (ix_schema ix) (row, previous))) \<le> card (set (ix_entries ix))"
    using row_entries_subset [OF assms(1,2)] by (simp add: card_mono)
  then have "length (row_keys previous) \<le> length (ix_entries ix)"
    using sum_set_row_entries(2) [of "ix_schema ix" "(row, previous)"] index_inv_keys_ok [OF assms(1,2)]
      btree_set.size_card [of "ix_entries ix"] assms(1) by (simp add: index_inv_def)
  then show ?thesis
    using replaced_index_totals(1) [OF assms, of s] assms
    by (intro usize_to_u64_exchange) (simp_all add: prepared_ok_def index_inv_def)
qed


lemma replaced_index_limits:
  assumes "index_inv ix" "within_resource_limits ix" "map_of (ix_rows ix) row = Some previous"
    and "prepared_ok (ix_schema ix) old" "prepared_keys old = row_keys previous"
    and "prepared_ok (ix_schema ix) p" "contents_fit (replaced_index row s previous old p ix)"
    and "check_projected_resources ix
      (usize_to_u64 (length (ix_entries (replaced_index row s previous old p ix))))
      (ix_encoded_key_bytes (replaced_index row s previous old p ix))
      (ix_structural_key_bytes (replaced_index row s previous old p ix)) (longest_encoded p) = Inr ()"
  shows "within_resource_limits (replaced_index row s previous old p ix)"
proof -
  let ?ix = "replaced_index row s previous old p ix"
  note e = replaced_entries(6) [OF assms(1,3-6), of s]
  have c: "usize_to_u64 (length (ix_entries ?ix)) \<le> max_entries (ix_limits ix)"
    "longest_encoded p \<le> max_encoded_key_bytes (ix_limits ix)"
    "payload_bytes ?ix \<le> max_payload_bytes (ix_limits ix)"
    using assms(8) by (simp_all add: check_projected_Inr payload_bytes_def)
  have "length (ix_entries ?ix) \<le> unat (max_entries (ix_limits ix))"
    using c(1) assms(7) by (simp add: word_le_nat_alt unat_usize_to_u64 contents_fit_def)
  moreover have "usize_to_u64 (length (encoded_key entry)) \<le> max_encoded_key_bytes (ix_limits ix)"
    if "entry \<in> set (ix_entries ?ix)" for entry
    using that c(2) assms(2) unfolding e row_entries_prepared [OF assms(6)]
    by (auto simp: within_resource_limits_def longest_encoded_le)
  moreover have "ix_limits ?ix = ix_limits ix" by (simp add: replaced_index_def Let_def)
  ultimately show ?thesis using c(3) by (simp add: within_resource_limits_def)
qed

text \<open>Every mutation, from a state of the invariant: how the result and the new state arise.\<close>

lemma insert_many_cases:
  assumes "index_inv ix" and "insert_many row s keys ix = (r, ix')"
  obtains e where "r = Inl e" and "ix' = ix" and "\<forall>m. e \<noteq> CorruptIndex m"
  | p where "r = Inr Inserted" and "map_of (ix_rows ix) row = None"
      and "prepare_row_keys (ix_schema ix) keys = Inr p" and "ix' = inserted_index row s p ix"
      and "check_projected_resources ix
        (saturating_add (usize_to_u64 (length (ix_entries ix))) (usize_to_u64 (length (prepared_keys p))))
        (saturating_add (ix_encoded_key_bytes ix) (prepared_encoded_bytes p))
        (saturating_add (ix_structural_key_bytes ix) (prepared_structural_bytes p))
        (longest_encoded p) = Inr ()"
  using assms(2) unfolding insert_many_inv_eq [OF assms(1)]
  by (auto split: if_splits sum.splits dest: prepare_row_keys_Inl check_projected_Inl)

lemma update_many_cases:
  assumes "index_inv ix" and "update_many row s keys ix = (r, ix')"
  obtains e where "r = Inl e" and "ix' = ix" and "\<forall>m. e \<noteq> CorruptIndex m"
  | p where "r = Inr Unchanged" and "prepare_row_keys (ix_schema ix) keys = Inr p"
      and "map_of (ix_rows ix) row = Some \<lparr>row_keys = prepared_keys p, row_source_order = s\<rparr>"
      and "ix' = ix\<lparr>ix_metrics := (ix_metrics ix)
             \<lparr>unchanged_updates := saturating_add (unchanged_updates (ix_metrics ix)) 1\<rparr>\<rparr>"
  | p previous old where "r = Inr Updated" and "prepare_row_keys (ix_schema ix) keys = Inr p"
      and "map_of (ix_rows ix) row = Some previous"
      and "prepared_ok (ix_schema ix) old" and "prepared_keys old = row_keys previous"
      and "ix' = replaced_index row s previous old p ix"
      and "check_projected_resources ix
        (usize_to_u64 (length (ix_entries (replaced_index row s previous old p ix))))
        (ix_encoded_key_bytes (replaced_index row s previous old p ix))
        (ix_structural_key_bytes (replaced_index row s previous old p ix)) (longest_encoded p) = Inr ()"
proof (cases "prepare_row_keys (ix_schema ix) keys")
  case (Inl e)
  then show ?thesis using assms(2) prepare_row_keys_Inl [OF Inl] that(1) by (auto simp: update_many_def)
next
  case (Inr p)
  show ?thesis
  proof (cases "map_of (ix_rows ix) row")
    case None
    with Inr show ?thesis using assms(2) that(1) by (auto simp: update_many_def)
  next
    case (Some previous)
    show ?thesis
    proof (cases "row_keys previous = prepared_keys p \<and> row_source_order previous = s")
      case True
      then have "previous = \<lparr>row_keys = prepared_keys p, row_source_order = s\<rparr>" by (cases previous) simp
      with True Inr Some show ?thesis using assms(2) that(2) by (auto simp: update_many_def)
    next
      case False
      obtain old where old: "prepare_row_keys (ix_schema ix) (row_keys previous) = Inr old"
        "prepared_ok (ix_schema ix) old" "prepared_keys old = row_keys previous"
        using prepare_row_keys_again [OF index_inv_keys_ok [OF assms(1) Some]] by blast
      have ok: "prepared_ok (ix_schema ix) p" using prepare_row_keys_ok [OF Inr] by simp
      have "update_many row s keys ix = replace_row row s previous old p ix"
        using False Inr Some old by (auto simp: update_many_def)
      then show ?thesis
        using assms(2) that(1) that(3) [OF _ Inr Some old(2,3)]
        unfolding replace_row_inv_eq [OF assms(1) Some old(2,3) ok]
          replaced_index_counts [OF assms(1) Some old(2,3) ok, of s]
          replaced_index_bytes [symmetric, where row = row and s = s and previous = previous]
        by (auto split: sum.splits dest: check_projected_Inl)
    qed
  qed
qed

section \<open>Reachable indexes\<close>

text \<open>The histories of an index: created with any limits, then mutated, failed mutations included, as
  long as its contents fit the counters.\<close>

inductive index_reachable :: "index_plan_id \<Rightarrow> key_schema \<Rightarrow> ordered_index \<Rightarrow> bool" for plan schema where
  reachable_new: "index_reachable plan schema (index_new_with_limits plan schema limits)"
| reachable_insert: "index_reachable plan schema ix \<Longrightarrow> insert_many row s keys ix = (r, ix') \<Longrightarrow>
    contents_fit ix' \<Longrightarrow> index_reachable plan schema ix'"
| reachable_update: "index_reachable plan schema ix \<Longrightarrow> update_many row s keys ix = (r, ix') \<Longrightarrow>
    contents_fit ix' \<Longrightarrow> index_reachable plan schema ix'"
| reachable_remove: "index_reachable plan schema ix \<Longrightarrow> index_remove row ix = (r, ix') \<Longrightarrow>
    index_reachable plan schema ix'"
| reachable_limit: "index_reachable plan schema ix \<Longrightarrow> set_max_payload_bytes m ix = (r, ix') \<Longrightarrow>
    index_reachable plan schema ix'"

lemma index_new_inv:
  "index_inv (index_new_with_limits plan schema limits) \<and>
   within_resource_limits (index_new_with_limits plan schema limits)"
  by (simp add: index_new_with_limits_def index_inv_def encoded_total_def structural_total_def
      within_resource_limits_def payload_bytes_def retained_payload_bytes_def usize_to_u64_def
      saturating_add_def saturating_mul_def)

lemma metrics_irrelevant:
  "index_inv (ix\<lparr>ix_metrics := m\<rparr>) = index_inv ix"
  "within_resource_limits (ix\<lparr>ix_metrics := m\<rparr>) = within_resource_limits ix"
  by (simp_all add: index_inv_def within_resource_limits_def encoded_total_def structural_total_def
      payload_bytes_def)

lemma limits_irrelevant: "index_inv (ix\<lparr>ix_limits := l\<rparr>) = index_inv ix"
  by (simp add: index_inv_def encoded_total_def structural_total_def)

lemma index_reachable_inv:
  "index_reachable plan schema ix \<Longrightarrow> index_inv ix \<and> within_resource_limits ix"
proof (induction rule: index_reachable.induct)
  case (reachable_new limits)
  show ?case by (rule index_new_inv)
next
  case (reachable_insert ix row s keys r ix')
  then have inv: "index_inv ix" "within_resource_limits ix" by simp_all
  show ?case
  proof (cases rule: insert_many_cases [OF inv(1) reachable_insert.hyps(2)])
    case (2 p)
    have ok: "prepared_ok (ix_schema ix) p" using prepare_row_keys_ok [OF 2(3)] by simp
    show ?thesis
      using inserted_index_inv [OF inv(1) 2(2) ok] inserted_index_limits [OF inv 2(2) ok _ 2(5)]
        reachable_insert.hyps(3) unfolding 2(4) by blast
  qed (use inv in simp)
next
  case (reachable_update ix row s keys r ix')
  then have inv: "index_inv ix" "within_resource_limits ix" by simp_all
  show ?case
  proof (cases rule: update_many_cases [OF inv(1) reachable_update.hyps(2)])
    case (3 p previous old)
    have ok: "prepared_ok (ix_schema ix) p" using prepare_row_keys_ok [OF 3(2)] by simp
    show ?thesis
      using replaced_index_inv [OF inv(1) 3(3-5) ok] replaced_index_limits [OF inv 3(3-5) ok _ 3(7)]
        reachable_update.hyps(3) unfolding 3(6) by blast
  qed (use inv in \<open>simp_all add: metrics_irrelevant\<close>)
next
  case (reachable_remove ix row r ix')
  then have inv: "index_inv ix" "within_resource_limits ix" by simp_all
  show ?case
  proof (cases "map_of (ix_rows ix) row")
    case None
    then show ?thesis using inv reachable_remove.hyps(2) by (auto simp: index_remove_def)
  next
    case (Some previous)
    then obtain p where p: "prepared_ok (ix_schema ix) p" "prepared_keys p = row_keys previous"
      "ix' = removed_index row previous p ix"
      using index_remove_inv_eq [OF inv(1) Some] reachable_remove.hyps(2) by (metis prod.inject)
    show ?thesis
      unfolding p(3) using removed_index_inv [OF inv(1) Some p(1,2)] removed_index_limits [OF inv Some p(1,2)]
      by blast
  qed
next
  case (reachable_limit ix m r ix')
  then have inv: "index_inv ix" "within_resource_limits ix" by simp_all
  show ?case
  proof (cases "payload_bytes ix \<le> m")
    case True
    then have "\<not> m < payload_bytes ix" by simp
    then have "ix' = ix\<lparr>ix_limits := (ix_limits ix)\<lparr>max_payload_bytes := m\<rparr>\<rparr>"
      using reachable_limit.hyps(2) by (simp add: set_max_payload_bytes_def check_resource_def)
    with True inv show ?thesis by (simp add: limits_irrelevant within_resource_limits_def payload_bytes_def)
  next
    case False
    then have "m < payload_bytes ix" by simp
    then show ?thesis
      using inv reachable_limit.hyps(2) by (simp add: set_max_payload_bytes_def check_resource_def)
  qed
qed

definition normalised :: "key_schema \<Rightarrow> structural_key list \<Rightarrow> structural_key list \<Rightarrow> bool" where
  "normalised schema keys ks \<longleftrightarrow>
     keys_ok schema ks \<and> encoding schema ` set ks = encoding schema ` set keys"

lemma normalised_prepared:
  "prepare_row_keys schema keys = Inr p \<Longrightarrow> normalised schema keys (prepared_keys p)"
  using prepare_row_keys_ok by (simp add: normalised_def prepared_ok_def)

lemma insert_many_map:
  assumes inv: "index_inv ix"
  shows "case insert_many row s keys ix of
      (Inr outcome, ix') \<Rightarrow> outcome = Inserted \<and> map_of (ix_rows ix) row = None \<and>
        (\<exists>ks. normalised (ix_schema ix) keys ks \<and> map_of (ix_rows ix') =
          (map_of (ix_rows ix))(row \<mapsto> \<lparr>row_keys = ks, row_source_order = s\<rparr>))
    | (Inl e, ix') \<Rightarrow> ix' = ix \<and> (\<forall>m. e \<noteq> CorruptIndex m)"
proof -
  obtain r ix' where i: "insert_many row s keys ix = (r, ix')" by fastforce
  show ?thesis
  proof (cases rule: insert_many_cases [OF inv i])
    case (2 p)
    have "map_of (ix_rows ix') = (map_of (ix_rows ix))
        (row \<mapsto> \<lparr>row_keys = prepared_keys p, row_source_order = s\<rparr>)"
      unfolding 2(4) by (simp add: map_of_bmap_insert)
    with 2(1,2) normalised_prepared [OF 2(3)] show ?thesis unfolding i by (simp, blast)
  qed (simp add: i)
qed

lemma update_many_map:
  assumes inv: "index_inv ix"
  shows "case update_many row s keys ix of
      (Inr outcome, ix') \<Rightarrow> outcome \<in> {Updated, Unchanged} \<and> map_of (ix_rows ix) row \<noteq> None \<and>
        (\<exists>ks. normalised (ix_schema ix) keys ks \<and> map_of (ix_rows ix') =
          (map_of (ix_rows ix))(row \<mapsto> \<lparr>row_keys = ks, row_source_order = s\<rparr>))
    | (Inl e, ix') \<Rightarrow> ix' = ix \<and> (\<forall>m. e \<noteq> CorruptIndex m)"
proof -
  obtain r ix' where u: "update_many row s keys ix = (r, ix')" by fastforce
  show ?thesis
  proof (cases rule: update_many_cases [OF inv u])
    case (2 p)
    have "map_of (ix_rows ix') = (map_of (ix_rows ix))
        (row \<mapsto> \<lparr>row_keys = prepared_keys p, row_source_order = s\<rparr>)"
      using 2(3) unfolding 2(4) by (simp add: fun_upd_idem)
    with 2(1,3) normalised_prepared [OF 2(2)] show ?thesis unfolding u by (simp, blast)
  next
    case (3 p previous old)
    have "map_of (ix_rows ix') = (map_of (ix_rows ix))
        (row \<mapsto> \<lparr>row_keys = prepared_keys p, row_source_order = s\<rparr>)"
      unfolding 3(6) by (simp add: replaced_index_def Let_def map_of_bmap_insert)
    with 3(1,3) normalised_prepared [OF 3(2)] show ?thesis unfolding u by (simp, blast)
  qed (simp add: u)
qed

lemma index_remove_map:
  assumes inv: "index_inv ix"
  shows "\<exists>ix'. index_remove row ix =
      (Inr (if map_of (ix_rows ix) row = None then NotFound else Removed), ix') \<and>
      map_of (ix_rows ix') = (map_of (ix_rows ix))(row := None)"
proof (cases "map_of (ix_rows ix) row")
  case None
  then show ?thesis by (auto simp: index_remove_def)
next
  case (Some previous)
  have m: "bmap_inv (ix_rows ix)" using inv by (simp add: index_inv_def)
  obtain p where "index_remove row ix = (Inr Removed, removed_index row previous p ix)"
    using index_remove_inv_eq [OF inv Some] by blast
  with Some show ?thesis by (simp add: removed_index_def map_of_bmap_remove [OF m])
qed

section \<open>Properties\<close>


text \<open>C3 (refinement). On a reachable index the mutations are operations of a finite map from rows to
  their source order and normalised keys (sorted by encoding, one per encoding): insertion adds a row
  that was absent, update replaces a row that was present, removal deletes it. A failed insertion or
  update changes nothing, and no mutation ever reports corruption.\<close>

theorem index_mutations_refine_map:
  assumes "index_reachable plan schema ix"
  shows "(case insert_many row s keys ix of
      (Inr outcome, ix') \<Rightarrow> outcome = Inserted \<and> map_of (ix_rows ix) row = None \<and>
        (\<exists>ks. normalised (ix_schema ix) keys ks \<and> map_of (ix_rows ix') =
          (map_of (ix_rows ix))(row \<mapsto> \<lparr>row_keys = ks, row_source_order = s\<rparr>))
    | (Inl e, ix') \<Rightarrow> ix' = ix \<and> (\<forall>m. e \<noteq> CorruptIndex m)) \<and>
    (case update_many row s keys ix of
      (Inr outcome, ix') \<Rightarrow> outcome \<in> {Updated, Unchanged} \<and> map_of (ix_rows ix) row \<noteq> None \<and>
        (\<exists>ks. normalised (ix_schema ix) keys ks \<and> map_of (ix_rows ix') =
          (map_of (ix_rows ix))(row \<mapsto> \<lparr>row_keys = ks, row_source_order = s\<rparr>))
    | (Inl e, ix') \<Rightarrow> ix' = ix \<and> (\<forall>m. e \<noteq> CorruptIndex m)) \<and>
    (\<exists>ix'. index_remove row ix =
        (Inr (if map_of (ix_rows ix) row = None then NotFound else Removed), ix') \<and>
      map_of (ix_rows ix') = (map_of (ix_rows ix))(row := None))"
proof -
  have inv: "index_inv ix" using index_reachable_inv [OF assms] by simp
  show ?thesis
    using insert_many_map [OF inv] update_many_map [OF inv] index_remove_map [OF inv] by (intro conjI)
qed


definition example_index :: ordered_index where
  "example_index = snd (insert_many 7 10 [[Text [98]], [Text [97]], [Text [98]]]
     (index_new_with_limits 1 [\<lparr>kind = TextKind, direction = Asc\<rparr>] UNBOUNDED_LIMITS))"

lemma example_keys:
  "encode [\<lparr>kind = TextKind, direction = Asc\<rparr>] [Text [97]] = Inr [3, 34, 97, 0, 0]"
  "encode [\<lparr>kind = TextKind, direction = Asc\<rparr>] [Text [98]] = Inr [3, 34, 98, 0, 0]"
  "key_payload_bytes [Text [97]] = 1" "key_payload_bytes [Text [98]] = 1"
  by code_simp+

lemma example_prepared:
  "prepare_row_keys [\<lparr>kind = TextKind, direction = Asc\<rparr>] [[Text [98]], [Text [97]], [Text [98]]] =
     Inr \<lparr>prepared_keys = [[Text [97]], [Text [98]]],
       prepared_encoded = [[3, 34, 97, 0, 0], [3, 34, 98, 0, 0]],
       prepared_encoded_bytes = 10, prepared_structural_bytes = 2\<rparr>"
  by (simp add: prepare_row_keys_def example_keys saturating_add_def usize_to_u64_def)

lemma example_entries:
  "insert_entries 10 7 [[3, 34, 97, 0, 0], [3, 34, 98, 0, 0]] [[3, 34, 97, 0, 0], [3, 34, 98, 0, 0]] [] =
     (Inr (), [entry_row [3, 34, 97, 0, 0] 10 7, entry_row [3, 34, 98, 0, 0] 10 7])"
  by (simp add: Let_def bset_contains_def entry_less_iff)

lemma example_index_eval:
  "ix_entries example_index = [entry_row [3, 34, 97, 0, 0] 10 7, entry_row [3, 34, 98, 0, 0] 10 7]"
  "ix_rows example_index = [(7, \<lparr>row_keys = [[Text [97]], [Text [98]]], row_source_order = 10\<rparr>)]"
  "ix_schema example_index = [\<lparr>kind = TextKind, direction = Asc\<rparr>]"
  by (simp_all add: example_index_def insert_many_def index_new_with_limits_def example_prepared
      example_entries check_projected_resources_def check_resource_def UNBOUNDED_LIMITS_def Let_def
      del: insert_entries.simps)

lemma example_index_reachable:
  "index_reachable 1 [\<lparr>kind = TextKind, direction = Asc\<rparr>] example_index"
proof -
  have "contents_fit example_index"
    by (simp add: contents_fit_def encoded_total_def structural_total_def example_index_eval
        keys_payload_def example_keys)
  then show ?thesis
    unfolding example_index_def by (intro reachable_insert [OF reachable_new]) (auto simp: prod_eq_iff)
qed


theorem index_mutations_refine_map_witness:
  "\<exists>ix'. index_remove 7 example_index = (Inr Removed, ix') \<and> map_of (ix_rows ix') 7 = None"
  using index_mutations_refine_map [OF example_index_reachable, where row = 7]
  by (simp add: example_index_eval) fastforce

end
