(* ===== verification/Access_Stream.thy ===== *)
theory Access_Stream
  imports Ordered_Index
begin

text \<open>The lazy streams over ordered indexes (\<open>index.rs\<close>, the trait \<open>CursorSource\<close>, its four
  sources, \<open>AccessStream\<close> and the queries of \<open>OrderedIndex\<close> that build streams). A boxed trait object
  is a constructor of \<open>cursor_source\<close>; pulling returns the source it leaves, and takes fuel because an
  intersection may turn over its branches many times before it finds a common row.\<close>

section \<open>Sources\<close>

record access_item =
  item_key :: structural_key
  item_source_order :: source_order_token
  item_row_id :: row_id

definition item_cursor_key :: "access_item \<Rightarrow> cursor_key" where
  "item_cursor_key i = \<lparr>cursor_structural_key = item_key i, cursor_source_order = item_source_order i,
     cursor_row_id = item_row_id i\<rparr>"

record candidate =
  order :: entry_order_key
  item :: access_item

datatype base_entries = Range "entry_order_key list" | EmptyEntries

record base_source =
  base_entries :: base_entries
  base_rows :: "(row_id \<times> row_state) list"
  base_schema :: key_schema
  seek_accounted :: bool
  cursor_seek :: bool
  full_scan :: bool
  last_encoded_key :: "bytes option"

datatype cursor_source =
  Base base_source
| Projected cursor_source key_schema nat
| Union "branch list"
| Intersection "branch list"
and branch = Branch (branch_source: cursor_source) (branch_head: "candidate option") (branch_exhausted: bool)

text \<open>The result of a pull: an error, the end, or a candidate.\<close>

type_synonym pulled = "access_error + candidate option"

section \<open>Base source\<close>

definition matching_key :: "key_schema \<Rightarrow> bytes \<Rightarrow> structural_key list \<Rightarrow> structural_key option" where
  "matching_key schema encoded keys = find (\<lambda>key. encode schema key = Inr encoded) keys"

text \<open>The body of \<open>BaseSource::pull\<close> for one entry, after \<open>begin_seek\<close>; the source has already
  advanced past the entry.\<close>

definition base_visit :: "entry_order_key \<Rightarrow> base_source \<Rightarrow> work_tracker \<Rightarrow>
    pulled \<times> base_source \<times> work_tracker" where
  "base_visit entry b w =
     (case row_parts entry of
        None \<Rightarrow> (Inl (CorruptIndex ''access traversal reached a synthetic boundary entry''), b, w)
      | Some (source_order, row) \<Rightarrow>
        (let (visited, b, w) =
           (if last_encoded_key b \<noteq> Some (encoded_key entry)
            then (case visit_key w of
                    (Inl e, w) \<Rightarrow> (Inl e, b, w)
                  | (Inr _, w) \<Rightarrow> (Inr (), b\<lparr>last_encoded_key := Some (encoded_key entry)\<rparr>, w))
            else (Inr (), b, w)) in
         case visited of
           Inl e \<Rightarrow> (Inl (WorkLimit e), b, w)
         | Inr _ \<Rightarrow>
           (case visit_candidate w of
              (Inl e, w) \<Rightarrow> (Inl (WorkLimit e), b, w)
            | (Inr _, w) \<Rightarrow>
              (case map_of (base_rows b) row of
                 None \<Rightarrow> (Inl (CorruptIndex ''index entry references an unknown row identity''), b, w)
               | Some state \<Rightarrow>
                 if row_source_order state \<noteq> source_order
                 then (Inl (CorruptIndex ''index entry has a stale source-order token''), b, w)
                 else (case matching_key (base_schema b) (encoded_key entry) (row_keys state) of
                         None \<Rightarrow> (Inl (CorruptIndex ''index entry has no matching logical row key''), b, w)
                       | Some key \<Rightarrow>
                           (Inr (Some \<lparr>order = entry, item = \<lparr>item_key = key,
                              item_source_order = source_order, item_row_id = row\<rparr>\<rparr>), b, w))))))"

definition base_pull :: "base_source \<Rightarrow> work_tracker \<Rightarrow> pulled \<times> base_source \<times> work_tracker" where
  "base_pull b w =
     (let (sought, b, w) =
        (if \<not> seek_accounted b
         then (case begin_seek (cursor_seek b) (full_scan b) w of
                 (Inl e, w) \<Rightarrow> (Inl e, b, w)
               | (Inr _, w) \<Rightarrow> (Inr (), b\<lparr>seek_accounted := True\<rparr>, w))
         else (Inr (), b, w)) in
      case sought of
        Inl e \<Rightarrow> (Inl (WorkLimit e), b, w)
      | Inr _ \<Rightarrow>
        (case base_entries b of
           EmptyEntries \<Rightarrow> (Inr None, b, w)
         | Range [] \<Rightarrow> (Inr None, b, w)
         | Range (entry # rest) \<Rightarrow> base_visit entry (b\<lparr>base_entries := Range rest\<rparr>) w))"

section \<open>Composite sources\<close>

text \<open>\<open>Branch::fill\<close>, over the pull of the branch's source.\<close>

definition fill :: "(cursor_source \<Rightarrow> work_tracker \<Rightarrow> (pulled \<times> cursor_source \<times> work_tracker) option) \<Rightarrow>
    branch \<Rightarrow> work_tracker \<Rightarrow> ((access_error + unit) \<times> branch \<times> work_tracker) option" where
  "fill p b w =
     (if branch_head b \<noteq> None \<or> branch_exhausted b then Some (Inr (), b, w)
      else case poll_branch w of
        (Inl e, w) \<Rightarrow> Some (Inl (WorkLimit e), b, w)
      | (Inr _, w) \<Rightarrow>
        (case p (branch_source b) w of
           None \<Rightarrow> None
         | Some (Inl e, s, w) \<Rightarrow> Some (Inl e, Branch s (branch_head b) (branch_exhausted b), w)
         | Some (Inr head, s, w) \<Rightarrow> Some (Inr (), Branch s head (head = None), w)))"

fun fill_all :: "(cursor_source \<Rightarrow> work_tracker \<Rightarrow> (pulled \<times> cursor_source \<times> work_tracker) option) \<Rightarrow>
    branch list \<Rightarrow> work_tracker \<Rightarrow> ((access_error + unit) \<times> branch list \<times> work_tracker) option" where
  "fill_all p [] w = Some (Inr (), [], w)"
| "fill_all p (b # bs) w =
     (case fill p b w of
        None \<Rightarrow> None
      | Some (Inl e, b, w) \<Rightarrow> Some (Inl e, b # bs, w)
      | Some (Inr _, b, w) \<Rightarrow>
        (case fill_all p bs w of
           None \<Rightarrow> None
         | Some (r, bs, w) \<Rightarrow> Some (r, b # bs, w)))"

definition heads :: "branch list \<Rightarrow> candidate list" where
  "heads bs = List.map_filter branch_head bs"

text \<open>\<open>min_by\<close> keeps the first of equal elements.\<close>

fun min_by_order :: "candidate list \<Rightarrow> candidate option" where
  "min_by_order [] = None"
| "min_by_order (c # cs) = (case min_by_order cs of
     None \<Rightarrow> Some c
   | Some d \<Rightarrow> Some (if entry_cmp (order d) (order c) = Less then d else c))"

definition max_order :: "candidate list \<Rightarrow> entry_order_key option" where
  "max_order cs = (case cs of [] \<Rightarrow> None | c # cs \<Rightarrow> Some (fold (\<lambda>d m. max m (order d)) cs (order c)))"

definition has_order :: "entry_order_key \<Rightarrow> branch \<Rightarrow> bool" where
  "has_order k b = (case branch_head b of None \<Rightarrow> False | Some c \<Rightarrow> order c = k)"

definition clear_head :: "branch \<Rightarrow> branch" where
  "clear_head b = Branch (branch_source b) None (branch_exhausted b)"

definition drop_order :: "entry_order_key \<Rightarrow> branch \<Rightarrow> branch" where
  "drop_order k b = (if has_order k b then clear_head b else b)"

definition behind :: "entry_order_key \<Rightarrow> branch \<Rightarrow> bool" where
  "behind k b = (case branch_head b of None \<Rightarrow> False | Some c \<Rightarrow> order c < k)"

definition skip_behind :: "entry_order_key \<Rightarrow> branch list \<Rightarrow> work_tracker \<Rightarrow> branch list \<times> work_tracker" where
  "skip_behind k bs w =
     (map (\<lambda>b. if behind k b then clear_head b else b) bs,
      fold (\<lambda>b w. if behind k b then skip_intersection_candidate w else w) bs w)"

definition project_candidate :: "key_schema \<Rightarrow> nat \<Rightarrow> candidate \<Rightarrow> access_error + candidate" where
  "project_candidate schema removed c =
     (if length (item_key (item c)) < removed
      then Inl (CorruptIndex ''projected stream key has fewer components than its schema'')
      else try_res (map_err Key (structural_key_new (drop removed (item_key (item c))))) (\<lambda>key.
           try_res (map_err Key (encode schema key)) (\<lambda>encoded.
             Inr \<lparr>order = entry_row encoded (item_source_order (item c)) (item_row_id (item c)),
                  item = (item c)\<lparr>item_key := key\<rparr>\<rparr>)))"

text \<open>One pull of each source, over the pull of the sources below it (for an intersection also the
  next turn of its own loop).\<close>

fun pull_with :: "(cursor_source \<Rightarrow> work_tracker \<Rightarrow> (pulled \<times> cursor_source \<times> work_tracker) option) \<Rightarrow>
    cursor_source \<Rightarrow> work_tracker \<Rightarrow> (pulled \<times> cursor_source \<times> work_tracker) option" where
  "pull_with p (Base b) w = (let (r, b, w) = base_pull b w in Some (r, Base b, w))"
| "pull_with p (Projected s schema removed) w =
     (case p s w of
        None \<Rightarrow> None
      | Some (Inl e, s, w) \<Rightarrow> Some (Inl e, Projected s schema removed, w)
      | Some (Inr None, s, w) \<Rightarrow> Some (Inr None, Projected s schema removed, w)
      | Some (Inr (Some c), s, w) \<Rightarrow>
          Some (case project_candidate schema removed c of Inl e \<Rightarrow> Inl e | Inr c \<Rightarrow> Inr (Some c),
                Projected s schema removed, w))"
| "pull_with p (Union bs) w =
     (case fill_all p bs w of
        None \<Rightarrow> None
      | Some (Inl e, bs, w) \<Rightarrow> Some (Inl e, Union bs, w)
      | Some (Inr _, bs, w) \<Rightarrow>
        (case min_by_order (heads bs) of
           None \<Rightarrow> Some (Inr None, Union bs, w)
         | Some minimum \<Rightarrow>
           (let duplicates = fold (\<lambda>b n. if has_order (order minimum) b then saturating_add n 1 else n) bs 0 in
            Some (Inr (Some minimum), Union (map (drop_order (order minimum)) bs),
                  skip_union_duplicates (saturating_sub duplicates 1) w))))"
| "pull_with p (Intersection bs) w =
     (case fill_all p bs w of
        None \<Rightarrow> None
      | Some (Inl e, bs, w) \<Rightarrow> Some (Inl e, Intersection bs, w)
      | Some (Inr _, bs, w) \<Rightarrow>
        if list_ex branch_exhausted bs then Some (Inr None, Intersection bs, w)
        else (case max_order (heads bs) of
           None \<Rightarrow> None
         | Some maximum \<Rightarrow>
           if list_all (has_order maximum) bs
           then Some (Inr (branch_head (hd bs)), Intersection (map clear_head bs), w)
           else (let (bs, w) = skip_behind maximum bs w in p (Intersection bs) w)))"

primrec pull :: "nat \<Rightarrow> cursor_source \<Rightarrow> work_tracker \<Rightarrow> (pulled \<times> cursor_source \<times> work_tracker) option" where
  "pull 0 = (\<lambda>_ _. None)"
| "pull (Suc fuel) = pull_with (pull fuel)"

section \<open>Streams\<close>

definition MAX_COMPOSITE_BRANCHES :: nat where "MAX_COMPOSITE_BRANCHES = 64"

record access_stream =
  stream_plan_id :: index_plan_id
  stream_schema :: key_schema
  stream_source :: cursor_source
  terminal :: bool

definition stream_base :: "index_plan_id \<Rightarrow> key_schema \<Rightarrow> base_source \<Rightarrow> access_stream" where
  "stream_base plan schema source = \<lparr>stream_plan_id = plan, stream_schema = schema,
     stream_source = Base source, terminal = False\<rparr>"

definition project_key_prefix :: "nat \<Rightarrow> access_stream \<Rightarrow> access_error + access_stream" where
  "project_key_prefix component_count st =
     (if component_count = 0 then Inr st
      else if component_count > length (stream_schema st)
      then Inl (InvalidProjectionPrefix component_count (length (stream_schema st)))
      else try_res (map_err Key (key_schema_new (drop component_count (stream_schema st)))) (\<lambda>schema.
        Inr \<lparr>stream_plan_id = stream_plan_id st, stream_schema = schema,
             stream_source = Projected (stream_source st) schema component_count,
             terminal = terminal st\<rparr>))"

definition stream_next :: "nat \<Rightarrow> access_stream \<Rightarrow> work_tracker \<Rightarrow>
    ((access_error + access_item option) \<times> access_stream \<times> work_tracker) option" where
  "stream_next fuel st w =
     (if terminal st then Some (Inr None, st, w)
      else case pull fuel (stream_source st) w of
        None \<Rightarrow> None
      | Some (Inr (Some c), s, w) \<Rightarrow>
          (case return_row w of
             (Inl e, w) \<Rightarrow> Some (Inl (WorkLimit e), st\<lparr>stream_source := s, terminal := True\<rparr>, w)
           | (Inr _, w) \<Rightarrow> Some (Inr (Some (item c)), st\<lparr>stream_source := s\<rparr>, w))
      | Some (Inr None, s, w) \<Rightarrow> Some (Inr None, st\<lparr>stream_source := s, terminal := True\<rparr>, w)
      | Some (Inl e, s, w) \<Rightarrow> Some (Inl e, st\<lparr>stream_source := s, terminal := True\<rparr>, w))"

definition compatible_order :: "access_stream list \<Rightarrow> string \<Rightarrow> access_error + (index_plan_id \<times> key_schema)" where
  "compatible_order streams operation =
     (if streams = [] \<or> length streams > MAX_COMPOSITE_BRANCHES
      then Inl (InvalidBranchCount operation (length streams) MAX_COMPOSITE_BRANCHES)
      else let plan = stream_plan_id (hd streams); schema = stream_schema (hd streams) in
        if list_ex (\<lambda>st. stream_plan_id st \<noteq> plan \<or> stream_schema st \<noteq> schema) (tl streams)
        then Inl (IncompatibleStreamSchemas operation) else Inr (plan, schema))"

definition stream_branch :: "access_stream \<Rightarrow> branch" where
  "stream_branch st = Branch (stream_source st) None (terminal st)"

definition stream_union :: "access_stream list \<Rightarrow> access_error + access_stream" where
  "stream_union streams =
     try_res (compatible_order streams ''union'') (\<lambda>(plan, schema).
       Inr \<lparr>stream_plan_id = plan, stream_schema = schema,
            stream_source = Union (map stream_branch streams), terminal = False\<rparr>)"

definition stream_intersection :: "access_stream list \<Rightarrow> access_error + access_stream" where
  "stream_intersection streams =
     try_res (compatible_order streams ''intersection'') (\<lambda>(plan, schema).
       Inr \<lparr>stream_plan_id = plan, stream_schema = schema,
            stream_source = Intersection (map stream_branch streams), terminal = False\<rparr>)"

section \<open>Bounds\<close>

fun bound_value :: "'a bound \<Rightarrow> ('a \<times> bool) option" where
  "bound_value (Included v) = Some (v, True)"
| "bound_value (Excluded v) = Some (v, False)"
| "bound_value Unbounded = None"

definition is_excluded :: "'a bound \<Rightarrow> bool" where
  "is_excluded b = (case b of Excluded _ \<Rightarrow> True | _ \<Rightarrow> False)"

definition stronger_lower_bound ::
    "entry_order_key bound \<Rightarrow> entry_order_key bound \<Rightarrow> entry_order_key bound" where
  "stronger_lower_bound current candidate =
     (case (bound_value current, bound_value candidate) of
        (None, _) \<Rightarrow> candidate
      | (_, None) \<Rightarrow> current
      | (Some (left, _), Some (right, _)) \<Rightarrow>
        (case entry_cmp left right of
           Less \<Rightarrow> candidate
         | Greater \<Rightarrow> current
         | Equal \<Rightarrow>
             if is_excluded current \<or> is_excluded candidate then Excluded left else Included left))"

definition bounds_are_empty :: "entry_order_key bound \<Rightarrow> entry_order_key bound \<Rightarrow> bool" where
  "bounds_are_empty lower upper =
     (case (bound_value lower, bound_value upper) of
        (Some (l, l_inclusive), Some (u, u_inclusive)) \<Rightarrow>
          (case entry_cmp l u of Greater \<Rightarrow> True | Less \<Rightarrow> False
           | Equal \<Rightarrow> \<not> (l_inclusive \<and> u_inclusive))
      | _ \<Rightarrow> False)"

section \<open>Queries\<close>

definition base_source_of :: "ordered_index \<Rightarrow> base_entries \<Rightarrow> bool \<Rightarrow> bool \<Rightarrow> base_source" where
  "base_source_of ix entries cursor full =
     \<lparr>base_entries = entries, base_rows = ix_rows ix, base_schema = ix_schema ix,
      seek_accounted = False, cursor_seek = cursor, full_scan = full, last_encoded_key = None\<rparr>"

definition stream_from_bounds :: "ordered_index \<Rightarrow> entry_order_key bound \<Rightarrow> entry_order_key bound \<Rightarrow>
    cursor_key option \<Rightarrow> bool \<Rightarrow> access_error + access_stream" where
  "stream_from_bounds ix lower upper after full =
     try_res (case after of
         None \<Rightarrow> Inr lower
       | Some cursor \<Rightarrow>
           try_res (map_err Key (encode (ix_schema ix) (cursor_structural_key cursor))) (\<lambda>encoded.
             Inr (stronger_lower_bound lower (Excluded (entry_row encoded
               (cursor_source_order cursor) (cursor_row_id cursor)))))) (\<lambda>lower.
     Inr (stream_base (ix_plan_id ix) (ix_schema ix) (base_source_of ix
       (if bounds_are_empty lower upper then EmptyEntries
        else Range (bset_range lower upper (ix_entries ix))) (after \<noteq> None) full)))"

definition empty_stream :: "ordered_index \<Rightarrow> cursor_key option \<Rightarrow> access_stream" where
  "empty_stream ix after =
     stream_base (ix_plan_id ix) (ix_schema ix) (base_source_of ix EmptyEntries (after \<noteq> None) False)"

definition scan :: "ordered_index \<Rightarrow> cursor_key option \<Rightarrow> access_error + access_stream" where
  "scan ix after = stream_from_bounds ix Unbounded Unbounded after True"

definition ordered_start :: "ordered_index \<Rightarrow> cursor_key option \<Rightarrow> access_error + access_stream" where
  "ordered_start ix after = stream_from_bounds ix Unbounded Unbounded after False"

definition exact :: "ordered_index \<Rightarrow> structural_key \<Rightarrow> cursor_key option \<Rightarrow> access_error + access_stream" where
  "exact ix key after =
     try_res (map_err Key (encode (ix_schema ix) key)) (\<lambda>encoded.
       stream_from_bounds ix (Included (entry_before encoded)) (Included (entry_after encoded)) after False)"

definition prefix_upper :: "bytes \<Rightarrow> entry_order_key bound" where
  "prefix_upper encoded_prefix =
     (case lexicographic_successor encoded_prefix of
        None \<Rightarrow> Unbounded | Some successor \<Rightarrow> Excluded (entry_before successor))"

definition key_prefix :: "ordered_index \<Rightarrow> structural_value list \<Rightarrow> cursor_key option \<Rightarrow>
    access_error + access_stream" where
  "key_prefix ix leading after =
     try_res (map_err Key (encode_structural_prefix (ix_schema ix) leading)) (\<lambda>encoded_prefix.
       stream_from_bounds ix (Included (entry_before encoded_prefix)) (prefix_upper encoded_prefix) after False)"

definition text_prefix :: "ordered_index \<Rightarrow> structural_value list \<Rightarrow> bytes \<Rightarrow> cursor_key option \<Rightarrow>
    access_error + access_stream" where
  "text_prefix ix leading text after =
     try_res (map_err Key (encode_text_prefix (ix_schema ix) leading text)) (\<lambda>encoded_prefix.
       stream_from_bounds ix (Included (entry_before encoded_prefix)) (prefix_upper encoded_prefix) after False)"

text \<open>The bounds of \<open>component_range\<close>: an encoded component prefix and whether it is inclusive.\<close>

definition encode_component_bound :: "key_schema \<Rightarrow> structural_value list \<Rightarrow> structural_value bound \<Rightarrow>
    access_error + (bytes \<times> bool) option" where
  "encode_component_bound schema leading b =
     (case bound_value b of
        None \<Rightarrow> Inr None
      | Some (v, inclusive) \<Rightarrow>
          try_res (map_err Key (encode_component_prefix schema leading v)) (\<lambda>encoded.
            Inr (Some (encoded, inclusive))))"

definition component_range :: "ordered_index \<Rightarrow> structural_value list \<Rightarrow> structural_value bound \<Rightarrow>
    structural_value bound \<Rightarrow> cursor_key option \<Rightarrow> access_error + access_stream" where
  "component_range ix leading lower upper after =
     try_res (encode_component_bound (ix_schema ix) leading lower) (\<lambda>encoded_lower.
     try_res (encode_component_bound (ix_schema ix) leading upper) (\<lambda>encoded_upper.
       if (case (encoded_lower, encoded_upper) of
             (Some (l, l_inclusive), Some (u, u_inclusive)) \<Rightarrow>
               l > u \<or> (l = u \<and> \<not> (l_inclusive \<and> u_inclusive))
           | _ \<Rightarrow> False)
       then Inr (empty_stream ix after)
       else
         (let upper = (case encoded_upper of
                Some (encoded, True) \<Rightarrow> prefix_upper encoded
              | Some (encoded, False) \<Rightarrow> Excluded (entry_before encoded)
              | None \<Rightarrow> Unbounded) in
          case encoded_lower of
            Some (encoded, True) \<Rightarrow>
              stream_from_bounds ix (Included (entry_before encoded)) upper after False
          | Some (encoded, False) \<Rightarrow>
              (case lexicographic_successor encoded of
                 None \<Rightarrow> Inr (empty_stream ix after)
               | Some successor \<Rightarrow>
                   stream_from_bounds ix (Included (entry_before successor)) upper after False)
          | None \<Rightarrow> stream_from_bounds ix Unbounded upper after False)))"

definition encode_lower_bound :: "key_schema \<Rightarrow> structural_key bound \<Rightarrow>
    access_error + (entry_order_key bound \<times> bytes option)" where
  "encode_lower_bound schema b =
     (case b of
        Included key \<Rightarrow> try_res (map_err Key (encode schema key)) (\<lambda>encoded.
          Inr (Included (entry_before encoded), Some encoded))
      | Excluded key \<Rightarrow> try_res (map_err Key (encode schema key)) (\<lambda>encoded.
          Inr (Excluded (entry_after encoded), Some encoded))
      | Unbounded \<Rightarrow> Inr (Unbounded, None))"

definition encode_upper_bound :: "key_schema \<Rightarrow> structural_key bound \<Rightarrow>
    access_error + (entry_order_key bound \<times> bytes option)" where
  "encode_upper_bound schema b =
     (case b of
        Included key \<Rightarrow> try_res (map_err Key (encode schema key)) (\<lambda>encoded.
          Inr (Included (entry_after encoded), Some encoded))
      | Excluded key \<Rightarrow> try_res (map_err Key (encode schema key)) (\<lambda>encoded.
          Inr (Excluded (entry_before encoded), Some encoded))
      | Unbounded \<Rightarrow> Inr (Unbounded, None))"

definition index_range :: "ordered_index \<Rightarrow> structural_key bound \<Rightarrow> structural_key bound \<Rightarrow>
    cursor_key option \<Rightarrow> access_error + access_stream" where
  "index_range ix start finish after =
     try_res (encode_lower_bound (ix_schema ix) start) (\<lambda>(lower, lower_key).
     try_res (encode_upper_bound (ix_schema ix) finish) (\<lambda>(upper, upper_key).
       if (case (lower_key, upper_key) of (Some l, Some u) \<Rightarrow> l > u | _ \<Rightarrow> False)
       then Inl InvalidDirectedRange
       else stream_from_bounds ix lower upper after (lower_key = None \<and> upper_key = None)))"

definition key_matches_prefix :: "ordered_index \<Rightarrow> structural_key \<Rightarrow> structural_value list \<Rightarrow>
    access_error + bool" where
  "key_matches_prefix ix key leading =
     try_res (map_err Key (encode (ix_schema ix) key)) (\<lambda>encoded.
     try_res (map_err Key (encode_structural_prefix (ix_schema ix) leading)) (\<lambda>p.
       Inr (prefix p encoded)))"

definition key_matches_text_prefix :: "ordered_index \<Rightarrow> structural_key \<Rightarrow> structural_value list \<Rightarrow> bytes \<Rightarrow>
    access_error + bool" where
  "key_matches_text_prefix ix key leading text =
     try_res (map_err Key (encode (ix_schema ix) key)) (\<lambda>encoded.
     try_res (map_err Key (encode_text_prefix (ix_schema ix) leading text)) (\<lambda>p.
       Inr (prefix p encoded)))"

definition key_matches_component_range :: "ordered_index \<Rightarrow> structural_key \<Rightarrow> structural_value list \<Rightarrow>
    structural_value bound \<Rightarrow> structural_value bound \<Rightarrow> access_error + bool" where
  "key_matches_component_range ix key leading lower upper =
     try_res (map_err Key (encode (ix_schema ix) key)) (\<lambda>encoded.
     try_res (map_err Key (encode_structural_prefix (ix_schema ix) leading)) (\<lambda>leading_prefix.
       if \<not> prefix leading_prefix encoded then Inr False
       else
         try_res (case lower of
             Included v \<Rightarrow> try_res (map_err Key (encode_component_prefix (ix_schema ix) leading v))
               (\<lambda>b. Inr (encoded \<ge> b))
           | Excluded v \<Rightarrow> try_res (map_err Key (encode_component_prefix (ix_schema ix) leading v))
               (\<lambda>b. Inr (case lexicographic_successor b of None \<Rightarrow> False | Some s \<Rightarrow> encoded \<ge> s))
           | Unbounded \<Rightarrow> Inr True) (\<lambda>lower_matches.
         try_res (case upper of
             Included v \<Rightarrow> try_res (map_err Key (encode_component_prefix (ix_schema ix) leading v))
               (\<lambda>b. Inr (case lexicographic_successor b of None \<Rightarrow> True | Some s \<Rightarrow> encoded < s))
           | Excluded v \<Rightarrow> try_res (map_err Key (encode_component_prefix (ix_schema ix) leading v))
               (\<lambda>b. Inr (encoded < b))
           | Unbounded \<Rightarrow> Inr True) (\<lambda>upper_matches.
         Inr (lower_matches \<and> upper_matches)))))"

end
