(* ===== verification/Index_Integrity.thy ===== *)
theory Index_Integrity
  imports Ordered_Index
begin

text \<open>The incremental integrity check of an ordered index (\<open>index.rs\<close>, the types
  \<open>OrderedIndexIntegrityTask\<close> and \<open>OrderedIndexIntegrityValidation\<close>): a resumable scan with a step
  budget, in four phases.\<close>

section \<open>Data\<close>

record integrity_report =
  report_logical_rows :: u64
  report_index_entries :: u64
  report_encoded_key_bytes :: u64
  report_structural_key_bytes :: u64
  report_source_order_bytes :: u64
  report_row_identity_bytes :: u64

definition report_payload_bytes :: "integrity_report \<Rightarrow> u64" where
  "report_payload_bytes r =
     saturating_add (saturating_add (saturating_add (report_encoded_key_bytes r)
       (report_structural_key_bytes r)) (report_source_order_bytes r)) (report_row_identity_bytes r)"

datatype integrity_phase = Rows | EntriesPhase | Accounting | Complete

record integrity_progress =
  progress_phase :: integrity_phase
  progress_completed_steps :: u64
  progress_rows_checked :: u64
  progress_entries_checked :: u64
  progress_accounting_entries_checked :: u64
  progress_accounting_rows_checked :: u64
  progress_total_rows :: u64
  progress_total_entries :: u64

datatype validation_phase =
  ValidateRows | ValidateEntries | AccountEntries | AccountRows | ValidationComplete

record validation =
  phase :: validation_phase
  initialized :: bool
  row_cursor :: "row_id option"
  entry_cursor :: "entry_order_key option"
  accounting_entry_cursor :: "entry_order_key option"
  accounting_row_cursor :: "row_id option"
  completed_steps :: u64
  rows_checked :: u64
  entries_checked :: u64
  accounting_entries_checked :: u64
  accounting_rows_checked :: u64
  total_rows :: u64
  total_entries :: u64
  seen_encoded_key_bytes :: u64
  seen_structural_key_bytes :: u64
  expected_entries :: u64

text \<open>The outcome of one turn of the polling loop: \<open>Moved\<close> is a \<open>continue\<close> into the next phase,
  \<open>Stepped\<close> a turn that reaches the budget test, \<open>Finished\<close> the report, \<open>Unreachable\<close> the
  \<open>unreachable!\<close> of the completed phase.\<close>

datatype turn = Moved | Stepped | Finished integrity_report | Unreachable

datatype validation_poll = Pending | Ready integrity_report | UnreachablePoll

section \<open>Operations\<close>

definition validation_new :: "ordered_index \<Rightarrow> validation" where
  "validation_new ix = \<lparr>phase = ValidateRows, initialized = False, row_cursor = None,
     entry_cursor = None, accounting_entry_cursor = None, accounting_row_cursor = None,
     completed_steps = 0, rows_checked = 0, entries_checked = 0, accounting_entries_checked = 0,
     accounting_rows_checked = 0, total_rows = usize_to_u64 (length (ix_rows ix)),
     total_entries = usize_to_u64 (length (ix_entries ix)), seen_encoded_key_bytes = 0,
     seen_structural_key_bytes = 0, expected_entries = 0\<rparr>"

fun progress_phase_of :: "validation_phase \<Rightarrow> integrity_phase" where
  "progress_phase_of ValidateRows = Rows"
| "progress_phase_of ValidateEntries = EntriesPhase"
| "progress_phase_of AccountEntries = Accounting"
| "progress_phase_of AccountRows = Accounting"
| "progress_phase_of ValidationComplete = Complete"

definition validation_progress :: "validation \<Rightarrow> integrity_progress" where
  "validation_progress v = \<lparr>progress_phase = progress_phase_of (phase v),
     progress_completed_steps = completed_steps v, progress_rows_checked = rows_checked v,
     progress_entries_checked = entries_checked v,
     progress_accounting_entries_checked = accounting_entries_checked v,
     progress_accounting_rows_checked = accounting_rows_checked v,
     progress_total_rows = total_rows v, progress_total_entries = total_entries v\<rparr>"

fun rows_after :: "ordered_index \<Rightarrow> row_id option \<Rightarrow> (row_id \<times> row_state) list" where
  "rows_after ix (Some after) = bmap_range (Excluded after) Unbounded (ix_rows ix)"
| "rows_after ix None = ix_rows ix"

fun entries_after :: "ordered_index \<Rightarrow> entry_order_key option \<Rightarrow> entry_order_key list" where
  "entries_after ix (Some after) = bset_range (Excluded after) Unbounded (ix_entries ix)"
| "entries_after ix None = ix_entries ix"

definition first :: "'a list \<Rightarrow> 'a option" where
  "first xs = (case xs of [] \<Rightarrow> None | x # _ \<Rightarrow> Some x)"

definition next_integrity_row :: "ordered_index \<Rightarrow> row_id option \<Rightarrow> (row_id \<times> row_state) option" where
  "next_integrity_row ix after = first (rows_after ix after)"

definition next_integrity_entry ::
    "ordered_index \<Rightarrow> entry_order_key option \<Rightarrow> entry_order_key option" where
  "next_integrity_entry ix after = first (entries_after ix after)"

text \<open>The loop over \<open>state.keys\<close> of the row phase.\<close>

fun check_row_keys :: "ordered_index \<Rightarrow> row_id \<Rightarrow> source_order_token \<Rightarrow> structural_key list \<Rightarrow>
    access_error + unit" where
  "check_row_keys ix row source_order [] = Inr ()"
| "check_row_keys ix row source_order (key # keys) =
     try_res (map_err Key (encode (ix_schema ix) key)) (\<lambda>encoded.
       if \<not> bset_contains (entry_row encoded source_order row) (ix_entries ix)
       then Inl (CorruptIndex ''logical row has no corresponding index entry'')
       else check_row_keys ix row source_order keys)"

definition check_entry :: "ordered_index \<Rightarrow> entry_order_key \<Rightarrow> access_error + unit" where
  "check_entry ix entry =
     (case row_parts entry of
        None \<Rightarrow> Inl (CorruptIndex ''index contains a synthetic boundary entry'')
      | Some (source_order, row) \<Rightarrow>
        (case map_of (ix_rows ix) row of
           None \<Rightarrow> Inl (CorruptIndex ''index entry references an unknown row identity'')
         | Some state \<Rightarrow>
           if \<not> list_ex (\<lambda>key. encode (ix_schema ix) key = Inr (encoded_key entry)) (row_keys state) \<or>
              source_order \<noteq> row_source_order state
           then Inl (CorruptIndex ''index entry disagrees with logical row metadata'')
           else Inr ()))"

definition row_structural_bytes :: "row_state \<Rightarrow> u64" where
  "row_structural_bytes state =
     fold (\<lambda>key total. saturating_add total (key_payload_bytes key)) (row_keys state) 0"

definition validation_finish :: "ordered_index \<Rightarrow> validation \<Rightarrow> access_error + integrity_report" where
  "validation_finish ix v =
     (if seen_encoded_key_bytes v \<noteq> ix_encoded_key_bytes ix \<or>
         seen_structural_key_bytes v \<noteq> ix_structural_key_bytes ix
      then Inl (CorruptIndex ''retained key payload accounting disagrees with index contents'')
      else try_res (check_resource PayloadBytes
             (retained_payload_bytes (total_entries v) (seen_encoded_key_bytes v)
                (seen_structural_key_bytes v)) (max_payload_bytes (ix_limits ix))) (\<lambda>_.
        Inr \<lparr>report_logical_rows = total_rows v, report_index_entries = total_entries v,
             report_encoded_key_bytes = seen_encoded_key_bytes v,
             report_structural_key_bytes = seen_structural_key_bytes v,
             report_source_order_bytes = saturating_mul (total_entries v) IDENTITY_BYTES,
             report_row_identity_bytes = saturating_mul (total_entries v) IDENTITY_BYTES\<rparr>))"

text \<open>One turn of the loop of \<open>poll\<close>: the \<open>match\<close> on the phase.\<close>

definition row_turn :: "ordered_index \<Rightarrow> validation \<Rightarrow> (access_error + turn) \<times> validation" where
  "row_turn ix v =
     (case next_integrity_row ix (row_cursor v) of
        None \<Rightarrow>
          if expected_entries v \<noteq> total_entries v
          then (Inl (CorruptIndex ''logical row key count and index entry count differ''), v)
          else (Inr Moved, v\<lparr>phase := ValidateEntries\<rparr>)
      | Some (row, state) \<Rightarrow>
        (case check_row_keys ix row (row_source_order state) (row_keys state) of
           Inl e \<Rightarrow> (Inl e, v)
         | Inr _ \<Rightarrow> (Inr Stepped, v\<lparr>
             expected_entries := saturating_add (expected_entries v) (usize_to_u64 (length (row_keys state))),
             row_cursor := Some row, rows_checked := saturating_add (rows_checked v) 1\<rparr>)))"

definition entry_turn :: "ordered_index \<Rightarrow> validation \<Rightarrow> (access_error + turn) \<times> validation" where
  "entry_turn ix v =
     (case next_integrity_entry ix (entry_cursor v) of
        None \<Rightarrow> (Inr Moved, v\<lparr>phase := AccountEntries\<rparr>)
      | Some entry \<Rightarrow>
        (case check_entry ix entry of
           Inl e \<Rightarrow> (Inl e, v)
         | Inr _ \<Rightarrow> (Inr Stepped, v\<lparr>entry_cursor := Some entry,
             entries_checked := saturating_add (entries_checked v) 1\<rparr>)))"

definition account_entry_turn :: "ordered_index \<Rightarrow> validation \<Rightarrow> (access_error + turn) \<times> validation" where
  "account_entry_turn ix v =
     (case next_integrity_entry ix (accounting_entry_cursor v) of
        None \<Rightarrow> (Inr Moved, v\<lparr>phase := AccountRows\<rparr>)
      | Some entry \<Rightarrow>
        (let entry_bytes = usize_to_u64 (length (encoded_key entry)) in
         case check_resource EncodedKeyBytes entry_bytes (max_encoded_key_bytes (ix_limits ix)) of
           Inl e \<Rightarrow> (Inl e, v)
         | Inr _ \<Rightarrow> (Inr Stepped, v\<lparr>
             seen_encoded_key_bytes := saturating_add (seen_encoded_key_bytes v) entry_bytes,
             accounting_entry_cursor := Some entry,
             accounting_entries_checked := saturating_add (accounting_entries_checked v) 1\<rparr>)))"

definition account_row_turn :: "ordered_index \<Rightarrow> validation \<Rightarrow> (access_error + turn) \<times> validation" where
  "account_row_turn ix v =
     (case next_integrity_row ix (accounting_row_cursor v) of
        None \<Rightarrow>
          (case validation_finish ix v of
             Inl e \<Rightarrow> (Inl e, v)
           | Inr report \<Rightarrow> (Inr (Finished report), v\<lparr>phase := ValidationComplete\<rparr>))
      | Some (row, state) \<Rightarrow> (Inr Stepped, v\<lparr>
          seen_structural_key_bytes :=
            saturating_add (seen_structural_key_bytes v) (row_structural_bytes state),
          accounting_row_cursor := Some row,
          accounting_rows_checked := saturating_add (accounting_rows_checked v) 1\<rparr>))"

definition poll_turn :: "ordered_index \<Rightarrow> validation \<Rightarrow> (access_error + turn) \<times> validation" where
  "poll_turn ix v =
     (case phase v of
        ValidateRows \<Rightarrow> row_turn ix v
      | ValidateEntries \<Rightarrow> entry_turn ix v
      | AccountEntries \<Rightarrow> account_entry_turn ix v
      | AccountRows \<Rightarrow> account_row_turn ix v
      | ValidationComplete \<Rightarrow> (Inr Unreachable, v))"

section \<open>Progress\<close>

text \<open>What is left of a scan: it shrinks with every turn, so the loops below end.\<close>

definition scan_left :: "ordered_index \<Rightarrow> validation \<Rightarrow> nat" where
  "scan_left ix v =
     (let rows = length (ix_rows ix); entries = length (ix_entries ix) in
      case phase v of
        ValidateRows \<Rightarrow> length (rows_after ix (row_cursor v)) + entries + entries + rows + 4
      | ValidateEntries \<Rightarrow> length (entries_after ix (entry_cursor v)) +
          length (entries_after ix (accounting_entry_cursor v)) +
          length (rows_after ix (accounting_row_cursor v)) + 3
      | AccountEntries \<Rightarrow> length (entries_after ix (accounting_entry_cursor v)) +
          length (rows_after ix (accounting_row_cursor v)) + 2
      | AccountRows \<Rightarrow> length (rows_after ix (accounting_row_cursor v)) + 1
      | ValidationComplete \<Rightarrow> 0)"

lemma length_filter_less:
  "(\<And>x. Q x \<Longrightarrow> P x) \<Longrightarrow> x \<in> set xs \<Longrightarrow> P x \<Longrightarrow> \<not> Q x \<Longrightarrow>
     length (filter Q xs) < length (filter P xs)"
proof (induction xs)
  case (Cons y ys)
  have "length (filter Q ys) \<le> length (filter P ys)"
    using Cons.prems(1) by (induction ys) auto
  with Cons show ?case by auto
qed simp

lemma rows_after_filter: "rows_after ix c = filter (\<lambda>(k, _). c = None \<or> the c < k) (ix_rows ix)"
  by (cases c) (simp_all add: bmap_range_def case_prod_beta')

lemma entries_after_filter: "entries_after ix c = filter (\<lambda>k. c = None \<or> the c < k) (ix_entries ix)"
  by (cases c) (simp_all add: bset_range_def)

lemma first_Some: "first xs = Some x \<Longrightarrow> x \<in> set xs"
  by (cases xs) (auto simp: first_def)

lemma next_row_shrinks:
  assumes "next_integrity_row ix c = Some (row, state)"
  shows "length (rows_after ix (Some row)) < length (rows_after ix c)"
proof -
  have "(row, state) \<in> set (rows_after ix c)"
    using assms unfolding next_integrity_row_def by (rule first_Some)
  then have m: "(row, state) \<in> set (ix_rows ix)" "c = None \<or> the c < row"
    by (auto simp: rows_after_filter)
  show ?thesis
    unfolding rows_after_filter
    by (rule length_filter_less [OF _ m(1)]) (use m(2) in auto)
qed

lemma next_entry_shrinks:
  assumes "next_integrity_entry ix c = Some entry"
  shows "length (entries_after ix (Some entry)) < length (entries_after ix c)"
proof -
  have "entry \<in> set (entries_after ix c)"
    using assms unfolding next_integrity_entry_def by (rule first_Some)
  then have m: "entry \<in> set (ix_entries ix)" "c = None \<or> the c < entry"
    by (auto simp: entries_after_filter)
  show ?thesis
    unfolding entries_after_filter
    by (rule length_filter_less [OF _ m(1)]) (use m(2) in auto)
qed

lemma after_le:
  "length (rows_after ix c) \<le> length (ix_rows ix)"
  "length (entries_after ix d) \<le> length (ix_entries ix)"
  by (simp_all add: rows_after_filter entries_after_filter)

lemma poll_turn_shrinks:
  assumes "poll_turn ix v = (Inr t, v')" and "t = Moved \<or> t = Stepped"
  shows "scan_left ix v' < scan_left ix v"
proof (cases "phase v")
  case ValidateRows
  with assms show ?thesis
    using next_row_shrinks [of ix "row_cursor v"] after_le(1) [of ix "accounting_row_cursor v"]
      after_le(2) [of ix "entry_cursor v"] after_le(2) [of ix "accounting_entry_cursor v"]
    by (fastforce simp: poll_turn_def row_turn_def scan_left_def Let_def split: option.splits sum.splits if_splits)
next
  case ValidateEntries
  with assms show ?thesis
    using next_entry_shrinks [of ix "entry_cursor v"]
    by (auto simp: poll_turn_def entry_turn_def scan_left_def Let_def split: option.splits sum.splits)
next
  case AccountEntries
  with assms show ?thesis
    using next_entry_shrinks [of ix "accounting_entry_cursor v"]
    by (auto simp: poll_turn_def account_entry_turn_def scan_left_def Let_def split: option.splits sum.splits)
next
  case AccountRows
  with assms show ?thesis
    using next_row_shrinks [of ix "accounting_row_cursor v"]
    by (auto simp: poll_turn_def account_row_turn_def scan_left_def Let_def split: option.splits sum.splits)
qed (use assms in \<open>auto simp: poll_turn_def\<close>)

section \<open>Polling\<close>

definition finish_step :: "validation \<Rightarrow> validation" where
  "finish_step v = v\<lparr>completed_steps := saturating_add (completed_steps v) 1\<rparr>"

lemma scan_left_finish_step [simp]: "scan_left ix (finish_step v) = scan_left ix v"
  by (cases "phase v") (simp_all add: finish_step_def scan_left_def Let_def)

function poll_loop :: "ordered_index \<Rightarrow> validation \<Rightarrow> nat \<Rightarrow>
    (access_error + validation_poll) \<times> validation" where
  "poll_loop ix v remaining =
     (case poll_turn ix v of
        (Inl e, v') \<Rightarrow> (Inl e, v')
      | (Inr Moved, v') \<Rightarrow> poll_loop ix v' remaining
      | (Inr (Finished report), v') \<Rightarrow> (Inr (Ready report), v')
      | (Inr Unreachable, v') \<Rightarrow> (Inr UnreachablePoll, v')
      | (Inr Stepped, v') \<Rightarrow>
          if remaining - 1 = 0 then (Inr Pending, finish_step v')
          else poll_loop ix (finish_step v') (remaining - 1))"
  by pat_completeness auto
termination
  by (relation "measure (\<lambda>(ix, v, _). scan_left ix v)") (auto intro: poll_turn_shrinks [OF sym])

declare poll_loop.simps [simp del]

definition validation_poll :: "ordered_index \<Rightarrow> validation \<Rightarrow> nat \<Rightarrow>
    (access_error + validation_poll) \<times> validation" where
  "validation_poll ix v max_steps =
     (if \<not> initialized v
      then case check_resource Entries (total_entries v) (max_entries (ix_limits ix)) of
             Inl e \<Rightarrow> (Inl e, v)
           | Inr _ \<Rightarrow> poll_loop ix (v\<lparr>initialized := True\<rparr>) max_steps
      else poll_loop ix v max_steps)"

lemma poll_loop_turn:
  "poll_turn ix v = (Inl e, w) \<Longrightarrow> poll_loop ix v n = (Inl e, w)"
  "poll_turn ix v = (Inr Moved, w) \<Longrightarrow> poll_loop ix v n = poll_loop ix w n"
  "poll_turn ix v = (Inr (Finished report), w) \<Longrightarrow> poll_loop ix v n = (Inr (Ready report), w)"
  "poll_turn ix v = (Inr Unreachable, w) \<Longrightarrow> poll_loop ix v n = (Inr UnreachablePoll, w)"
  "poll_turn ix v = (Inr Stepped, w) \<Longrightarrow> poll_loop ix v n =
     (if n - 1 = 0 then (Inr Pending, finish_step w) else poll_loop ix (finish_step w) (n - 1))"
  by (subst poll_loop.simps, simp)+

lemma poll_turn_cases:
  obtains e w where "poll_turn ix v = (Inl e, w)"
  | w where "poll_turn ix v = (Inr Moved, w)" and "scan_left ix w < scan_left ix v"
  | w where "poll_turn ix v = (Inr Stepped, w)" and "scan_left ix (finish_step w) < scan_left ix v"
  | report w where "poll_turn ix v = (Inr (Finished report), w)"
  | w where "poll_turn ix v = (Inr Unreachable, w)"
proof -
  obtain t w where t: "poll_turn ix v = (t, w)" by fastforce
  show ?thesis
  proof (cases t)
    case (Inl e)
    with t that(1) show ?thesis by simp
  next
    case (Inr u)
    with t have p: "poll_turn ix v = (Inr u, w)" by simp
    show ?thesis using p poll_turn_shrinks [OF p] that by (cases u) simp_all
  qed
qed

lemma poll_loop_shrinks:
  "poll_loop ix v n = (Inr Pending, v') \<Longrightarrow> scan_left ix v' < scan_left ix v"
proof (induction "scan_left ix v" arbitrary: v n rule: less_induct)
  case less
  show ?case
  proof (cases rule: poll_turn_cases [of ix v])
    case (2 w)
    with less.hyps [of w n] less.prems show ?thesis by (simp add: poll_loop_turn)
  next
    case (3 w)
    with less.hyps [of "finish_step w" "n - 1"] less.prems show ?thesis
      by (auto simp: poll_loop_turn simp del: scan_left_finish_step split: if_splits)
  qed (use less.prems in \<open>simp_all add: poll_loop_turn\<close>)
qed

lemma scan_left_initialized [simp]: "scan_left ix (v\<lparr>initialized := b\<rparr>) = scan_left ix v"
  by (cases "phase v") (simp_all add: scan_left_def Let_def)

lemma validation_poll_shrinks:
  "validation_poll ix v n = (Inr Pending, v') \<Longrightarrow> scan_left ix v' < scan_left ix v"
  using poll_loop_shrinks [of ix v n v'] poll_loop_shrinks [of ix "v\<lparr>initialized := True\<rparr>" n v']
  by (auto simp: validation_poll_def split: if_splits sum.splits)

text \<open>\<open>drain\<close>, the loop behind \<open>validate_integrity\<close>; \<open>None\<close> is a panic.\<close>

function drain_loop :: "ordered_index \<Rightarrow> validation \<Rightarrow> (access_error + integrity_report) option" where
  "drain_loop ix v =
     (case validation_poll ix v (2 ^ 64 - 1) of
        (Inl e, _) \<Rightarrow> Some (Inl e)
      | (Inr Pending, v') \<Rightarrow> drain_loop ix v'
      | (Inr (Ready report), _) \<Rightarrow> Some (Inr report)
      | (Inr UnreachablePoll, _) \<Rightarrow> None)"
  by pat_completeness auto
termination
  by (relation "measure (\<lambda>(ix, v). scan_left ix v)") (auto intro: validation_poll_shrinks [OF sym])

declare drain_loop.simps [simp del]

definition validate_integrity :: "ordered_index \<Rightarrow> (access_error + integrity_report) option" where
  "validate_integrity ix = drain_loop ix (validation_new ix)"

section \<open>Tasks\<close>

record integrity_task =
  task_index :: "ordered_index option"
  task_validation :: validation
  task_failed :: bool

datatype integrity_poll =
  PollPending integrity_progress | PollReady ordered_index integrity_report | PollUnreachable

definition into_integrity_task :: "ordered_index \<Rightarrow> integrity_task" where
  "into_integrity_task ix =
     \<lparr>task_index = Some ix, task_validation = validation_new ix, task_failed = False\<rparr>"

definition task_progress :: "integrity_task \<Rightarrow> integrity_progress" where
  "task_progress task = validation_progress (task_validation task)"

definition task_poll :: "nat \<Rightarrow> integrity_task \<Rightarrow> (access_error + integrity_poll) \<times> integrity_task" where
  "task_poll max_steps task =
     (if max_steps = 0 then (Inl InvalidIntegrityPollBudget, task)
      else if task_failed task \<or> task_index task = None then (Inl CompletedIntegrityTask, task)
      else let ix = the (task_index task) in
        case validation_poll ix (task_validation task) max_steps of
          (Inr Pending, v) \<Rightarrow> (Inr (PollPending (validation_progress v)), task\<lparr>task_validation := v\<rparr>)
        | (Inr (Ready report), v) \<Rightarrow>
            (Inr (PollReady ix report), task\<lparr>task_validation := v, task_index := None\<rparr>)
        | (Inr UnreachablePoll, v) \<Rightarrow> (Inr PollUnreachable, task\<lparr>task_validation := v\<rparr>)
        | (Inl e, v) \<Rightarrow> (Inl e, task\<lparr>task_validation := v, task_failed := True\<rparr>))"

section \<open>The check as one pass over the contents\<close>

text \<open>The reference: each phase as a fold over the rows or entries of the index.\<close>

fun rows_spec :: "ordered_index \<Rightarrow> (row_id \<times> row_state) list \<Rightarrow> u64 \<Rightarrow> access_error + u64" where
  "rows_spec ix [] n = Inr n"
| "rows_spec ix ((row, state) # rest) n =
     try_res (check_row_keys ix row (row_source_order state) (row_keys state)) (\<lambda>_.
       rows_spec ix rest (saturating_add n (usize_to_u64 (length (row_keys state)))))"

fun entries_spec :: "ordered_index \<Rightarrow> entry_order_key list \<Rightarrow> access_error + unit" where
  "entries_spec ix [] = Inr ()"
| "entries_spec ix (entry # rest) = try_res (check_entry ix entry) (\<lambda>_. entries_spec ix rest)"

fun encoded_spec :: "ordered_index \<Rightarrow> entry_order_key list \<Rightarrow> u64 \<Rightarrow> access_error + u64" where
  "encoded_spec ix [] n = Inr n"
| "encoded_spec ix (entry # rest) n =
     try_res (check_resource EncodedKeyBytes (usize_to_u64 (length (encoded_key entry)))
       (max_encoded_key_bytes (ix_limits ix))) (\<lambda>_.
       encoded_spec ix rest (saturating_add n (usize_to_u64 (length (encoded_key entry)))))"

definition structural_spec :: "(row_id \<times> row_state) list \<Rightarrow> u64 \<Rightarrow> u64" where
  "structural_spec rows n = fold (\<lambda>(_, state) n. saturating_add n (row_structural_bytes state)) rows n"

definition report_spec :: "ordered_index \<Rightarrow> u64 \<Rightarrow> u64 \<Rightarrow> access_error + integrity_report" where
  "report_spec ix encoded structural = validation_finish ix ((validation_new ix)
     \<lparr>seen_encoded_key_bytes := encoded, seen_structural_key_bytes := structural\<rparr>)"

definition integrity_spec :: "ordered_index \<Rightarrow> access_error + integrity_report" where
  "integrity_spec ix =
     try_res (check_resource Entries (usize_to_u64 (length (ix_entries ix))) (max_entries (ix_limits ix))) (\<lambda>_.
     try_res (rows_spec ix (ix_rows ix) 0) (\<lambda>n.
     if n \<noteq> usize_to_u64 (length (ix_entries ix))
     then Inl (CorruptIndex ''logical row key count and index entry count differ'')
     else try_res (entries_spec ix (ix_entries ix)) (\<lambda>_.
     try_res (encoded_spec ix (ix_entries ix) 0) (\<lambda>encoded.
     report_spec ix encoded (structural_spec (ix_rows ix) 0)))))"

text \<open>The scan without budget.\<close>

function run_scan :: "ordered_index \<Rightarrow> validation \<Rightarrow> (access_error + integrity_report) option" where
  "run_scan ix v =
     (case poll_turn ix v of
        (Inl e, _) \<Rightarrow> Some (Inl e)
      | (Inr Moved, v') \<Rightarrow> run_scan ix v'
      | (Inr Stepped, v') \<Rightarrow> run_scan ix (finish_step v')
      | (Inr (Finished report), _) \<Rightarrow> Some (Inr report)
      | (Inr Unreachable, _) \<Rightarrow> None)"
  by pat_completeness auto
termination
  by (relation "measure (\<lambda>(ix, v). scan_left ix v)") (auto intro: poll_turn_shrinks [OF sym])

declare run_scan.simps [simp del]

lemma run_scan_turn:
  "poll_turn ix v = (Inl e, w) \<Longrightarrow> run_scan ix v = Some (Inl e)"
  "poll_turn ix v = (Inr Moved, w) \<Longrightarrow> run_scan ix v = run_scan ix w"
  "poll_turn ix v = (Inr Stepped, w) \<Longrightarrow> run_scan ix v = run_scan ix (finish_step w)"
  "poll_turn ix v = (Inr (Finished report), w) \<Longrightarrow> run_scan ix v = Some (Inr report)"
  "poll_turn ix v = (Inr Unreachable, w) \<Longrightarrow> run_scan ix v = None"
  by (subst run_scan.simps, simp)+

text \<open>However a scan is cut into polls, it is the same scan.\<close>

lemma poll_loop_run:
  "run_scan ix v = (case poll_loop ix v n of
     (Inl e, _) \<Rightarrow> Some (Inl e)
   | (Inr Pending, v') \<Rightarrow> run_scan ix v'
   | (Inr (Ready report), _) \<Rightarrow> Some (Inr report)
   | (Inr UnreachablePoll, _) \<Rightarrow> None)"
proof (induction "scan_left ix v" arbitrary: v n rule: less_induct)
  case less
  show ?case
  proof (cases rule: poll_turn_cases [of ix v])
    case (2 w)
    with less.hyps [of w n] show ?thesis by (simp add: poll_loop_turn run_scan_turn)
  next
    case (3 w)
    with less.hyps [of "finish_step w" "n - 1"] show ?thesis
      by (simp add: poll_loop_turn run_scan_turn del: scan_left_finish_step)
  qed (simp_all add: poll_loop_turn run_scan_turn)
qed

lemma poll_loop_initialized:
  "poll_loop ix v n = (r, v') \<Longrightarrow> initialized v' = initialized v"
proof (induction "scan_left ix v" arbitrary: v n rule: less_induct)
  case less
  have keep: "initialized w = initialized v" if "poll_turn ix v = (t, w)" for t w
    using that by (auto simp: poll_turn_def row_turn_def entry_turn_def account_entry_turn_def
        account_row_turn_def Let_def split: validation_phase.splits option.splits sum.splits if_splits)
  show ?case
  proof (cases rule: poll_turn_cases [of ix v])
    case (2 w)
    with less.hyps [of w n] less.prems keep [OF 2(1)] show ?thesis by (simp add: poll_loop_turn)
  next
    case (3 w)
    have f: "initialized (finish_step w) = initialized w" by (simp add: finish_step_def)
    from 3 less.hyps [of "finish_step w" "n - 1"] less.prems keep [OF 3(1)] f show ?thesis
      by (auto simp: poll_loop_turn simp del: scan_left_finish_step split: if_splits)
  qed (use less.prems keep in \<open>auto simp: poll_loop_turn\<close>)
qed

lemma drain_loop_run: "initialized v \<Longrightarrow> drain_loop ix v = run_scan ix v"
proof (induction "scan_left ix v" arbitrary: v rule: less_induct)
  case less
  obtain r v' where p: "poll_loop ix v (2 ^ 64 - 1) = (r, v')" by fastforce
  have d: "drain_loop ix v = (case (r, v') of
        (Inl e, _) \<Rightarrow> Some (Inl e)
      | (Inr Pending, v') \<Rightarrow> drain_loop ix v'
      | (Inr (Ready report), _) \<Rightarrow> Some (Inr report)
      | (Inr UnreachablePoll, _) \<Rightarrow> None)"
    using less.prems by (subst drain_loop.simps) (simp add: validation_poll_def p [simplified])
  have "drain_loop ix v' = run_scan ix v'" if "r = Inr Pending"
    using less.hyps [of v'] poll_loop_shrinks [of ix v "2 ^ 64 - 1" v'] p that less.prems
      poll_loop_initialized [OF p] by simp
  then show ?case
    unfolding d poll_loop_run [of ix v "2 ^ 64 - 1"] p by (auto split: sum.split validation_poll.split)
qed


lemma rows_after_tail:
  assumes "bmap_inv (ix_rows ix)" and "rows_after ix c = (row, state) # rest"
  shows "rows_after ix (Some row) = rest"
proof -
  have row: "(row, state) \<in> set (rows_after ix c)" using assms(2) by simp
  then have "c = None \<or> the c < row" by (auto simp: rows_after_filter)
  then have "rows_after ix (Some row) = filter (\<lambda>(k, _). row < k) (rows_after ix c)"
    unfolding rows_after_filter filter_filter by (intro filter_cong) auto
  also have "\<dots> = filter (\<lambda>(k, _). row < k) rest" using assms(2) by simp
  also have "\<dots> = rest"
  proof -
    have "bmap_inv (rows_after ix c)"
      using assms(1) unfolding rows_after_filter by (simp add: sorted_wrt_map sorted_wrt_filter)
    then show ?thesis using assms(2) by (auto simp: filter_id_conv)
  qed
  finally show ?thesis .
qed

lemma entries_after_tail:
  assumes "bset_inv (ix_entries ix)" and "entries_after ix c = entry # rest"
  shows "entries_after ix (Some entry) = rest"
proof -
  have row: "entry \<in> set (entries_after ix c)" using assms(2) by simp
  then have "c = None \<or> the c < entry" by (auto simp: entries_after_filter)
  then have "entries_after ix (Some entry) = filter ((<) entry) (entries_after ix c)"
    unfolding entries_after_filter filter_filter by (intro filter_cong) auto
  also have "\<dots> = filter ((<) entry) rest" using assms(2) by simp
  also have "\<dots> = rest"
  proof -
    have "bset_inv (entries_after ix c)"
      using assms(1) unfolding entries_after_filter by (simp add: sorted_wrt_filter)
    then show ?thesis using assms(2) by (auto simp: filter_id_conv)
  qed
  finally show ?thesis .
qed

definition account_rows_result ::
    "ordered_index \<Rightarrow> validation \<Rightarrow> u64 \<Rightarrow> (access_error + integrity_report) option" where
  "account_rows_result ix v encoded = Some (validation_finish ix ((validation_new ix)
     \<lparr>total_rows := total_rows v, total_entries := total_entries v, seen_encoded_key_bytes := encoded,
      seen_structural_key_bytes := structural_spec (rows_after ix (accounting_row_cursor v))
        (seen_structural_key_bytes v)\<rparr>))"

lemma validation_finish_cong:
  "total_rows v = total_rows w \<Longrightarrow> total_entries v = total_entries w \<Longrightarrow>
   seen_encoded_key_bytes v = seen_encoded_key_bytes w \<Longrightarrow>
   seen_structural_key_bytes v = seen_structural_key_bytes w \<Longrightarrow>
   validation_finish ix v = validation_finish ix w"
  by (simp add: validation_finish_def)

lemma run_account_rows:
  assumes "bmap_inv (ix_rows ix)"
  shows "phase v = AccountRows \<Longrightarrow> run_scan ix v = account_rows_result ix v (seen_encoded_key_bytes v)"
proof (induction "rows_after ix (accounting_row_cursor v)" arbitrary: v)
  case Nil
  have f: "validation_finish ix v = validation_finish ix ((validation_new ix)
      \<lparr>total_rows := total_rows v, total_entries := total_entries v,
       seen_encoded_key_bytes := seen_encoded_key_bytes v,
       seen_structural_key_bytes := seen_structural_key_bytes v\<rparr>)"
    by (rule validation_finish_cong) simp_all
  have t: "poll_turn ix v = (case validation_finish ix v of Inl e \<Rightarrow> (Inl e, v)
      | Inr report \<Rightarrow> (Inr (Finished report), v\<lparr>phase := ValidationComplete\<rparr>))"
    using Nil by (simp add: poll_turn_def account_row_turn_def next_integrity_row_def first_def)
  show ?case
    unfolding account_rows_result_def Nil.hyps [symmetric] structural_spec_def fold.simps id_apply f [symmetric]
    by (cases "validation_finish ix v") (simp_all add: run_scan_turn t)
next
  case (Cons p rest)
  obtain row state where p: "p = (row, state)" by fastforce
  let ?w = "v\<lparr>seen_structural_key_bytes :=
      saturating_add (seen_structural_key_bytes v) (row_structural_bytes state),
    accounting_row_cursor := Some row,
    accounting_rows_checked := saturating_add (accounting_rows_checked v) 1\<rparr>"
  have t: "poll_turn ix v = (Inr Stepped, ?w)"
    using Cons.prems by (simp add: poll_turn_def account_row_turn_def next_integrity_row_def first_def
        Cons.hyps(2) [symmetric] p)
  have "rest = rows_after ix (accounting_row_cursor (finish_step ?w))"
    using rows_after_tail [OF assms, of "accounting_row_cursor v" row state rest] Cons.hyps(2)
    by (simp add: finish_step_def p)
  then show ?case
    using Cons.hyps(1) [of "finish_step ?w"] Cons.prems Cons.hyps(2) [symmetric]
    by (simp add: run_scan_turn(3) [OF t]) (simp add: finish_step_def account_rows_result_def structural_spec_def p)
qed

definition account_entries_result ::
    "ordered_index \<Rightarrow> validation \<Rightarrow> (access_error + integrity_report) option" where
  "account_entries_result ix v =
     (case encoded_spec ix (entries_after ix (accounting_entry_cursor v)) (seen_encoded_key_bytes v) of
        Inl e \<Rightarrow> Some (Inl e)
      | Inr encoded \<Rightarrow> account_rows_result ix v encoded)"

lemma run_account_entries:
  assumes "bmap_inv (ix_rows ix)" "bset_inv (ix_entries ix)"
  shows "phase v = AccountEntries \<Longrightarrow> run_scan ix v = account_entries_result ix v"
proof (induction "entries_after ix (accounting_entry_cursor v)" arbitrary: v)
  case Nil
  have t: "poll_turn ix v = (Inr Moved, v\<lparr>phase := AccountRows\<rparr>)"
    using Nil by (simp add: poll_turn_def account_entry_turn_def next_integrity_entry_def first_def)
  show ?case
    unfolding run_scan_turn(2) [OF t] account_entries_result_def Nil.hyps [symmetric]
    by (simp add: run_account_rows [OF assms(1)] account_rows_result_def)
next
  case (Cons entry rest)
  let ?b = "usize_to_u64 (length (encoded_key entry))"
  let ?w = "v\<lparr>seen_encoded_key_bytes := saturating_add (seen_encoded_key_bytes v) ?b,
    accounting_entry_cursor := Some entry,
    accounting_entries_checked := saturating_add (accounting_entries_checked v) 1\<rparr>"
  have t: "poll_turn ix v = (case check_resource EncodedKeyBytes ?b (max_encoded_key_bytes (ix_limits ix)) of
      Inl e \<Rightarrow> (Inl e, v) | Inr _ \<Rightarrow> (Inr Stepped, ?w))"
    using Cons.prems by (simp add: poll_turn_def account_entry_turn_def next_integrity_entry_def first_def
        Let_def Cons.hyps(2) [symmetric])
  show ?case
  proof (cases "check_resource EncodedKeyBytes ?b (max_encoded_key_bytes (ix_limits ix))")
    case (Inl e)
    then have "poll_turn ix v = (Inl e, v)" using t by simp
    then show ?thesis
      by (simp add: run_scan_turn account_entries_result_def Cons.hyps(2) [symmetric] Inl)
  next
    case (Inr u)
    then have "poll_turn ix v = (Inr Stepped, ?w)" unfolding t by (simp only: sum.case)
    moreover have n: "\<not> max_encoded_key_bytes (ix_limits ix) < ?b" using Inr by simp
    moreover have "rest = entries_after ix (accounting_entry_cursor (finish_step ?w))"
      using entries_after_tail [OF assms(2), of "accounting_entry_cursor v" entry rest] Cons.hyps(2)
      by (simp add: finish_step_def)
    ultimately show ?thesis
      using Cons.hyps(1) [of "finish_step ?w"] Cons.prems Cons.hyps(2) [symmetric] Inr
      by (simp add: run_scan_turn(3))
        (simp add: finish_step_def account_entries_result_def account_rows_result_def
          check_resource_def n
          split: sum.split)
  qed
qed


definition entries_result :: "ordered_index \<Rightarrow> validation \<Rightarrow> (access_error + integrity_report) option" where
  "entries_result ix v =
     (case entries_spec ix (entries_after ix (entry_cursor v)) of
        Inl e \<Rightarrow> Some (Inl e)
      | Inr _ \<Rightarrow> account_entries_result ix v)"

lemma run_entries:
  assumes "bmap_inv (ix_rows ix)" "bset_inv (ix_entries ix)"
  shows "phase v = ValidateEntries \<Longrightarrow> run_scan ix v = entries_result ix v"
proof (induction "entries_after ix (entry_cursor v)" arbitrary: v)
  case Nil
  have t: "poll_turn ix v = (Inr Moved, v\<lparr>phase := AccountEntries\<rparr>)"
    using Nil by (simp add: poll_turn_def entry_turn_def next_integrity_entry_def first_def)
  show ?case
    unfolding run_scan_turn(2) [OF t] entries_result_def Nil.hyps [symmetric]
    by (simp add: run_account_entries [OF assms] account_entries_result_def account_rows_result_def
        split: sum.split)
next
  case (Cons entry rest)
  let ?w = "v\<lparr>entry_cursor := Some entry, entries_checked := saturating_add (entries_checked v) 1\<rparr>"
  have t: "poll_turn ix v = (case check_entry ix entry of
      Inl e \<Rightarrow> (Inl e, v) | Inr _ \<Rightarrow> (Inr Stepped, ?w))"
    using Cons.prems by (simp add: poll_turn_def entry_turn_def next_integrity_entry_def first_def
        Cons.hyps(2) [symmetric])
  show ?case
  proof (cases "check_entry ix entry")
    case (Inl e)
    then have "poll_turn ix v = (Inl e, v)" using t by simp
    then show ?thesis by (simp add: run_scan_turn entries_result_def Cons.hyps(2) [symmetric] Inl)
  next
    case (Inr u)
    then have "poll_turn ix v = (Inr Stepped, ?w)" using t by simp
    moreover have "rest = entries_after ix (entry_cursor (finish_step ?w))"
      using entries_after_tail [OF assms(2), of "entry_cursor v" entry rest] Cons.hyps(2)
      by (simp add: finish_step_def)
    ultimately show ?thesis
      using Cons.hyps(1) [of "finish_step ?w"] Cons.prems Cons.hyps(2) [symmetric] Inr
      by (simp add: run_scan_turn(3))
        (simp add: finish_step_def entries_result_def account_entries_result_def account_rows_result_def
          split: sum.split)
  qed
qed

definition rows_result :: "ordered_index \<Rightarrow> validation \<Rightarrow> (access_error + integrity_report) option" where
  "rows_result ix v =
     (case rows_spec ix (rows_after ix (row_cursor v)) (expected_entries v) of
        Inl e \<Rightarrow> Some (Inl e)
      | Inr n \<Rightarrow>
          if n \<noteq> total_entries v
          then Some (Inl (CorruptIndex ''logical row key count and index entry count differ''))
          else entries_result ix v)"

lemma run_rows:
  assumes "bmap_inv (ix_rows ix)" "bset_inv (ix_entries ix)"
  shows "phase v = ValidateRows \<Longrightarrow> run_scan ix v = rows_result ix v"
proof (induction "rows_after ix (row_cursor v)" arbitrary: v)
  case Nil
  have t: "poll_turn ix v = (if expected_entries v \<noteq> total_entries v
      then (Inl (CorruptIndex ''logical row key count and index entry count differ''), v)
      else (Inr Moved, v\<lparr>phase := ValidateEntries\<rparr>))"
    using Nil by (simp add: poll_turn_def row_turn_def next_integrity_row_def first_def)
  have e: "entries_result ix (v\<lparr>phase := ValidateEntries\<rparr>) = entries_result ix v"
    by (simp add: entries_result_def account_entries_result_def account_rows_result_def split: sum.split)
  show ?case
    using t run_entries [OF assms, of "v\<lparr>phase := ValidateEntries\<rparr>"]
    by (cases "expected_entries v = total_entries v")
      (simp_all add: run_scan_turn rows_result_def Nil.hyps [symmetric] e)
next
  case (Cons p rest)
  obtain row state where p: "p = (row, state)" by fastforce
  let ?w = "v\<lparr>expected_entries := saturating_add (expected_entries v)
      (usize_to_u64 (length (row_keys state))),
    row_cursor := Some row, rows_checked := saturating_add (rows_checked v) 1\<rparr>"
  have t: "poll_turn ix v = (case check_row_keys ix row (row_source_order state) (row_keys state) of
      Inl e \<Rightarrow> (Inl e, v) | Inr _ \<Rightarrow> (Inr Stepped, ?w))"
    using Cons.prems by (simp add: poll_turn_def row_turn_def next_integrity_row_def first_def
        Cons.hyps(2) [symmetric] p)
  show ?case
  proof (cases "check_row_keys ix row (row_source_order state) (row_keys state)")
    case (Inl e)
    then have "poll_turn ix v = (Inl e, v)" using t by simp
    then show ?thesis by (simp add: run_scan_turn rows_result_def Cons.hyps(2) [symmetric] Inl p)
  next
    case (Inr u)
    then have "poll_turn ix v = (Inr Stepped, ?w)" using t by simp
    moreover have "rest = rows_after ix (row_cursor (finish_step ?w))"
      using rows_after_tail [OF assms(1), of "row_cursor v" row state rest] Cons.hyps(2)
      by (simp add: finish_step_def p)
    ultimately show ?thesis
      using Cons.hyps(1) [of "finish_step ?w"] Cons.prems Cons.hyps(2) [symmetric] Inr
      by (simp add: run_scan_turn(3))
        (simp add: finish_step_def rows_result_def entries_result_def account_entries_result_def
          account_rows_result_def p split: sum.split)
  qed
qed

lemma run_new:
  assumes "bmap_inv (ix_rows ix)" "bset_inv (ix_entries ix)"
    and "check_resource Entries (usize_to_u64 (length (ix_entries ix))) (max_entries (ix_limits ix)) = Inr ()"
  shows "run_scan ix ((validation_new ix)\<lparr>initialized := b\<rparr>) = Some (integrity_spec ix)"
proof -
  have "phase ((validation_new ix)\<lparr>initialized := b\<rparr>) = ValidateRows" by (simp add: validation_new_def)
  then have r: "run_scan ix ((validation_new ix)\<lparr>initialized := b\<rparr>) =
      rows_result ix ((validation_new ix)\<lparr>initialized := b\<rparr>)" by (rule run_rows [OF assms(1,2)])
  show ?thesis
    unfolding r integrity_spec_def assms(3)
    by (simp add: rows_result_def entries_result_def account_entries_result_def account_rows_result_def
        report_spec_def validation_new_def try_res_def split: sum.split)
qed

section \<open>Tasks run to the same result\<close>

text \<open>Polling a task with the given budgets until it stops being pending.\<close>

fun poll_until :: "nat list \<Rightarrow> integrity_task \<Rightarrow> (access_error + integrity_poll) option" where
  "poll_until [] task = None"
| "poll_until (n # ns) task =
     (case task_poll n task of
        (Inr (PollPending _), task') \<Rightarrow> poll_until ns task'
      | (result, _) \<Rightarrow> Some result)"

definition task_result :: "ordered_index \<Rightarrow> (access_error + integrity_report) option \<Rightarrow> access_error + integrity_poll" where
  "task_result ix r = (case r of None \<Rightarrow> Inr PollUnreachable | Some (Inl e) \<Rightarrow> Inl e
     | Some (Inr report) \<Rightarrow> Inr (PollReady ix report))"

lemma poll_until_run:
  assumes "\<forall>n \<in> set ns. 0 < n" "scan_left ix v < length ns" "initialized v"
  shows "poll_until ns \<lparr>task_index = Some ix, task_validation = v, task_failed = False\<rparr> =
    Some (task_result ix (run_scan ix v))"
  using assms
proof (induction ns arbitrary: v)
  case (Cons n ns)
  obtain r w where p: "poll_loop ix v n = (r, w)" by fastforce
  have q: "validation_poll ix v n = (r, w)" using Cons.prems(3) p by (simp add: validation_poll_def)
  show ?case
  proof (cases "r = Inr Pending")
    case True
    then have "scan_left ix w < scan_left ix v" "initialized w"
      using poll_loop_shrinks [of ix v n w] poll_loop_initialized [OF p] p Cons.prems(3) by simp_all
    then have "poll_until ns \<lparr>task_index = Some ix, task_validation = w, task_failed = False\<rparr> =
        Some (task_result ix (run_scan ix w))" using Cons.prems by (intro Cons.IH) simp_all
    moreover have "run_scan ix v = run_scan ix w" using poll_loop_run [of ix v n] p True by simp
    ultimately show ?thesis using Cons.prems(1) q True by (simp add: task_poll_def)
  next
    case False
    then show ?thesis
      using Cons.prems(1) q poll_loop_run [of ix v n] p
      by (auto simp: task_poll_def task_result_def split: sum.split validation_poll.split)
  qed
qed simp

lemma poll_until_init:
  assumes "0 < n"
    and "check_resource Entries (total_entries v) (max_entries (ix_limits ix)) = Inr ()" and "\<not> initialized v"
  shows "poll_until (n # ns) \<lparr>task_index = Some ix, task_validation = v, task_failed = False\<rparr> =
    poll_until (n # ns) \<lparr>task_index = Some ix, task_validation = v\<lparr>initialized := True\<rparr>, task_failed = False\<rparr>"
proof -
  have "validation_poll ix v n = validation_poll ix (v\<lparr>initialized := True\<rparr>) n"
    using assms by (simp add: validation_poll_def check_resource_def not_less [symmetric] split: if_splits)
  then have "task_poll n \<lparr>task_index = Some ix, task_validation = v, task_failed = False\<rparr> =
      task_poll n \<lparr>task_index = Some ix, task_validation = v\<lparr>initialized := True\<rparr>, task_failed = False\<rparr>"
    using assms(1) by (simp add: task_poll_def split: prod.split sum.split validation_poll.split)
  then show ?thesis by simp
qed

lemma scan_left_new: "scan_left ix (validation_new ix) = 2 * (length (ix_rows ix) + length (ix_entries ix)) + 4"
  by (simp add: scan_left_def validation_new_def)

section \<open>Reachable indexes pass\<close>

lemma check_row_keys_ok:
  assumes "index_inv ix" "map_of (ix_rows ix) row = Some state"
  shows "check_row_keys ix row (row_source_order state) (row_keys state) = Inr ()"
proof -
  have sub: "set (row_entries (ix_schema ix) (row, state)) \<subseteq> set (ix_entries ix)"
    by (rule row_entries_subset [OF assms])
  have ok: "\<forall>key \<in> set (row_keys state). encode (ix_schema ix) key = Inr (encoding (ix_schema ix) key)"
    using index_inv_keys_ok [OF assms] by (simp add: keys_ok_def)
  have "check_row_keys ix row (row_source_order state) keys = Inr ()"
    if "set keys \<subseteq> set (row_keys state)" for keys
    using that
  proof (induction keys)
    case (Cons key keys)
    then have "entry_row (encoding (ix_schema ix) key) (row_source_order state) row
        \<in> set (row_entries (ix_schema ix) (row, state))" by (auto simp: row_entries_def)
    with Cons sub ok show ?case by (auto simp: bset_contains_def)
  qed simp
  then show ?thesis by simp
qed

lemma rows_spec_ok:
  assumes "\<forall>p \<in> set rows. check_row_keys ix (fst p) (row_source_order (snd p)) (row_keys (snd p)) = Inr ()"
  shows "rows_spec ix rows n =
    Inr (fold (\<lambda>p n. saturating_add n (usize_to_u64 (length (row_keys (snd p))))) rows n)"
  using assms by (induction ix rows n rule: rows_spec.induct) auto

lemma check_entry_ok:
  assumes "index_inv ix" "entry \<in> set (ix_entries ix)"
  shows "check_entry ix entry = Inr ()"
proof -
  obtain p where p: "p \<in> set (ix_rows ix)" "entry \<in> set (row_entries (ix_schema ix) p)"
    using assms unfolding index_inv_def by blast
  have rp: "row_parts entry = Some (row_source_order (snd p), fst p)" using row_entries_row [OF p(2)] .
  have s: "map_of (ix_rows ix) (fst p) = Some (snd p)"
    using p(1) assms(1) btree_map.items_get [of "ix_rows ix" "fst p" "snd p"] by (simp add: index_inv_def)
  have "list_ex (\<lambda>key. encode (ix_schema ix) key = Inr (encoded_key entry)) (row_keys (snd p))"
    using p(2) index_inv_keys_ok [OF assms(1) s]
    by (auto simp: row_entries_def keys_ok_def list_ex_iff case_prod_beta')
  with rp s show ?thesis by (simp add: check_entry_def)
qed

lemma entries_spec_ok: "\<forall>entry \<in> set entries. check_entry ix entry = Inr () \<Longrightarrow> entries_spec ix entries = Inr ()"
  by (induction entries) auto

lemma encoded_spec_ok:
  "\<forall>entry \<in> set entries. usize_to_u64 (length (encoded_key entry)) \<le> max_encoded_key_bytes (ix_limits ix) \<Longrightarrow>
   encoded_spec ix entries n =
     Inr (fold (\<lambda>entry n. saturating_add n (usize_to_u64 (length (encoded_key entry)))) entries n)"
  by (induction entries arbitrary: n) (auto simp: check_resource_def)

lemma row_count:
  assumes "index_inv ix"
  shows "sum_list (map (\<lambda>p. length (row_keys (snd p))) (ix_rows ix)) = length (ix_entries ix)"
proof -
  have inv: "bset_inv (ix_entries ix)" "bmap_inv (ix_rows ix)" using assms by (simp_all add: index_inv_def)
  have g: "map_of (ix_rows ix) (fst p) = Some (snd p)" if "p \<in> set (ix_rows ix)" for p
    using that inv(2) btree_map.items_get [of "ix_rows ix" "fst p" "snd p"] by simp
  have "card (set (ix_entries ix)) = (\<Sum>p \<in> set (ix_rows ix). card (set (row_entries (ix_schema ix) p)))"
  proof -
    have "set (row_entries (ix_schema ix) p) \<inter> set (row_entries (ix_schema ix) q) = {}"
      if "p \<in> set (ix_rows ix)" "q \<in> set (ix_rows ix)" "p \<noteq> q" for p q
    proof -
      have "fst p \<noteq> fst q" using g [OF that(1)] g [OF that(2)] that(3) by (metis option.inject prod.expand)
      then show ?thesis by (auto dest!: row_entries_row)
    qed
    then show ?thesis using assms by (simp add: index_inv_def card_UN_disjoint)
  qed
  also have "\<dots> = (\<Sum>p \<in> set (ix_rows ix). length (row_keys (snd p)))"
    using assms by (intro sum.cong) (simp_all add: index_inv_def sum_set_row_entries)
  finally show ?thesis
    using btree_set.size_card [OF inv(1)] btree_map.items_distinct [OF inv(2)]
    by (simp add: sum_list_distinct_conv_sum_set)
qed


lemma u64_le_max: "unat (x :: u64) \<le> 2 ^ 64 - 1"
  using unsigned_less [of x, where ?'a = nat] by simp

lemma rows_spec_reachable:
  assumes inv: "index_inv ix"
  shows "rows_spec ix (ix_rows ix) 0 = Inr (usize_to_u64 (length (ix_entries ix)))"
proof -
  have g: "map_of (ix_rows ix) (fst p) = Some (snd p)" if "p \<in> set (ix_rows ix)" for p
    using that inv btree_map.items_get [of "ix_rows ix" "fst p" "snd p"] by (simp add: index_inv_def)
  have "fold (\<lambda>p n. saturating_add n (usize_to_u64 (length (row_keys (snd p))))) (ix_rows ix) 0 =
      usize_to_u64 (length (ix_entries ix))"
    using unat_fold_saturating [of "\<lambda>p. usize_to_u64 (length (row_keys (snd p)))" "ix_rows ix" 0]
    by (intro word_unat_eq_iff [THEN iffD2])
      (simp only: unat_0 add_0 unat_usize_to_u64 min_sum_list_min row_count [OF inv])
  then show ?thesis using g check_row_keys_ok [OF inv] by (subst rows_spec_ok) auto
qed

lemma encoded_spec_reachable:
  assumes inv: "index_inv ix" and lim: "within_resource_limits ix"
  shows "encoded_spec ix (ix_entries ix) 0 = Inr (ix_encoded_key_bytes ix)"
proof -
  have d: "distinct (ix_entries ix)" using inv by (simp add: index_inv_def bset_inv_distinct)
  have u: "unat (ix_encoded_key_bytes ix) = sum_list (map (\<lambda>e. length (encoded_key e)) (ix_entries ix))"
    using inv d by (simp add: index_inv_def encoded_total_def sum_list_distinct_conv_sum_set)
  have "fold (\<lambda>e n. saturating_add n (usize_to_u64 (length (encoded_key e)))) (ix_entries ix) 0 =
      ix_encoded_key_bytes ix"
    using unat_fold_saturating [of "\<lambda>e. usize_to_u64 (length (encoded_key e))" "ix_entries ix" 0]
    by (intro word_unat_eq_iff [THEN iffD2])
      (simp only: unat_0 add_0 unat_usize_to_u64 min_sum_list_min u [symmetric] min.absorb1 u64_le_max)
  then show ?thesis using lim by (subst encoded_spec_ok) (auto simp: within_resource_limits_def)
qed

lemma structural_spec_reachable:
  assumes inv: "index_inv ix"
  shows "structural_spec (ix_rows ix) 0 = ix_structural_key_bytes ix"
proof -
  have d: "distinct (ix_rows ix)" using inv btree_map.items_distinct [of "ix_rows ix"] by (simp add: index_inv_def)
  have r: "unat (row_structural_bytes st) = min (keys_payload (row_keys st)) (2 ^ 64 - 1)" for st
    using unat_fold_saturating [of key_payload_bytes "row_keys st" 0]
    by (simp add: row_structural_bytes_def keys_payload_def)
  have u: "unat (ix_structural_key_bytes ix) = sum_list (map (\<lambda>p. keys_payload (row_keys (snd p))) (ix_rows ix))"
    using inv d by (simp add: index_inv_def structural_total_def sum_list_distinct_conv_sum_set)
  show ?thesis
    using unat_fold_saturating [of "\<lambda>p. row_structural_bytes (snd p)" "ix_rows ix" 0]
    unfolding structural_spec_def case_prod_beta'
    by (intro word_unat_eq_iff [THEN iffD2])
      (simp only: unat_0 add_0 r min_sum_list_min u [symmetric] min.absorb1 u64_le_max)
qed

definition exact_report :: "ordered_index \<Rightarrow> integrity_report" where
  "exact_report ix = \<lparr>report_logical_rows = usize_to_u64 (length (ix_rows ix)),
     report_index_entries = usize_to_u64 (length (ix_entries ix)),
     report_encoded_key_bytes = ix_encoded_key_bytes ix,
     report_structural_key_bytes = ix_structural_key_bytes ix,
     report_source_order_bytes = saturating_mul (usize_to_u64 (length (ix_entries ix))) IDENTITY_BYTES,
     report_row_identity_bytes = saturating_mul (usize_to_u64 (length (ix_entries ix))) IDENTITY_BYTES\<rparr>"

lemma integrity_spec_ok:
  assumes inv: "index_inv ix" and lim: "within_resource_limits ix"
  shows "integrity_spec ix = Inr (exact_report ix)"
proof -
  have "length (ix_entries ix) < 2 ^ 64" using inv by (simp add: index_inv_def)
  then have entries: "check_resource Entries (usize_to_u64 (length (ix_entries ix)))
      (max_entries (ix_limits ix)) = Inr ()"
    using lim by (simp add: within_resource_limits_def word_le_nat_alt unat_usize_to_u64)
  have es: "entries_spec ix (ix_entries ix) = Inr ()" using check_entry_ok [OF inv] by (intro entries_spec_ok) auto
  have "\<not> max_payload_bytes (ix_limits ix) < retained_payload_bytes (usize_to_u64 (length (ix_entries ix)))
      (ix_encoded_key_bytes ix) (ix_structural_key_bytes ix)"
    using lim unfolding within_resource_limits_def payload_bytes_def by (meson leD)
  then show ?thesis
    unfolding integrity_spec_def entries rows_spec_reachable [OF inv] es encoded_spec_reachable [OF inv lim]
      structural_spec_reachable [OF inv]
    by (simp add: report_spec_def validation_finish_def validation_new_def check_resource_def exact_report_def)
qed

lemma drain_new:
  assumes "bmap_inv (ix_rows ix)" "bset_inv (ix_entries ix)"
  shows "validate_integrity ix = Some (integrity_spec ix)"
proof (cases "check_resource Entries (usize_to_u64 (length (ix_entries ix))) (max_entries (ix_limits ix))")
  case (Inl e)
  then show ?thesis
    unfolding validate_integrity_def
    by (subst drain_loop.simps) (simp add: validation_poll_def validation_new_def integrity_spec_def)
next
  case (Inr u)
  have t: "total_entries (validation_new ix) = usize_to_u64 (length (ix_entries ix))"
    "\<not> initialized (validation_new ix)" by (simp_all add: validation_new_def)
  have "validation_poll ix (validation_new ix) n =
      validation_poll ix ((validation_new ix)\<lparr>initialized := True\<rparr>) n" for n
    using Inr t by (simp only: validation_poll_def sum.case if_True simp_thms) simp
  then have "drain_loop ix (validation_new ix) = drain_loop ix ((validation_new ix)\<lparr>initialized := True\<rparr>)"
    by (subst (1 2) drain_loop.simps) simp
  then show ?thesis
    unfolding validate_integrity_def using run_new [OF assms, of True] Inr by (simp add: drain_loop_run)
qed

lemma poll_until_new:
  assumes "bmap_inv (ix_rows ix)" "bset_inv (ix_entries ix)" "\<forall>n \<in> set budgets. 0 < n"
    and "2 * (length (ix_rows ix) + length (ix_entries ix)) + 4 < length budgets"
  shows "poll_until budgets (into_integrity_task ix) = Some (task_result ix (Some (integrity_spec ix)))"
proof -
  obtain n ns where b: "budgets = n # ns" using assms(4) by (cases budgets) auto
  let ?v = "validation_new ix"
  have v: "total_entries ?v = usize_to_u64 (length (ix_entries ix))" "\<not> initialized ?v"
    by (simp_all add: validation_new_def)
  show ?thesis
  proof (cases "check_resource Entries (usize_to_u64 (length (ix_entries ix))) (max_entries (ix_limits ix))")
    case (Inl e)
    have "validation_poll ix ?v n = (Inl e, ?v)" using v Inl by (simp add: validation_poll_def)
    then show ?thesis
      using Inl assms(3) by (simp add: b into_integrity_task_def task_poll_def task_result_def integrity_spec_def)
  next
    case (Inr u)
    have "poll_until budgets (into_integrity_task ix) =
        poll_until budgets \<lparr>task_index = Some ix, task_validation = ?v\<lparr>initialized := True\<rparr>, task_failed = False\<rparr>"
      unfolding b into_integrity_task_def using assms(3) Inr v by (intro poll_until_init) (simp_all add: b)
    also have "\<dots> = Some (task_result ix (run_scan ix (?v\<lparr>initialized := True\<rparr>)))"
      using assms(3,4) by (intro poll_until_run) (simp_all add: scan_left_new)
    finally show ?thesis using run_new [OF assms(1,2), of True] Inr by simp
  qed
qed

section \<open>Properties\<close>

text \<open>C19 (equivalence). Whatever an index holds, as long as its two trees are in order, the
  phase-by-phase scan behind \<open>validate_integrity\<close> ends and returns what one pass over rows and
  entries returns: the first violation in scan order, or the report.\<close>

theorem validate_integrity_one_pass:
  assumes "bmap_inv (ix_rows ix)" and "bset_inv (ix_entries ix)"
  shows "validate_integrity ix = Some (integrity_spec ix)"
  using assms by (rule drain_new)

text \<open>C20 (liveness). However an integrity task is cut into polls, it finishes: with positive budgets,
  at most \<open>2 * (rows + entries) + 5\<close> polls reach the result of the undivided scan, and a task that
  is ready hands its index back unchanged.\<close>

theorem integrity_task_finishes:
  assumes "bmap_inv (ix_rows ix)" and "bset_inv (ix_entries ix)" and "\<forall>n \<in> set budgets. 0 < n"
    and "2 * (length (ix_rows ix) + length (ix_entries ix)) + 4 < length budgets"
  shows "poll_until budgets (into_integrity_task ix) =
    Some (case validate_integrity ix of
       Some (Inr report) \<Rightarrow> Inr (PollReady ix report) | Some (Inl e) \<Rightarrow> Inl e | None \<Rightarrow> Inr PollUnreachable)"
  using poll_until_new [OF assms] drain_new [OF assms(1,2)] by (simp add: task_result_def)

text \<open>C6 (safety). Every reachable index passes its integrity check, with a report of exactly its rows,
  entries and retained bytes.\<close>

theorem reachable_index_passes_integrity:
  assumes "index_reachable plan schema ix"
  shows "validate_integrity ix = Some (Inr (exact_report ix)) \<and>
    unat (report_encoded_key_bytes (exact_report ix)) = encoded_total ix \<and>
    unat (report_structural_key_bytes (exact_report ix)) = structural_total ix"
proof -
  have inv: "index_inv ix" "within_resource_limits ix" using index_reachable_inv [OF assms] by simp_all
  then show ?thesis
    using drain_new [of ix] integrity_spec_ok [OF inv] by (simp add: index_inv_def exact_report_def)
qed

theorem reachable_index_passes_integrity_witness:
  "validate_integrity example_index = Some (Inr (exact_report example_index))"
  using reachable_index_passes_integrity [OF example_index_reachable] by simp

lemma example_sorted: "bmap_inv (ix_rows example_index)" "bset_inv (ix_entries example_index)"
  using index_reachable_inv [OF example_index_reachable] by (simp_all add: index_inv_def)

theorem validate_integrity_one_pass_witness:
  "validate_integrity (example_index\<lparr>ix_entries := []\<rparr>) =
     Some (Inl (CorruptIndex ''logical row has no corresponding index entry''))"
proof -
  let ?ix = "example_index\<lparr>ix_entries := []\<rparr>"
  have s: "bmap_inv (ix_rows ?ix)" "bset_inv (ix_entries ?ix)" using example_sorted by simp_all
  have "integrity_spec ?ix = Inl (CorruptIndex ''logical row has no corresponding index entry'')"
    by (simp add: integrity_spec_def check_resource_def usize_to_u64_def example_index_eval example_keys
        bset_contains_def)
  then show ?thesis using validate_integrity_one_pass [OF s] by simp
qed

theorem integrity_task_finishes_witness:
  "poll_until (replicate 11 1) (into_integrity_task example_index) =
     Some (Inr (PollReady example_index (exact_report example_index)))"
proof -
  have v: "validate_integrity example_index = Some (Inr (exact_report example_index))"
    using drain_new [OF example_sorted] integrity_spec_ok index_reachable_inv [OF example_index_reachable] by simp
  have l: "2 * (length (ix_rows example_index) + length (ix_entries example_index)) + 4 <
      length (replicate 11 (1 :: nat))" by (simp add: example_index_eval)
  show ?thesis using integrity_task_finishes [OF example_sorted _ l] v by simp
qed

end
