(* ===== verification/Bits.thy ===== *)
theory Bits
  imports Exact_Number
begin

text \<open>
  The fixed-width raw bit sequences of \<open>boon_data\<close> (\<open>crates/boon_data/src/bits.rs\<close>): canonical
  big-endian storage, reading and writing of bits and slices, bitwise operations, shifts and
  rotations, width changes, wrapping, widening and checked arithmetic, conversions to and from
  exact numbers, bytes and digit strings, and the total order. \<open>BigUint\<close> is \<^typ>\<open>nat\<close>, \<open>BigInt\<close> is
  \<^typ>\<open>int\<close>, \<open>usize\<close> is \<^typ>\<open>nat\<close>, widths are \<open>u32\<close>. The panics of the source (an \<open>expect\<close> on the
  first bit, a remainder by a zero width) are the error \<open>BitsPanic\<close>, and a property states
  that canonical values never reach it. Error texts are constructors carrying the numbers the
  messages print.
\<close>

section \<open>Data\<close>

definition MAX_BITS_WIDTH :: u32 where
  "MAX_BITS_WIDTH = 1048576"

datatype bits_direction = BitsLeft | BitsRight

datatype bits_interpretation = BitsUnsigned | TwosComplement

datatype bits_byte_order = BigEndian | LittleEndian

datatype bits_arithmetic_failure = BitsUnderflow | BitsOverflow

datatype bits_error =
    ZeroWidth
  | WidthLimit u32
  | CanonicalLength u32 nat nat
  | NonzeroUnusedBits u32
  | ValueTooWide nat u32
  | ByteLengthUnderflow
  | LiteralRadix nat
  | LiteralEmpty
  | LiteralOnlyUnderscores
  | LiteralDigits nat rtext
  | LiteralUndecodable nat rtext
  | FormatRadix nat
  | SliceCountZero
  | SliceOverflow
  | SliceRange nat u32 u32
  | SetSliceOverflow
  | SetSliceRange nat u32 u32
  | ConcatOverflow
  | ExtendWidth string u32 u32
  | TruncateWidth u32 u32
  | UnequalWidths string u32 u32
  | AddWideningOverflow
  | NumberNotWhole
  | NegativeUnsigned
  | SignedMisfit u32
  | TwosComplementMisfit u32
  | NotByteAligned u32
  | PositionZero
  | PositionTooLarge
  | PositionRange nat u32
  | BitsNumber number_error
  | BitsPanic

record bits =
  bits_width :: u32
  bits_bytes :: bytes

section \<open>Widths, positions and masks\<close>

definition validate_width :: "u32 \<Rightarrow> bits_error + unit" where
  "validate_width w =
     (if w = 0 then Inl ZeroWidth else if MAX_BITS_WIDTH < w then Inl (WidthLimit w) else Inr ())"

definition byte_len :: "u32 \<Rightarrow> nat" where
  "byte_len w = (unat w + 7) div 8"

definition checked_position :: "u32 \<Rightarrow> nat \<Rightarrow> bits_error + u32" where
  "checked_position w one_based_position =
     (if one_based_position = 0 then Inl PositionZero
      else if 2 ^ 32 \<le> one_based_position - 1 then Inl PositionTooLarge
      else let zero_based = of_nat (one_based_position - 1) in
        if w \<le> zero_based then Inl (PositionRange one_based_position w) else Inr zero_based)"

definition bit_mask :: "u32 \<Rightarrow> nat" where
  "bit_mask w = push_bit (unat w) 1 - 1"

definition signed_fits :: "u32 \<Rightarrow> int \<Rightarrow> bool" where
  "signed_fits w v =
     (if w = 0 then False
      else let bnd = push_bit (unat (w - 1)) 1 in - bnd \<le> v \<and> v < bnd)"

section \<open>Construction and canonical storage\<close>

definition bits_zero :: "u32 \<Rightarrow> bits_error + bits" where
  "bits_zero w =
     try_res (validate_width w)
       (\<lambda>_. Inr \<lparr>bits_width = w, bits_bytes = replicate (byte_len w) 0\<rparr>)"

definition bits_from_canonical_bytes :: "u32 \<Rightarrow> bytes \<Rightarrow> bits_error + bits" where
  "bits_from_canonical_bytes w bs =
     try_res (validate_width w) (\<lambda>_.
       let expected = byte_len w in
       if length bs \<noteq> expected then Inl (CanonicalLength w expected (length bs))
       else let unused = (8 - w mod 8) mod 8 in
         if unused \<noteq> 0 \<and> (case bs of [] \<Rightarrow> False | b # _ \<Rightarrow> drop_bit (unat (8 - unused)) b \<noteq> 0)
         then Inl (NonzeroUnusedBits w)
         else Inr \<lparr>bits_width = w, bits_bytes = bs\<rparr>)"

definition from_biguint :: "u32 \<Rightarrow> nat \<Rightarrow> bits_error + bits" where
  "from_biguint w v =
     try_res (validate_width w) (\<lambda>_.
       if unat w < bit_length v then Inl (ValueTooWide (bit_length v) w)
       else let expected = byte_len w; encoded = to_bytes_be v in
         if expected < length encoded then Inl ByteLengthUnderflow
         else bits_from_canonical_bytes w
           (replicate (expected - length encoded) 0 @ encoded))"

definition to_biguint :: "bits \<Rightarrow> nat" where
  "to_biguint b = be_nat (bits_bytes b)"

section \<open>Digit strings\<close>

text \<open>A text is its list of code points; \<open>char::to_digit\<close>, \<open>BigUint::parse_bytes\<close> on digits of the
  radix and \<open>to_str_radix\<close> (lower-case digits, most significant first).\<close>

definition to_digit :: "nat \<Rightarrow> nat \<Rightarrow> nat option" where
  "to_digit radix ch =
     (let d = (if 48 \<le> ch \<and> ch \<le> 57 then ch - 48
               else if 97 \<le> ch \<and> ch \<le> 122 then ch - 87
               else if 65 \<le> ch \<and> ch \<le> 90 then ch - 55 else radix)
      in if d < radix then Some d else None)"

fun parse_radix :: "nat \<Rightarrow> nat \<Rightarrow> rtext \<Rightarrow> nat option" where
  "parse_radix radix acc [] = Some acc"
| "parse_radix radix acc (ch # s) =
     (case to_digit radix ch of None \<Rightarrow> None | Some d \<Rightarrow> parse_radix radix (acc * radix + d) s)"

definition parse_bytes :: "rtext \<Rightarrow> nat \<Rightarrow> nat option" where
  "parse_bytes s radix = (if s = [] then None else parse_radix radix 0 s)"

definition digit_char :: "nat \<Rightarrow> nat" where
  "digit_char d = (if d < 10 then 48 + d else 87 + d)"

function radix_digits :: "nat \<Rightarrow> nat \<Rightarrow> rtext" where
  "radix_digits radix n =
     (if radix < 2 \<or> n < radix then [digit_char n]
      else radix_digits radix (n div radix) @ [digit_char (n mod radix)])"
  by pat_completeness auto
termination
  by (relation "measure snd") auto

declare radix_digits.simps [simp del]

definition parse_encoded :: "u32 \<Rightarrow> nat \<Rightarrow> rtext \<Rightarrow> bits_error + bits" where
  "parse_encoded w radix digits =
     try_res (validate_width w) (\<lambda>_.
       if \<not> (2 \<le> radix \<and> radix \<le> 36) then Inl (LiteralRadix radix)
       else if digits = [] then Inl LiteralEmpty
       else let normalized = filter (\<lambda>ch. ch \<noteq> 95) digits in
         if normalized = [] then Inl LiteralOnlyUnderscores
         else if \<not> list_all (\<lambda>ch. to_digit radix ch \<noteq> None) normalized
           then Inl (LiteralDigits radix digits)
         else try_res (ok_or (LiteralUndecodable radix digits) (parse_bytes normalized radix))
           (from_biguint w))"

definition to_radix_digits :: "bits \<Rightarrow> nat \<Rightarrow> bits_error + rtext" where
  "to_radix_digits b radix =
     (if \<not> (2 \<le> radix \<and> radix \<le> 36) then Inl (FormatRadix radix)
      else Inr (radix_digits radix (to_biguint b)))"

section \<open>Single bits and slices\<close>

definition bit_index :: "bits \<Rightarrow> nat \<Rightarrow> bits_direction \<Rightarrow> bits_error + u32" where
  "bit_index b one_based_position dir =
     try_res (checked_position (bits_width b) one_based_position) (\<lambda>zero_based.
       Inr (case dir of BitsLeft \<Rightarrow> bits_width b - zero_based - 1 | BitsRight \<Rightarrow> zero_based))"

definition bits_bit :: "bits \<Rightarrow> nat \<Rightarrow> bits_direction \<Rightarrow> bits_error + bool" where
  "bits_bit b one_based_position dir =
     try_res (bit_index b one_based_position dir) (\<lambda>i. Inr (bit (to_biguint b) (unat i)))"

definition with_bit :: "bits \<Rightarrow> nat \<Rightarrow> bits_direction \<Rightarrow> bool \<Rightarrow> bits_error + bits" where
  "with_bit b one_based_position dir v =
     try_res (bit_index b one_based_position dir) (\<lambda>i.
       from_biguint (bits_width b)
         (if v then set_bit (unat i) (to_biguint b) else unset_bit (unat i) (to_biguint b)))"

definition bits_slice :: "bits \<Rightarrow> nat \<Rightarrow> u32 \<Rightarrow> bits_error + bits" where
  "bits_slice b one_based_from cnt =
     (if cnt = 0 then Inl SliceCountZero
      else try_res (checked_position (bits_width b) one_based_from) (\<lambda>start.
        try_res (ok_or SliceOverflow (checked_add start cnt)) (\<lambda>upto.
          if bits_width b < upto then Inl (SliceRange one_based_from cnt (bits_width b))
          else let sh = unat (bits_width b - upto) in
            from_biguint cnt (drop_bit sh (to_biguint b) AND bit_mask cnt))))"

definition with_slice :: "bits \<Rightarrow> nat \<Rightarrow> bits \<Rightarrow> bits_error + bits" where
  "with_slice b one_based_from v =
     try_res (checked_position (bits_width b) one_based_from) (\<lambda>start.
       try_res (ok_or SetSliceOverflow (checked_add start (bits_width v))) (\<lambda>upto.
         if bits_width b < upto
         then Inl (SetSliceRange one_based_from (bits_width v) (bits_width b))
         else let sh = unat (bits_width b - upto);
                  range_mask = push_bit sh (bit_mask (bits_width v));
                  full_mask = bit_mask (bits_width b) in
           from_biguint (bits_width b)
             ((to_biguint b AND (full_mask XOR range_mask)) OR push_bit sh (to_biguint v))))"

definition bits_concat :: "bits \<Rightarrow> bits \<Rightarrow> bits_error + bits" where
  "bits_concat b right =
     try_res (ok_or ConcatOverflow (checked_add (bits_width b) (bits_width right))) (\<lambda>w.
       try_res (validate_width w) (\<lambda>_.
         from_biguint w
           (push_bit (unat (bits_width right)) (to_biguint b) OR to_biguint right)))"

section \<open>Bitwise operations, shifts and rotations\<close>

definition same_width :: "bits \<Rightarrow> bits \<Rightarrow> string \<Rightarrow> bits_error + unit" where
  "same_width a b operation =
     (if bits_width a = bits_width b then Inr ()
      else Inl (UnequalWidths operation (bits_width a) (bits_width b)))"

definition bit_and :: "bits \<Rightarrow> bits \<Rightarrow> bits_error + bits" where
  "bit_and a b =
     try_res (same_width a b ''Bits/and'') (\<lambda>_.
       from_biguint (bits_width a) (to_biguint a AND to_biguint b))"

definition bit_or :: "bits \<Rightarrow> bits \<Rightarrow> bits_error + bits" where
  "bit_or a b =
     try_res (same_width a b ''Bits/or'') (\<lambda>_.
       from_biguint (bits_width a) (to_biguint a OR to_biguint b))"

definition bit_xor :: "bits \<Rightarrow> bits \<Rightarrow> bits_error + bits" where
  "bit_xor a b =
     try_res (same_width a b ''Bits/xor'') (\<lambda>_.
       from_biguint (bits_width a) (to_biguint a XOR to_biguint b))"

definition bit_not :: "bits \<Rightarrow> bits_error + bits" where
  "bit_not b = from_biguint (bits_width b) (to_biguint b XOR bit_mask (bits_width b))"

definition logical_shift_left :: "bits \<Rightarrow> nat \<Rightarrow> bits_error + bits" where
  "logical_shift_left b amount =
     (if unat (bits_width b) \<le> amount then bits_zero (bits_width b)
      else from_biguint (bits_width b)
        (push_bit amount (to_biguint b) AND bit_mask (bits_width b)))"

definition logical_shift_right :: "bits \<Rightarrow> nat \<Rightarrow> bits_error + bits" where
  "logical_shift_right b amount =
     (if unat (bits_width b) \<le> amount then bits_zero (bits_width b)
      else from_biguint (bits_width b) (drop_bit amount (to_biguint b)))"

definition to_signed_bigint :: "bits \<Rightarrow> bits_error + int" where
  "to_signed_bigint b =
     (let unsigned = int (to_biguint b) in
      try_res (map_err (\<lambda>_. BitsPanic) (bits_bit b 1 BitsLeft)) (\<lambda>negative.
        Inr (if negative then unsigned - push_bit (unat (bits_width b)) 1 else unsigned)))"

definition from_bigint_twos_complement :: "u32 \<Rightarrow> int \<Rightarrow> bits_error + bits" where
  "from_bigint_twos_complement w v =
     try_res (validate_width w) (\<lambda>_.
       if \<not> signed_fits w v then Inl (TwosComplementMisfit w)
       else let encoded = (if v < 0 then v + push_bit (unat w) 1 else v) in
         from_biguint w (be_nat (to_bytes_be (nat \<bar>encoded\<bar>))))"

definition arithmetic_shift_right :: "bits \<Rightarrow> nat \<Rightarrow> bits_error + bits" where
  "arithmetic_shift_right b amount =
     (if amount = 0 then Inr b
      else try_res (to_signed_bigint b) (\<lambda>signed.
        let shifted = (if unat (bits_width b) \<le> amount then (if signed < 0 then - 1 else 0)
                       else drop_bit amount signed) in
        from_bigint_twos_complement (bits_width b) shifted))"

definition rotate_left :: "bits \<Rightarrow> nat \<Rightarrow> bits_error + bits" where
  "rotate_left b amount0 =
     (if bits_width b = 0 then Inl BitsPanic
      else let w = unat (bits_width b); amount = amount0 mod w; raw = to_biguint b in
        if amount = 0 then Inr b
        else from_biguint (bits_width b)
          ((push_bit amount raw OR drop_bit (w - amount) raw) AND bit_mask (bits_width b)))"

definition rotate_right :: "bits \<Rightarrow> nat \<Rightarrow> bits_error + bits" where
  "rotate_right b amount0 =
     (if bits_width b = 0 then Inl BitsPanic
      else let w = unat (bits_width b); amount = amount0 mod w; raw = to_biguint b in
        if amount = 0 then Inr b
        else from_biguint (bits_width b)
          ((drop_bit amount raw OR push_bit (w - amount) raw) AND bit_mask (bits_width b)))"

section \<open>Width changes and comparison\<close>

definition zero_extend :: "bits \<Rightarrow> u32 \<Rightarrow> bits_error + bits" where
  "zero_extend b new_width =
     (if new_width < bits_width b
      then Inl (ExtendWidth ''Bits/zero_extend'' new_width (bits_width b))
      else from_biguint new_width (to_biguint b))"

definition sign_extend :: "bits \<Rightarrow> u32 \<Rightarrow> bits_error + bits" where
  "sign_extend b new_width =
     (if new_width < bits_width b
      then Inl (ExtendWidth ''Bits/sign_extend'' new_width (bits_width b))
      else try_res (to_signed_bigint b) (from_bigint_twos_complement new_width))"

definition bits_truncate :: "bits \<Rightarrow> u32 \<Rightarrow> bits_error + bits" where
  "bits_truncate b new_width =
     (if new_width = 0 \<or> bits_width b < new_width
      then Inl (TruncateWidth new_width (bits_width b))
      else from_biguint new_width (to_biguint b AND bit_mask new_width))"

definition bits_compare :: "bits \<Rightarrow> bits \<Rightarrow> bits_interpretation \<Rightarrow> bits_error + ordering" where
  "bits_compare a b interpretation' =
     try_res (same_width a b ''Bits/compare'') (\<lambda>_.
       case interpretation' of
         BitsUnsigned \<Rightarrow> Inr (cmp (to_biguint a) (to_biguint b))
       | TwosComplement \<Rightarrow>
           try_res (to_signed_bigint a) (\<lambda>x. try_res (to_signed_bigint b) (\<lambda>y. Inr (cmp x y))))"

section \<open>Arithmetic\<close>

definition add_or_wrap :: "bits \<Rightarrow> bits \<Rightarrow> bits_error + bits" where
  "add_or_wrap a b =
     try_res (same_width a b ''Bits/add_or_wrap'') (\<lambda>_.
       from_biguint (bits_width a) ((to_biguint a + to_biguint b) AND bit_mask (bits_width a)))"

definition add_widening :: "bits \<Rightarrow> bits \<Rightarrow> bits_interpretation \<Rightarrow> bits_error + bits" where
  "add_widening a b interpretation' =
     try_res (same_width a b ''Bits/add_widening'') (\<lambda>_.
       try_res (ok_or AddWideningOverflow (checked_add (bits_width a) 1)) (\<lambda>w.
         try_res (validate_width w) (\<lambda>_.
           case interpretation' of
             BitsUnsigned \<Rightarrow> from_biguint w (to_biguint a + to_biguint b)
           | TwosComplement \<Rightarrow>
               try_res (to_signed_bigint a) (\<lambda>x. try_res (to_signed_bigint b) (\<lambda>y.
                 from_bigint_twos_complement w (x + y))))))"

definition try_add ::
  "bits \<Rightarrow> bits \<Rightarrow> bits_interpretation \<Rightarrow> bits_error + (bits_arithmetic_failure + bits)" where
  "try_add a b interpretation' =
     try_res (same_width a b ''Bits/try_add'') (\<lambda>_.
       case interpretation' of
         BitsUnsigned \<Rightarrow>
           (let v = to_biguint a + to_biguint b in
            if unat (bits_width a) < bit_length v then Inr (Inl BitsOverflow)
            else try_res (from_biguint (bits_width a) v) (\<lambda>r. Inr (Inr r)))
       | TwosComplement \<Rightarrow>
           try_res (to_signed_bigint a) (\<lambda>x. try_res (to_signed_bigint b) (\<lambda>y.
             if \<not> signed_fits (bits_width a) (x + y) then Inr (Inl BitsOverflow)
             else try_res (from_bigint_twos_complement (bits_width a) (x + y))
               (\<lambda>r. Inr (Inr r)))))"

definition subtract_or_wrap :: "bits \<Rightarrow> bits \<Rightarrow> bits_error + bits" where
  "subtract_or_wrap a b =
     try_res (same_width a b ''Bits/subtract_or_wrap'') (\<lambda>_.
       let modulus = push_bit (unat (bits_width a)) (1 :: int);
           difference = int (to_biguint a) - int (to_biguint b);
           wrapped = (difference smod modulus + modulus) smod modulus in
       from_biguint (bits_width a) (be_nat (to_bytes_be (nat \<bar>wrapped\<bar>))))"

definition try_subtract ::
  "bits \<Rightarrow> bits \<Rightarrow> bits_interpretation \<Rightarrow> bits_error + (bits_arithmetic_failure + bits)" where
  "try_subtract a b interpretation' =
     try_res (same_width a b ''Bits/try_subtract'') (\<lambda>_.
       case interpretation' of
         BitsUnsigned \<Rightarrow>
           (if to_biguint a < to_biguint b then Inr (Inl BitsUnderflow)
            else try_res (from_biguint (bits_width a) (to_biguint a - to_biguint b))
              (\<lambda>r. Inr (Inr r)))
       | TwosComplement \<Rightarrow>
           try_res (to_signed_bigint a) (\<lambda>x. try_res (to_signed_bigint b) (\<lambda>y.
             if \<not> signed_fits (bits_width a) (x - y) then Inr (Inl BitsOverflow)
             else try_res (from_bigint_twos_complement (bits_width a) (x - y))
               (\<lambda>r. Inr (Inr r)))))"

section \<open>Numbers and bytes\<close>

definition bits_from_number ::
  "u32 \<Rightarrow> exact_number \<Rightarrow> bits_interpretation \<Rightarrow> bits_error + bits" where
  "bits_from_number w v interpretation' =
     (if \<not> is_whole v then Inl NumberNotWhole
      else try_res (map_err BitsNumber (to_bigint_exact v)) (\<lambda>i.
        case interpretation' of
          BitsUnsigned \<Rightarrow> if i < 0 then Inl NegativeUnsigned else from_biguint w (nat i)
        | TwosComplement \<Rightarrow>
            if \<not> signed_fits w i then Inl (SignedMisfit w)
            else from_bigint_twos_complement w i))"

definition bits_to_number :: "bits \<Rightarrow> bits_interpretation \<Rightarrow> bits_error + exact_number" where
  "bits_to_number b interpretation' =
     try_res (case interpretation' of
         BitsUnsigned \<Rightarrow> Inr (int (to_biguint b))
       | TwosComplement \<Rightarrow> to_signed_bigint b)
       (\<lambda>i. map_err BitsNumber (from_ratio i 1))"

definition bits_to_bytes :: "bits \<Rightarrow> bits_byte_order \<Rightarrow> bits_error + bytes" where
  "bits_to_bytes b byte_order =
     (if bits_width b mod 8 \<noteq> 0 then Inl (NotByteAligned (bits_width b))
      else Inr (case byte_order of
          BigEndian \<Rightarrow> bits_bytes b
        | LittleEndian \<Rightarrow> rev (bits_bytes b)))"

definition bits_from_bytes :: "u32 \<Rightarrow> bytes \<Rightarrow> bits_byte_order \<Rightarrow> bits_error + bits" where
  "bits_from_bytes w bs byte_order =
     try_res (validate_width w) (\<lambda>_.
       if w mod 8 \<noteq> 0 then Inl (NotByteAligned w)
       else bits_from_canonical_bytes w (if byte_order = LittleEndian then rev bs else bs))"

section \<open>Total order and display\<close>

text \<open>The loop of \<open>Ord::cmp\<close> over the remaining positions, most significant first.\<close>

fun bits_cmp_loop :: "bits \<Rightarrow> bits \<Rightarrow> nat list \<Rightarrow> bits_error + ordering" where
  "bits_cmp_loop a b [] = Inr (cmp (bits_width a) (bits_width b))"
| "bits_cmp_loop a b (position # positions) =
     try_res (map_err (\<lambda>_. BitsPanic) (bits_bit a position BitsLeft)) (\<lambda>x.
       try_res (map_err (\<lambda>_. BitsPanic) (bits_bit b position BitsLeft)) (\<lambda>y.
         case cmp x y of Equal \<Rightarrow> bits_cmp_loop a b positions | ord \<Rightarrow> Inr ord))"

definition bits_cmp :: "bits \<Rightarrow> bits \<Rightarrow> bits_error + ordering" where
  "bits_cmp a b = bits_cmp_loop a b [1..<Suc (unat (min (bits_width a) (bits_width b)))]"

definition bits_display :: "bits \<Rightarrow> rtext" where
  "bits_display b =
     (let digits = radix_digits 2 (to_biguint b) in
      map of_char ''BITS['' @ radix_digits 10 (unat (bits_width b)) @ map of_char ''] { 2u''
      @ replicate (unat (bits_width b) - length digits) 48 @ digits @ map of_char '' }'')"

section \<open>Canonical values\<close>

text \<open>A canonical value of width \<open>w\<close> is determined by the natural number below \<open>2 ^ w\<close> that its
  bytes write in base 256.\<close>

abbreviation valid_width :: "u32 \<Rightarrow> bool" where
  "valid_width w \<equiv> w \<noteq> 0 \<and> w \<le> MAX_BITS_WIDTH"

definition bits_of_nat :: "u32 \<Rightarrow> nat \<Rightarrow> bits" where
  "bits_of_nat w v = \<lparr>bits_width = w, bits_bytes = be_fixed (byte_len w) v\<rparr>"

definition canonical_bits :: "bits \<Rightarrow> bool" where
  "canonical_bits b \<longleftrightarrow>
     valid_width (bits_width b) \<and> length (bits_bytes b) = byte_len (bits_width b)
     \<and> to_biguint b < 2 ^ unat (bits_width b)"

lemma validate_width_Inr [simp]: "validate_width w = Inr u \<longleftrightarrow> valid_width w"
  by (auto simp: validate_width_def)

lemma validate_width_ok: "valid_width w \<Longrightarrow> validate_width w = Inr ()"
  by simp

lemma bit_mask_eq: "bit_mask w = mask (unat w)"
  by (simp add: bit_mask_def mask_eq_exp_minus_1)

lemma bits_of_nat_width [simp]: "bits_width (bits_of_nat w v) = w"
  by (simp add: bits_of_nat_def)

lemma pow256: "256 ^ k = (2 :: nat) ^ (8 * k)"
  by (simp add: power_mult)

lemma byte_len_fits: "(2 :: nat) ^ unat w \<le> 256 ^ byte_len w"
  unfolding pow256 byte_len_def by (rule power_increasing) auto

lemma to_biguint_of_nat [simp]: "v < 2 ^ unat w \<Longrightarrow> to_biguint (bits_of_nat w v) = v"
  using byte_len_fits [of w] by (simp add: bits_of_nat_def to_biguint_def be_nat_be_fixed)

lemma canonical_bits_of_nat: "valid_width w \<Longrightarrow> v < 2 ^ unat w \<Longrightarrow> canonical_bits (bits_of_nat w v)"
  by (simp add: canonical_bits_def) (simp add: bits_of_nat_def)

lemma canonical_bits_eq: "canonical_bits b \<Longrightarrow> b = bits_of_nat (bits_width b) (to_biguint b)"
  by (simp add: canonical_bits_def bits_of_nat_def to_biguint_def)
    (metis be_fixed_be_nat bits.surjective old.unit.exhaust)

lemma canonical_bits_cases:
  assumes "canonical_bits b"
  obtains w v where "b = bits_of_nat w v" "valid_width w" "v < 2 ^ unat w"
  using canonical_bits_eq [OF assms] assms unfolding canonical_bits_def by metis

lemma unused_bits:
  "unat ((8 - w mod 8) mod 8 :: u32) = (8 - unat w mod 8) mod 8"
proof -
  have "unat (8 - w mod 8) = 8 - unat w mod 8"
    by (subst unat_sub) (simp_all add: word_le_nat_alt unat_mod)
  then show ?thesis by (simp add: unat_mod)
qed

lemma drop_bit_eq_0_word: "drop_bit n (b :: u8) = 0 \<longleftrightarrow> unat b < 2 ^ n"
proof -
  have "drop_bit n b = 0 \<longleftrightarrow> unat (drop_bit n b) = 0" by (simp add: unat_eq_zero)
  also have "\<dots> \<longleftrightarrow> unat b < 2 ^ n"
    unfolding unsigned_drop_bit_eq by (simp add: drop_bit_eq_div div_eq_0_iff take_bit_nat_eq_self unat_u8_less)
  finally show ?thesis .
qed

lemma be_nat_Cons: "be_nat (b # bs) = unat b * 256 ^ length bs + be_nat bs"
  using be_nat_append [of "[b]" bs] be_nat_snoc [of "[]" b] by simp

lemma high_digit_less:
  assumes "r < (m :: nat)"
  shows "b * m + r < n * m \<longleftrightarrow> b < n"
proof
  assume "b * m + r < n * m"
  then have "b * m < n * m" by linarith
  then show "b < n" by simp
next
  assume "b < n"
  then have "(b + 1) * m \<le> n * m" by (intro mult_right_mono) auto
  then show "b * m + r < n * m" using assms by simp
qed

lemma unused_high_bits:
  assumes "length bs = byte_len w"
  shows "((8 - w mod 8) mod 8 \<noteq> 0 \<and>
      (case bs of [] \<Rightarrow> False | b # _ \<Rightarrow> drop_bit (unat (8 - (8 - w mod 8) mod 8)) b \<noteq> 0))
    \<longleftrightarrow> \<not> be_nat bs < 2 ^ unat w"
proof -
  define q r where "q = unat w div 8" and "r = unat w mod 8"
  have w: "unat w = 8 * q + r" and r: "r < 8" by (simp_all add: q_def r_def)
  have z: "(8 - w mod 8) mod 8 \<noteq> 0 \<longleftrightarrow> r \<noteq> 0"
    unfolding unat_eq_zero [symmetric] unused_bits using r
    by (cases "r = 0") (auto simp flip: r_def)
  have sh: "unat (8 - (8 - w mod 8) mod 8) = r" if "r \<noteq> 0"
    using r that by (subst unat_sub) (simp_all add: word_le_nat_alt unused_bits flip: r_def)
  show ?thesis
  proof (cases "r = 0")
    case True
    then have "length bs = q" using assms w by (simp add: byte_len_def)
    then have "be_nat bs < 2 ^ unat w" using be_nat_less [of bs] True w by (simp add: pow256)
    then show ?thesis using z True by simp
  next
    case False
    then have "length bs = Suc q" using assms w r by (simp add: byte_len_def)
    then obtain b bs' where bs: "bs = b # bs'" "length bs' = q" by (cases bs) auto
    have "be_nat bs < 2 ^ unat w \<longleftrightarrow> unat b < 2 ^ r"
      using be_nat_less [of bs'] high_digit_less [of "be_nat bs'" "256 ^ q" "unat b" "2 ^ r"]
      by (simp add: bs be_nat_Cons w power_add pow256 mult.commute)
    then show ?thesis using z sh False by (simp add: bs drop_bit_eq_0_word)
  qed
qed

lemma from_canonical_ok:
  "bits_from_canonical_bytes w bs = Inr b \<longleftrightarrow>
     canonical_bits b \<and> b = \<lparr>bits_width = w, bits_bytes = bs\<rparr>"
  using unused_high_bits [of bs w]
  by (auto simp: bits_from_canonical_bytes_def Let_def canonical_bits_def to_biguint_def)


lemma length_be_min_le: "length (be_min n) \<le> k \<longleftrightarrow> n < 256 ^ k"
proof (induction n arbitrary: k rule: be_min.induct)
  case (1 n)
  show ?case
  proof (cases "n = 0")
    case False
    show ?thesis
    proof (cases k)
      case 0
      then show ?thesis using False by simp
    next
      case (Suc j)
      have "length (be_min n) \<le> Suc j \<longleftrightarrow> length (be_min (n div 256)) \<le> j"
        using False by (subst be_min.simps) simp
      also have "\<dots> \<longleftrightarrow> n div 256 < 256 ^ j" using 1 False by blast
      also have "\<dots> \<longleftrightarrow> n < 256 ^ Suc j" by (simp add: div_less_iff_less_mult mult.commute)
      finally show ?thesis using Suc by simp
    qed
  qed simp
qed

lemma be_nat_replicate [simp]: "be_nat (replicate k 0 @ bs) = be_nat bs"
proof -
  have "be_nat (replicate k 0) = 0"
    by (induction k) (simp_all add: be_nat_Cons)
  then show ?thesis by (simp add: be_nat_append)
qed

lemma be_nat_to_bytes_be [simp]: "be_nat (to_bytes_be v) = v"
  by (simp add: to_bytes_be_def be_nat_Cons)

lemma to_bytes_be_padded:
  assumes "0 < k" "v < 256 ^ k"
  shows "length (to_bytes_be v) \<le> k"
    and "replicate (k - length (to_bytes_be v)) 0 @ to_bytes_be v = be_fixed k v"
proof -
  show l: "length (to_bytes_be v) \<le> k" using assms by (simp add: to_bytes_be_def length_be_min_le)
  show "replicate (k - length (to_bytes_be v)) 0 @ to_bytes_be v = be_fixed k v"
    by (rule be_nat_inject) (use l assms in \<open>simp_all add: be_nat_be_fixed\<close>)
qed

lemma byte_len_pos: "w \<noteq> 0 \<Longrightarrow> 0 < byte_len w"
  using unat_eq_zero [of w] by (auto simp: byte_len_def div_greater_zero_iff)

lemma from_biguint_eq:
  "from_biguint w v =
     try_res (validate_width w) (\<lambda>_.
       if v < 2 ^ unat w then Inr (bits_of_nat w v) else Inl (ValueTooWide (bit_length v) w))"
proof (cases "valid_width w")
  case False
  then show ?thesis by (auto simp: from_biguint_def validate_width_def)
next
  case True
  show ?thesis
  proof (cases "v < 2 ^ unat w")
    case v: True
    have "v < 256 ^ byte_len w" using v byte_len_fits [of w] by simp
    note pad = to_bytes_be_padded [OF byte_len_pos this]
    have "bits_from_canonical_bytes w (be_fixed (byte_len w) v) = Inr (bits_of_nat w v)"
      unfolding from_canonical_ok using canonical_bits_of_nat [OF True v] by (simp add: bits_of_nat_def)
    then show ?thesis
      using True v pad by (simp add: from_biguint_def validate_width_ok Let_def not_less bit_length_le_iff)
  next
    case False
    then show ?thesis using True
      by (simp add: from_biguint_def validate_width_ok bit_length_le_iff flip: not_le)
  qed
qed

lemma from_biguint_ok:
  "valid_width w \<Longrightarrow> v < 2 ^ unat w \<Longrightarrow> from_biguint w v = Inr (bits_of_nat w v)"
  by (simp add: from_biguint_eq validate_width_ok)

lemma from_biguint_Inr:
  "from_biguint w v = Inr b \<longleftrightarrow> valid_width w \<and> v < 2 ^ unat w \<and> b = bits_of_nat w v"
  by (auto simp: from_biguint_eq)

lemma bits_zero_eq: "bits_zero w = try_res (validate_width w) (\<lambda>_. Inr (bits_of_nat w 0))"
proof -
  have "replicate k 0 = be_fixed k 0" for k
    by (rule be_nat_inject) (use be_nat_replicate [of k "[]"] in \<open>simp_all add: be_nat_be_fixed\<close>)
  then show ?thesis by (simp add: bits_zero_def bits_of_nat_def)
qed


section \<open>Positions and signed values\<close>

lemma unat_u32_less: "unat (w :: u32) < 2 ^ 32"
  using unsigned_less [of w, where ?'a = nat] by simp

lemma checked_position_Inr:
  "checked_position w p = Inr i \<longleftrightarrow> 0 < p \<and> p \<le> unat w \<and> i = of_nat (p - 1)"
proof (cases "0 < p \<and> p - 1 < 2 ^ 32")
  case True
  then have "w \<le> of_nat (p - 1) \<longleftrightarrow> unat w \<le> p - 1"
    by (simp add: word_le_nat_alt unat_of_nat del: of_nat_diff)
  then show ?thesis using True by (auto simp: checked_position_def Let_def simp del: of_nat_diff)
next
  case False
  then show ?thesis using unat_u32_less [of w] by (auto simp: checked_position_def)
qed

lemma unat_position: "p \<le> unat w \<Longrightarrow> unat (of_nat (p - 1) :: u32) = p - 1" for w :: u32
  using unat_u32_less [of w] by (simp add: unat_of_nat del: of_nat_diff)

lemma unat_from_left:
  fixes w :: u32
  assumes "0 < p" "p \<le> unat w"
  shows "unat (w - of_nat (p - 1) - 1) = unat w - p"
proof -
  have "unat (w - of_nat (p - 1)) = unat w - (p - 1)"
    using assms unat_position [OF assms(2)]
    by (subst unat_sub) (simp_all add: word_le_nat_alt del: of_nat_diff)
  then show ?thesis using assms by (subst unat_sub) (simp_all add: word_le_nat_alt)
qed

lemma bits_bit_eq:
  assumes "0 < p" "p \<le> unat (bits_width b)"
  shows "bits_bit b p BitsLeft = Inr (bit (to_biguint b) (unat (bits_width b) - p))"
    and "bits_bit b p BitsRight = Inr (bit (to_biguint b) (p - 1))"
proof -
  have "checked_position (bits_width b) p = Inr (of_nat (p - 1))"
    using assms by (simp add: checked_position_Inr del: of_nat_diff)
  then show "bits_bit b p BitsLeft = Inr (bit (to_biguint b) (unat (bits_width b) - p))"
    and "bits_bit b p BitsRight = Inr (bit (to_biguint b) (p - 1))"
    using unat_from_left [OF assms] unat_position [OF assms(2)]
    by (simp_all add: bits_bit_def bit_index_def del: of_nat_diff)
qed

definition signed_value :: "nat \<Rightarrow> nat \<Rightarrow> int" where
  "signed_value w v = (if v < 2 ^ (w - 1) then int v else int v - 2 ^ w)"

lemma top_bit: "v < 2 ^ Suc n \<Longrightarrow> bit v n \<longleftrightarrow> 2 ^ n \<le> v" for v :: nat
proof -
  assume "v < 2 ^ Suc n"
  then have "v div 2 ^ n < 2" by (simp add: less_mult_imp_div_less)
  then have "odd (v div 2 ^ n) \<longleftrightarrow> v div 2 ^ n \<noteq> 0" by (auto simp: less_2_cases_iff)
  then show ?thesis by (simp add: bit_iff_odd div_eq_0_iff not_less)
qed

lemma unat_pos: "w \<noteq> 0 \<Longrightarrow> 0 < unat w"
  using unat_eq_zero [of w] by auto

lemma to_signed_bigint_eq:
  assumes "w \<noteq> 0" "v < 2 ^ unat w"
  shows "to_signed_bigint (bits_of_nat w v) = Inr (signed_value (unat w) v)"
proof -
  obtain n where n: "unat w = Suc n" using unat_pos [OF assms(1)] gr0_conv_Suc by blast
  show ?thesis using assms n top_bit [of v n]
    by (simp add: to_signed_bigint_def bits_bit_eq signed_value_def Let_def not_le)
qed

lemma signed_fits_eq:
  "signed_fits w i \<longleftrightarrow> w \<noteq> 0 \<and> - (2 ^ (unat w - 1)) \<le> i \<and> i < 2 ^ (unat w - 1)"
proof (cases "w = 0")
  case False
  then have "unat (w - 1) = unat w - 1" by (simp add: unat_minus_one)
  then show ?thesis using False by (simp add: signed_fits_def Let_def)
qed (simp add: signed_fits_def)

lemma signed_value_fits:
  assumes "0 < n" "v < 2 ^ n"
  shows "- (2 ^ (n - 1)) \<le> signed_value n v \<and> signed_value n v < 2 ^ (n - 1)"
proof -
  obtain m where m: "n = Suc m" using assms(1) gr0_conv_Suc by blast
  have "int v < 2 ^ n" using assms(2) by (metis of_nat_less_iff of_nat_numeral of_nat_power)
  moreover have "\<not> v < 2 ^ m \<Longrightarrow> 2 ^ m \<le> int v"
    by (metis not_less of_nat_le_iff of_nat_numeral of_nat_power)
  moreover have "v < 2 ^ m \<Longrightarrow> int v < 2 ^ m"
    by (metis of_nat_less_iff of_nat_numeral of_nat_power)
  moreover have "0 < (2 :: int) ^ m" by simp
  ultimately show ?thesis unfolding signed_value_def m by (simp del: zero_less_power)
qed

lemma from_twos_complement_eq:
  assumes "valid_width w" "signed_fits w i"
  shows "from_bigint_twos_complement w i = Inr (bits_of_nat w (nat (i mod 2 ^ unat w)))"
proof -
  obtain n where n: "unat w = Suc n" using assms(1) unat_pos gr0_conv_Suc by blast
  have i: "- (2 ^ n) \<le> i" "i < 2 ^ n" using assms(2) n by (simp_all add: signed_fits_eq)
  have e: "nat \<bar>if i < 0 then i + 2 ^ unat w else i\<bar> = nat (i mod 2 ^ unat w)"
  proof (cases "i < 0")
    case True
    have "(i + 2 ^ unat w) mod 2 ^ unat w = i + 2 ^ unat w"
      using True i n by (intro mod_pos_pos_trivial) auto
    then show ?thesis using True i n by simp
  next
    case False
    then show ?thesis using i n by (simp add: mod_pos_pos_trivial)
  qed
  have "nat (i mod 2 ^ unat w) < 2 ^ unat w"
    by (simp add: nat_less_iff)
  then show ?thesis
    using assms from_biguint_ok unfolding from_bigint_twos_complement_def Let_def
    by (simp only: validate_width_ok try_res_simps push_bit_of_1 e be_nat_to_bytes_be) simp
qed

lemma from_twos_complement_Inr:
  "from_bigint_twos_complement w i = Inr b \<longleftrightarrow>
     valid_width w \<and> signed_fits w i \<and> b = bits_of_nat w (nat (i mod 2 ^ unat w))"
  using from_twos_complement_eq [of w i]
  by (cases "valid_width w"; cases "signed_fits w i")
    (auto simp: from_bigint_twos_complement_def validate_width_ok)


section \<open>Machine words as bit sequences\<close>

text \<open>A word of any length up to the width ceiling, as the value that stands for it.\<close>

definition bits_of_word :: "'w::len word \<Rightarrow> bits" where
  "bits_of_word x = bits_of_nat (of_nat LENGTH('w)) (unat x)"

abbreviation width_of :: "'w::len itself \<Rightarrow> u32" where
  "width_of _ \<equiv> of_nat LENGTH('w)"

lemma unat_width_of [simp]:
  "LENGTH('w::len) \<le> 1048576 \<Longrightarrow> unat (width_of TYPE('w)) = LENGTH('w)"
  by (simp add: unat_of_nat)

lemma valid_width_of: "LENGTH('w::len) \<le> 1048576 \<Longrightarrow> valid_width (width_of TYPE('w))"
  unfolding MAX_BITS_WIDTH_def word_le_nat_alt unat_eq_zero [symmetric] by simp

lemma bits_width_word [simp]: "bits_width (bits_of_word (x :: 'w::len word)) = width_of TYPE('w)"
  by (simp add: bits_of_word_def)

lemma unat_word_less: "unat x < 2 ^ LENGTH('w)" for x :: "'w::len word"
  using unsigned_less [of x, where ?'a = nat] by simp

lemma to_biguint_word [simp]:
  "LENGTH('w::len) \<le> 1048576 \<Longrightarrow> to_biguint (bits_of_word (x :: 'w word)) = unat x"
  by (simp add: bits_of_word_def unat_word_less)

lemma from_biguint_word:
  assumes "LENGTH('w::len) \<le> 1048576" and "v = unat (x :: 'w word)"
  shows "from_biguint (width_of TYPE('w)) v = Inr (bits_of_word x)"
  unfolding assms(2) bits_of_word_def
  by (rule from_biguint_ok) (use assms(1) valid_width_of unat_word_less in auto)

lemma bits_zero_word:
  "LENGTH('w::len) \<le> 1048576 \<Longrightarrow> bits_zero (width_of TYPE('w)) = Inr (bits_of_word (0 :: 'w word))"
  using valid_width_of [where 'w = 'w] by (simp add: bits_zero_eq bits_of_word_def validate_width_ok)

lemma sint_signed_value: "signed_value LENGTH('w) (unat x) = sint x" for x :: "'w::len word"
proof -
  obtain m where m: "LENGTH('w) = Suc m" using len_gt_0 gr0_conv_Suc by blast
  have s: "sint x = signed_take_bit m (uint x)" using m by (simp add: sint_uint)
  have u: "uint x < 2 ^ Suc m" using uint_lt2p [of x] m by simp
  have b: "bit (uint x) m \<longleftrightarrow> \<not> unat x < 2 ^ m"
    using top_bit [of "unat x" m] unat_word_less [of x] m
    by (simp add: bit_unsigned_iff not_less)
  have "uint x = int (unat x)" by simp
  then show ?thesis
    using b u m by (simp add: s signed_take_bit_eq_take_bit_minus take_bit_int_eq_self signed_value_def)
qed


lemma to_signed_word:
  assumes "LENGTH('w::len) \<le> 1048576"
  shows "to_signed_bigint (bits_of_word (x :: 'w word)) = Inr (sint x)"
proof -
  have "width_of TYPE('w) \<noteq> 0" using valid_width_of [OF assms] by simp
  then show ?thesis
    using assms to_signed_bigint_eq [of "width_of TYPE('w)" "unat x"] unat_word_less [of x]
    by (simp add: bits_of_word_def sint_signed_value)
qed

lemma signed_fits_word:
  assumes "LENGTH('w::len) \<le> 1048576"
  shows "signed_fits (width_of TYPE('w)) i \<longleftrightarrow> - (2 ^ (LENGTH('w) - 1)) \<le> i \<and> i < 2 ^ (LENGTH('w) - 1)"
  using assms valid_width_of [OF assms] by (simp add: signed_fits_eq)

lemma from_twos_word:
  assumes "LENGTH('w::len) \<le> 1048576" and "signed_fits (width_of TYPE('w)) i"
  shows "from_bigint_twos_complement (width_of TYPE('w)) i = Inr (bits_of_word (word_of_int i :: 'w word))"
proof -
  have "unat (word_of_int i :: 'w word) = nat (i mod 2 ^ LENGTH('w))"
    by (simp only: unat_eq_nat_uint uint_word_of_int)
  then show ?thesis
    using assms(1) from_twos_complement_eq [OF valid_width_of [OF assms(1)] assms(2)]
    by (simp only: bits_of_word_def unat_width_of)
qed

lemma sint_fits:
  "- (2 ^ (LENGTH('w) - 1)) \<le> sint x \<and> sint x < 2 ^ (LENGTH('w) - 1)" for x :: "'w::len word"
  using sint_ge [of x] sint_lt [of x] by simp

lemma unat_mask_word: "n AND mask LENGTH('w) = unat (of_nat n :: 'w::len word)"
  by (simp add: take_bit_eq_mask [symmetric] unsigned_of_nat)

lemma unat_not_word: "unat x XOR mask LENGTH('w) = unat (NOT x)" for x :: "'w::len word"
  by (rule bit_eqI) (auto simp: bit_simps dest: bit_imp_le_length)

lemma shift_left_word:
  assumes "LENGTH('w::len) \<le> 1048576"
  shows "logical_shift_left (bits_of_word (x :: 'w word)) n = Inr (bits_of_word (push_bit n x))"
proof (cases "LENGTH('w) \<le> n")
  case True
  have "push_bit n x = 0" by (rule bit_eqI) (use True in \<open>auto simp: bit_simps\<close>)
  then show ?thesis using True assms by (simp add: logical_shift_left_def bits_zero_word)
next
  case False
  have "push_bit n (unat x) AND mask LENGTH('w) = unat (push_bit n x)"
    by (simp add: take_bit_eq_mask [symmetric] unsigned_push_bit_eq)
  then show ?thesis using False assms
    by (simp add: logical_shift_left_def bit_mask_eq from_biguint_word)
qed

lemma shift_right_word:
  assumes "LENGTH('w::len) \<le> 1048576"
  shows "logical_shift_right (bits_of_word (x :: 'w word)) n = Inr (bits_of_word (drop_bit n x))"
proof -
  have u: "drop_bit n (unat x) = unat (drop_bit n x)"
    by (rule bit_eqI) (auto simp: bit_simps dest: bit_imp_le_length)
  have "drop_bit n x = 0" if "LENGTH('w) \<le> n"
    by (rule bit_eqI) (use that in \<open>auto simp: bit_simps dest: bit_imp_le_length\<close>)
  then show ?thesis
    using assms u by (auto simp: logical_shift_right_def bits_zero_word from_biguint_word)
qed

lemma div_between:
  fixes i k m :: int
  assumes "- m \<le> i \<and> i < m" "0 < k"
  shows "- m \<le> i div k \<and> i div k < m"
proof
  have "m * 1 \<le> m * k" using assms by (intro mult_left_mono) auto
  then have "(- m * k) div k \<le> i div k" using assms
    by (intro zdiv_mono1) (linarith+)
  moreover have "(- m * k) div k = - m" using assms(2) by (intro nonzero_mult_div_cancel_right) simp
  ultimately show "- m \<le> i div k" by simp
  have "i div k \<le> (m - 1) div k" using assms by (intro zdiv_mono1) auto
  also have "\<dots> \<le> (m - 1) div 1" using assms by (intro zdiv_mono2) auto
  finally show "i div k < m" by simp
qed

lemma drop_bit_small:
  assumes "i < 2 ^ n" "- (2 ^ n) \<le> (i :: int)"
  shows "drop_bit n i = (if i < 0 then - 1 else 0)"
proof (cases "i < 0")
  case True
  have "(i + 2 ^ n) div 2 ^ n = i div 2 ^ n + 1" by (rule div_add_self2) simp
  moreover have "(i + 2 ^ n) div 2 ^ n = 0" using True assms by (intro div_pos_pos_trivial) auto
  ultimately show ?thesis using True by (simp add: drop_bit_eq_div)
next
  case False
  then show ?thesis using assms by (simp add: drop_bit_eq_div)
qed

lemma word_of_int_sint: "word_of_int (sint y) = y"
  by (simp add: scast_id)

lemma arithmetic_shift_word:
  assumes L: "LENGTH('w::len) \<le> 1048576"
  shows "arithmetic_shift_right (bits_of_word (x :: 'w word)) n
           = Inr (bits_of_word (signed_drop_bit n x))"
proof (cases "n = 0")
  case True
  then show ?thesis by (simp add: arithmetic_shift_right_def)
next
  case False
  define s where "s = (if LENGTH('w) \<le> n then (if sint x < 0 then - 1 else 0) else drop_bit n (sint x))"
  have s: "s = drop_bit n (sint x)"
  proof (cases "LENGTH('w) \<le> n")
    case True
    have "(2 :: int) ^ (LENGTH('w) - 1) \<le> 2 ^ n" using True by (intro power_increasing) auto
    then have "sint x < 2 ^ n" "- (2 ^ n) \<le> sint x" using sint_fits [of x] by linarith+
    then show ?thesis using True by (simp add: s_def drop_bit_small)
  qed (simp add: s_def)
  have "signed_fits (width_of TYPE('w)) s"
    unfolding signed_fits_word [OF L] s drop_bit_eq_div
    by (rule div_between) (use sint_fits [of x] in auto)
  then show ?thesis
    using False L from_twos_word [OF L, of s] word_of_int_sint [of "signed_drop_bit n x"]
    by (simp add: arithmetic_shift_right_def to_signed_word Let_def s sint_signed_drop_bit_eq
        flip: s_def)
qed

lemma add_mod_wrap:
  "i < l \<Longrightarrow> d < l \<Longrightarrow> (i + d) mod l = (if l - d \<le> i then i - (l - d) else i + d)" for l :: nat
  by (auto simp: mod_if [of "i + d"] not_le)

lemma unat_rotl_word:
  fixes x :: "'w::len word"
  assumes "0 < k" "k < LENGTH('w)"
  shows "(push_bit k (unat x) OR drop_bit (LENGTH('w) - k) (unat x)) AND mask LENGTH('w)
           = unat (word_rotl k x)"
proof (rule bit_eqI)
  fix i
  have "(i + (LENGTH('w) - k)) mod LENGTH('w) = (if k \<le> i then i - k else i + (LENGTH('w) - k))"
    if "i < LENGTH('w)"
    using that assms by (subst add_mod_wrap) auto
  then show "bit ((push_bit k (unat x) OR drop_bit (LENGTH('w) - k) (unat x)) AND mask LENGTH('w)) i
      \<longleftrightarrow> bit (unat (word_rotl k x)) i"
    using assms by (cases "k \<le> i"; cases "i < LENGTH('w)") (auto simp: bit_simps add.commute dest: bit_imp_le_length)
qed

lemma unat_rotr_word:
  fixes x :: "'w::len word"
  assumes "k < LENGTH('w)"
  shows "(drop_bit k (unat x) OR push_bit (LENGTH('w) - k) (unat x)) AND mask LENGTH('w)
           = unat (word_rotr k x)"
proof (rule bit_eqI)
  fix i
  have "(i + k) mod LENGTH('w) = (if LENGTH('w) - k \<le> i then i - (LENGTH('w) - k) else i + k)"
    if "i < LENGTH('w)"
    using that assms by (rule add_mod_wrap)
  then show "bit ((drop_bit k (unat x) OR push_bit (LENGTH('w) - k) (unat x)) AND mask LENGTH('w)) i
      \<longleftrightarrow> bit (unat (word_rotr k x)) i"
    using assms by (cases "LENGTH('w) - k \<le> i"; cases "i < LENGTH('w)")
      (auto simp: bit_simps add.commute dest: bit_imp_le_length)
qed

lemma word_rot_mod:
  "word_rotl (n mod LENGTH('w)) x = word_rotl n x" "word_rotr (n mod LENGTH('w)) x = word_rotr n x"
  "word_rotl 0 x = x" "word_rotr 0 x = x"
  for x :: "'w::len word"
  by (rule bit_eqI, simp add: bit_word_rotl_iff bit_word_rotr_iff mod_add_right_eq)+

lemma rotate_left_word:
  assumes L: "LENGTH('w::len) \<le> 1048576"
  shows "rotate_left (bits_of_word (x :: 'w word)) n = Inr (bits_of_word (word_rotl n x))"
proof -
  have z: "width_of TYPE('w) \<noteq> 0" using valid_width_of [OF L] by simp
  define k where "k = n mod LENGTH('w)"
  have k: "k < LENGTH('w)" by (simp add: k_def)
  have "rotate_left (bits_of_word x) n = Inr (bits_of_word (word_rotl k x))"
    using L z k from_biguint_word [OF L unat_rotl_word [of k x]]
    by (cases "k = 0") (simp_all add: rotate_left_def Let_def bit_mask_eq word_rot_mod flip: k_def)
  then show ?thesis by (simp add: k_def word_rot_mod)
qed

lemma rotate_right_word:
  assumes L: "LENGTH('w::len) \<le> 1048576"
  shows "rotate_right (bits_of_word (x :: 'w word)) n = Inr (bits_of_word (word_rotr n x))"
proof -
  have z: "width_of TYPE('w) \<noteq> 0" using valid_width_of [OF L] by simp
  define k where "k = n mod LENGTH('w)"
  have k: "k < LENGTH('w)" by (simp add: k_def)
  have "rotate_right (bits_of_word x) n = Inr (bits_of_word (word_rotr k x))"
    using L z k from_biguint_word [OF L unat_rotr_word [of k x]]
    by (cases "k = 0") (simp_all add: rotate_right_def Let_def bit_mask_eq word_rot_mod flip: k_def)
  then show ?thesis by (simp add: k_def word_rot_mod)
qed

lemma width_of_less:
  assumes "LENGTH('v::len) \<le> 1048576" "LENGTH('w::len) \<le> 1048576"
  shows "width_of TYPE('v) < width_of TYPE('w) \<longleftrightarrow> LENGTH('v) < LENGTH('w)"
  unfolding word_less_nat_alt using assms by simp

lemma extend_word:
  assumes L: "LENGTH('w::len) \<le> LENGTH('v)" "LENGTH('v::len) \<le> 1048576"
  shows "zero_extend (bits_of_word (x :: 'w word)) (width_of TYPE('v)) = Inr (bits_of_word (ucast x :: 'v word))"
    and "sign_extend (bits_of_word x) (width_of TYPE('v)) = Inr (bits_of_word (scast x :: 'v word))"
proof -
  have Lw: "LENGTH('w) \<le> 1048576" using L by simp
  have nl: "\<not> width_of TYPE('v) < width_of TYPE('w)" using L Lw by (simp add: width_of_less)
  have "unat x < 2 ^ LENGTH('v)"
    by (rule order.strict_trans2 [OF unat_word_less power_increasing [OF L(1)]]) simp
  then have "unat x = unat (ucast x :: 'v word)"
    by (simp add: unsigned_ucast_eq take_bit_nat_eq_self)
  then show "zero_extend (bits_of_word x) (width_of TYPE('v)) = Inr (bits_of_word (ucast x :: 'v word))"
    using nl Lw L(2) by (simp add: zero_extend_def from_biguint_word)
  have "(2 :: int) ^ (LENGTH('w) - 1) \<le> 2 ^ (LENGTH('v) - 1)" using L by (intro power_increasing) auto
  then have "signed_fits (width_of TYPE('v)) (sint x)"
    using sint_fits [of x] unfolding signed_fits_word [OF L(2)] by linarith
  then show "sign_extend (bits_of_word x) (width_of TYPE('v)) = Inr (bits_of_word (scast x :: 'v word))"
    using nl Lw from_twos_word [OF L(2)] by (simp add: sign_extend_def to_signed_word)
qed

lemma truncate_word:
  assumes L: "LENGTH('v::len) \<le> LENGTH('w::len)" "LENGTH('w) \<le> 1048576"
  shows "bits_truncate (bits_of_word (x :: 'w word)) (width_of TYPE('v)) = Inr (bits_of_word (ucast x :: 'v word))"
proof -
  have Lv: "LENGTH('v) \<le> 1048576" using L by simp
  have "\<not> width_of TYPE('w) < width_of TYPE('v)" using L Lv by (simp add: width_of_less)
  moreover have "unat x AND mask LENGTH('v) = unat (ucast x :: 'v word)"
    by (simp add: unsigned_ucast_eq take_bit_eq_mask)
  ultimately show ?thesis using L Lv valid_width_of [OF Lv]
    by (simp add: bits_truncate_def bit_mask_eq from_biguint_word)
qed

lemma concat_word:
  assumes L: "LENGTH('c::len) = LENGTH('a::len) + LENGTH('b::len)" "LENGTH('c) \<le> 1048576"
  shows "bits_concat (bits_of_word (x :: 'a word)) (bits_of_word (y :: 'b word))
           = Inr (bits_of_word (word_cat x y :: 'c word))"
proof -
  have La: "LENGTH('a) \<le> 1048576" and Lb: "LENGTH('b) \<le> 1048576" using L by simp_all
  have w: "checked_add (width_of TYPE('a)) (width_of TYPE('b)) = Some (width_of TYPE('c))"
    using L La Lb by (simp add: checked_add_def)
  have "push_bit LENGTH('b) (unat x) OR unat y = unat (word_cat x y :: 'c word)"
    by (rule bit_eqI) (use L in \<open>auto simp: bit_simps bit_word_cat_iff dest: bit_imp_le_length\<close>)
  note r = from_biguint_word [OF L(2) this]
  show ?thesis using La Lb
    by (simp only: bits_concat_def bits_width_word w ok_or_simps try_res_simps
        validate_width_ok [OF valid_width_of [OF L(2)]] to_biguint_word unat_width_of r)
qed

lemma slice_word:
  assumes L: "p + LENGTH('v::len) \<le> LENGTH('w::len)" "LENGTH('w) \<le> 1048576"
  shows "bits_slice (bits_of_word (x :: 'w word)) (Suc p) (width_of TYPE('v))
           = Inr (bits_of_word (ucast (drop_bit (LENGTH('w) - (p + LENGTH('v))) x) :: 'v word))"
proof -
  have Lv: "LENGTH('v) \<le> 1048576" using L by simp
  have p: "checked_position (width_of TYPE('w)) (Suc p) = Inr (of_nat p)"
    using L len_gt_0 [where 'a = 'v] by (simp add: checked_position_Inr del: len_gt_0)
  have e: "checked_add (of_nat p) (width_of TYPE('v)) = Some (of_nat (p + LENGTH('v)) :: u32)"
    using L Lv by (simp add: checked_add_def unat_of_nat)
  have u: "unat (of_nat (p + LENGTH('v)) :: u32) = p + LENGTH('v)"
    using L by (simp add: unat_of_nat del: of_nat_add)
  have sh: "unat (width_of TYPE('w) - of_nat (p + LENGTH('v))) = LENGTH('w) - (p + LENGTH('v))"
    and nl: "\<not> width_of TYPE('w) < of_nat (p + LENGTH('v))"
    using L u by (simp_all add: unat_sub word_le_nat_alt not_less del: of_nat_add)
  have "drop_bit (LENGTH('w) - (p + LENGTH('v))) (unat x) AND mask LENGTH('v)
      = unat (ucast (drop_bit (LENGTH('w) - (p + LENGTH('v))) x) :: 'v word)"
    by (rule bit_eqI) (auto simp: bit_simps dest: bit_imp_le_length)
  then show ?thesis using L Lv p e sh nl valid_width_of [OF Lv]
    by (simp add: bits_slice_def bit_mask_eq from_biguint_word del: of_nat_add)
qed


lemma smod_wrap: "0 < m \<Longrightarrow> (d smod m + m) smod m = d mod m" for d m :: int
proof -
  assume m: "0 < m"
  have "\<bar>d smod m\<bar> < m" using m by (simp add: signed_modulo_int_def abs_mult)
  then have "(d smod m + m) smod m = (d smod m + m) mod m" using m by (intro smod_mod_positive) auto
  also have "\<dots> = d smod m mod m" by simp
  also have "\<dots> = d mod m"
    using mod_mult_self1 [of "d smod m" "d sdiv m" m] by (simp only: smod_sdiv_mult_eq)
  finally show ?thesis .
qed

lemma subtract_word:
  assumes L: "LENGTH('w::len) \<le> 1048576"
  shows "subtract_or_wrap (bits_of_word (x :: 'w word)) (bits_of_word y) = Inr (bits_of_word (x - y))"
proof -
  have "nat \<bar>(int (unat x) - int (unat y)) mod 2 ^ LENGTH('w)\<bar> = unat (x - y)"
    by (simp add: unat_eq_nat_uint uint_word_ariths(2) del: nat_uint_eq)
  then show ?thesis using L
    by (simp add: subtract_or_wrap_def same_width_def Let_def smod_wrap from_biguint_word)
qed

lemma add_word:
  assumes L: "LENGTH('w::len) \<le> 1048576"
  shows "add_or_wrap (bits_of_word (x :: 'w word)) (bits_of_word y) = Inr (bits_of_word (x + y))"
  using L unat_mask_word [of "unat x + unat y", where 'w = 'w]
  by (simp add: add_or_wrap_def same_width_def bit_mask_eq from_biguint_word)

lemma unat_add_fits: "unat x + unat y < 2 ^ LENGTH('w) \<Longrightarrow> unat x + unat y = unat (x + y)"
  for x y :: "'w::len word"
  by (simp add: unat_add_lem)

lemma word_of_int_add_sint: "word_of_int (sint x + sint y) = x + y" "word_of_int (sint x - sint y) = x - y"
  for x y :: "'w::len word"
  by (simp_all add: scast_id)

lemma try_add_word:
  assumes L: "LENGTH('w::len) \<le> 1048576"
  shows "try_add (bits_of_word (x :: 'w word)) (bits_of_word y) BitsUnsigned
      = Inr (if unat x + unat y < 2 ^ LENGTH('w) then Inr (bits_of_word (x + y)) else Inl BitsOverflow)"
    and "try_add (bits_of_word x) (bits_of_word y) TwosComplement
      = Inr (if - (2 ^ (LENGTH('w) - 1)) \<le> sint x + sint y \<and> sint x + sint y < 2 ^ (LENGTH('w) - 1)
             then Inr (bits_of_word (x + y)) else Inl BitsOverflow)"
proof -
  show "try_add (bits_of_word (x :: 'w word)) (bits_of_word y) BitsUnsigned
      = Inr (if unat x + unat y < 2 ^ LENGTH('w) then Inr (bits_of_word (x + y)) else Inl BitsOverflow)"
    using L from_biguint_word [OF L unat_add_fits [of x y]]
    by (simp add: try_add_def same_width_def Let_def bit_length_le_iff flip: not_le)
  show "try_add (bits_of_word x) (bits_of_word y) TwosComplement
      = Inr (if - (2 ^ (LENGTH('w) - 1)) \<le> sint x + sint y \<and> sint x + sint y < 2 ^ (LENGTH('w) - 1)
             then Inr (bits_of_word (x + y)) else Inl BitsOverflow)"
    using L from_twos_word [OF L, of "sint x + sint y"] signed_fits_word [OF L, of "sint x + sint y"]
    by (simp add: try_add_def same_width_def to_signed_word word_of_int_add_sint)
qed

lemma try_subtract_word:
  assumes L: "LENGTH('w::len) \<le> 1048576"
  shows "try_subtract (bits_of_word (x :: 'w word)) (bits_of_word y) BitsUnsigned
      = Inr (if y \<le> x then Inr (bits_of_word (x - y)) else Inl BitsUnderflow)"
    and "try_subtract (bits_of_word x) (bits_of_word y) TwosComplement
      = Inr (if - (2 ^ (LENGTH('w) - 1)) \<le> sint x - sint y \<and> sint x - sint y < 2 ^ (LENGTH('w) - 1)
             then Inr (bits_of_word (x - y)) else Inl BitsOverflow)"
proof -
  have "y \<le> x \<Longrightarrow> from_biguint (width_of TYPE('w)) (unat x - unat y) = Inr (bits_of_word (x - y))"
    by (rule from_biguint_word [OF L]) (simp add: unat_sub)
  then show "try_subtract (bits_of_word (x :: 'w word)) (bits_of_word y) BitsUnsigned
      = Inr (if y \<le> x then Inr (bits_of_word (x - y)) else Inl BitsUnderflow)"
    using L by (auto simp: try_subtract_def same_width_def not_less word_le_nat_alt)
  show "try_subtract (bits_of_word x) (bits_of_word y) TwosComplement
      = Inr (if - (2 ^ (LENGTH('w) - 1)) \<le> sint x - sint y \<and> sint x - sint y < 2 ^ (LENGTH('w) - 1)
             then Inr (bits_of_word (x - y)) else Inl BitsOverflow)"
    using L from_twos_word [OF L, of "sint x - sint y"] signed_fits_word [OF L, of "sint x - sint y"]
    by (simp add: try_subtract_def same_width_def to_signed_word word_of_int_add_sint)
qed

lemma compare_word:
  assumes L: "LENGTH('w::len) \<le> 1048576"
  shows "bits_compare (bits_of_word (x :: 'w word)) (bits_of_word y) BitsUnsigned = Inr (cmp x y)"
    and "bits_compare (bits_of_word x) (bits_of_word y) TwosComplement = Inr (cmp (sint x) (sint y))"
  using L by (simp_all add: bits_compare_def same_width_def to_signed_word cmp_def word_less_nat_alt
      word_unat_eq_iff)

lemma add_widening_word:
  fixes x y :: "'w::len word"
  assumes L: "LENGTH('v::len) = Suc LENGTH('w)" "LENGTH('v) \<le> 1048576"
  shows "add_widening (bits_of_word (x :: 'w word)) (bits_of_word y) BitsUnsigned
           = Inr (bits_of_word (ucast x + ucast y :: 'v word))"
    and "add_widening (bits_of_word x) (bits_of_word y) TwosComplement
           = Inr (bits_of_word (scast x + scast y :: 'v word))"
proof -
  have Lw: "LENGTH('w) \<le> 1048576" using L by simp
  have w: "checked_add (width_of TYPE('w)) 1 = Some (width_of TYPE('v))"
    using L Lw by (simp add: checked_add_def)
  have e: "(of_nat (unat x + unat y) :: 'v word) = ucast x + ucast y" by simp
  have "unat x + unat y < 2 ^ LENGTH('v)"
    unfolding L(1) power_Suc using unat_word_less [of x] unat_word_less [of y] by linarith
  then have u: "unat x + unat y = unat (ucast x + ucast y :: 'v word)"
    unfolding e [symmetric] by (simp only: unat_of_nat mod_less)
  have "(2 :: int) ^ (LENGTH('v) - 1) = 2 * 2 ^ (LENGTH('w) - 1)"
    using L(1) by (simp flip: power_Suc)
  then have f: "signed_fits (width_of TYPE('v)) (sint x + sint y)"
    using sint_fits [of x] sint_fits [of y] unfolding signed_fits_word [OF L(2)] by linarith
  note ok = validate_width_ok [OF valid_width_of [OF L(2)]]
  show "add_widening (bits_of_word (x :: 'w word)) (bits_of_word y) BitsUnsigned
           = Inr (bits_of_word (ucast x + ucast y :: 'v word))"
    using Lw w ok from_biguint_word [OF L(2) u] by (simp add: add_widening_def same_width_def)
  show "add_widening (bits_of_word x) (bits_of_word y) TwosComplement
           = Inr (bits_of_word (scast x + scast y :: 'v word))"
    using Lw w ok from_twos_word [OF L(2) f] by (simp add: add_widening_def same_width_def to_signed_word)
qed

section \<open>No panics, canonical results\<close>

definition ok_with :: "('a \<Rightarrow> bool) \<Rightarrow> bits_error + 'a \<Rightarrow> bool" where
  "ok_with P r = (case r of Inl e \<Rightarrow> e \<noteq> BitsPanic | Inr x \<Rightarrow> P x)"

definition checked_ok :: "bits_arithmetic_failure + bits \<Rightarrow> bool" where
  "checked_ok r = (case r of Inl _ \<Rightarrow> True | Inr b \<Rightarrow> canonical_bits b)"

named_theorems ok_intros \<open>results that are canonical or an error of the interface\<close>

lemma ok_with_simps [simp]: "ok_with P (Inl e) \<longleftrightarrow> e \<noteq> BitsPanic" "ok_with P (Inr x) \<longleftrightarrow> P x"
  by (simp_all add: ok_with_def)

lemma checked_ok_simps [simp]: "checked_ok (Inl f)" "checked_ok (Inr b) \<longleftrightarrow> canonical_bits b"
  by (simp_all add: checked_ok_def)

lemma ok_with_try [ok_intros]:
  "ok_with (\<lambda>x. ok_with P (f x)) r \<Longrightarrow> ok_with P (try_res r f)"
  by (cases r) simp_all

lemma ok_with_if [ok_intros]:
  "(b \<Longrightarrow> ok_with P x) \<Longrightarrow> (\<not> b \<Longrightarrow> ok_with P y) \<Longrightarrow> ok_with P (if b then x else y)"
  by simp

lemma ok_with_mono: "ok_with P r \<Longrightarrow> (\<And>x. P x \<Longrightarrow> Q x) \<Longrightarrow> ok_with Q r"
  by (cases r) simp_all

lemma ok_validate_width [ok_intros]: "(valid_width w \<Longrightarrow> P ()) \<Longrightarrow> ok_with P (validate_width w)"
  by (auto simp: validate_width_def)

lemma ok_same_width [ok_intros]: "(bits_width a = bits_width b \<Longrightarrow> P ()) \<Longrightarrow> ok_with P (same_width a b s)"
  by (auto simp: same_width_def)

lemma ok_checked_position [ok_intros]: "(\<And>i. P i) \<Longrightarrow> ok_with P (checked_position w p)"
  by (auto simp: checked_position_def Let_def)

lemma ok_ok_or [ok_intros]: "e \<noteq> BitsPanic \<Longrightarrow> (\<And>x. P x) \<Longrightarrow> ok_with P (ok_or e r)"
  by (cases r) auto

lemma ok_bit_index [ok_intros]: "(\<And>i. P i) \<Longrightarrow> ok_with P (bit_index b p d)"
  by (simp add: bit_index_def ok_intros)

lemma ok_from_biguint [ok_intros]: "ok_with canonical_bits (from_biguint w v)"
  by (auto simp: from_biguint_eq canonical_bits_of_nat intro!: ok_intros)

lemma ok_from_canonical [ok_intros]: "ok_with canonical_bits (bits_from_canonical_bytes w bs)"
proof (cases "bits_from_canonical_bytes w bs")
  case (Inl e)
  then show ?thesis
    by (auto simp: bits_from_canonical_bytes_def try_res_Inl validate_width_def Let_def split: if_splits)
next
  case (Inr b)
  then have "canonical_bits b" using from_canonical_ok by blast
  with Inr show ?thesis by (simp only: ok_with_simps)
qed

lemma ok_from_twos [ok_intros]: "ok_with canonical_bits (from_bigint_twos_complement w i)"
  by (auto simp: from_bigint_twos_complement_def Let_def intro!: ok_intros)

lemma ok_bits_zero [ok_intros]: "ok_with canonical_bits (bits_zero w)"
  by (auto simp: bits_zero_eq canonical_bits_of_nat intro!: ok_intros)

lemma canonical_signed:
  assumes "canonical_bits b"
  shows "to_signed_bigint b = Inr (signed_value (unat (bits_width b)) (to_biguint b))"
  using assms canonical_bits_eq [OF assms] to_signed_bigint_eq [of "bits_width b" "to_biguint b"]
  by (metis canonical_bits_def)

lemma ok_to_signed [ok_intros]:
  "canonical_bits b \<Longrightarrow> (\<And>i. P i) \<Longrightarrow> ok_with P (to_signed_bigint b)"
  by (simp add: canonical_signed)

lemmas bits_operation_defs =
  with_bit_def bits_slice_def with_slice_def bits_concat_def bit_and_def bit_or_def bit_xor_def
  bit_not_def logical_shift_left_def logical_shift_right_def arithmetic_shift_right_def
  rotate_left_def rotate_right_def zero_extend_def sign_extend_def bits_truncate_def
  add_or_wrap_def add_widening_def subtract_or_wrap_def parse_encoded_def bits_from_bytes_def
  bits_from_number_def

lemma ok_checked [ok_intros]:
  "ok_with canonical_bits r \<Longrightarrow> ok_with checked_ok (try_res r (\<lambda>b. Inr (Inr b)))"
  by (cases r) simp_all

lemma ok_number [ok_intros]: "ok_with (\<lambda>_. True) (map_err BitsNumber r)"
  by (cases r) simp_all

lemma ok_operations:
  "ok_with canonical_bits (with_bit a p d v)"
  "ok_with canonical_bits (bits_slice a p w)"
  "ok_with canonical_bits (with_slice a p b)"
  "ok_with canonical_bits (bits_concat a b)"
  "ok_with canonical_bits (bit_and a b)"
  "ok_with canonical_bits (bit_or a b)"
  "ok_with canonical_bits (bit_xor a b)"
  "ok_with canonical_bits (bit_not a)"
  "ok_with canonical_bits (logical_shift_left a n)"
  "ok_with canonical_bits (logical_shift_right a n)"
  "ok_with canonical_bits (zero_extend a w)"
  "ok_with canonical_bits (bits_truncate a w)"
  "ok_with canonical_bits (add_or_wrap a b)"
  "ok_with canonical_bits (subtract_or_wrap a b)"
  "ok_with canonical_bits (parse_encoded w radix digits)"
  "ok_with canonical_bits (bits_from_bytes w bs order)"
  by (auto simp: bits_operation_defs Let_def intro!: ok_intros)

lemma ok_signed_operations:
  assumes "canonical_bits a"
  shows "ok_with canonical_bits (arithmetic_shift_right a n)"
    and "ok_with canonical_bits (rotate_left a n)"
    and "ok_with canonical_bits (rotate_right a n)"
    and "ok_with canonical_bits (sign_extend a w)"
proof -
  have "bits_width a \<noteq> 0" using assms by (simp add: canonical_bits_def)
  with assms show "ok_with canonical_bits (arithmetic_shift_right a n)"
    "ok_with canonical_bits (rotate_left a n)" "ok_with canonical_bits (rotate_right a n)"
    "ok_with canonical_bits (sign_extend a w)"
    by (auto simp: bits_operation_defs Let_def intro!: ok_intros)
qed

lemma ok_interpreted:
  shows "canonical_bits a \<Longrightarrow> canonical_bits b \<Longrightarrow> ok_with canonical_bits (add_widening a b i)"
    and "canonical_bits a \<Longrightarrow> canonical_bits b \<Longrightarrow> ok_with checked_ok (try_add a b i)"
    and "canonical_bits a \<Longrightarrow> canonical_bits b \<Longrightarrow> ok_with checked_ok (try_subtract a b i)"
    and "canonical_bits a \<Longrightarrow> canonical_bits b \<Longrightarrow> ok_with (\<lambda>_. True) (bits_compare a b i)"
    and "ok_with canonical_bits (bits_from_number w num i)"
    and "canonical_bits a \<Longrightarrow> ok_with (\<lambda>_. True) (bits_to_number a i)"
  by (cases i; auto simp: bits_operation_defs try_add_def try_subtract_def bits_compare_def
      bits_to_number_def to_bigint_exact_def Let_def intro!: ok_intros)+

lemma ok_bits_cmp: "ok_with (\<lambda>_. True) (bits_cmp a b)"
proof -
  have "ok_with (\<lambda>_. True) (bits_cmp_loop a b ps)"
    if "\<forall>p \<in> set ps. 0 < p \<and> p \<le> unat (bits_width a) \<and> p \<le> unat (bits_width b)" for ps
    using that by (induction ps) (auto simp: bits_bit_eq split: ordering.split)
  then show ?thesis by (auto simp: bits_cmp_def min_def word_le_nat_alt)
qed


lemma canonical_examples:
  "canonical_bits (bits_of_nat 8 165)" "canonical_bits (bits_of_nat 8 15)" "canonical_bits (bits_of_nat 12 2730)"
  by (rule canonical_bits_of_nat; simp add: MAX_BITS_WIDTH_def)+


text \<open>C8 (bitwise operations are machine words). For every word length up to the ceiling, the
  bitwise operations, the logical and arithmetic shifts by any amount and the rotations by any
  amount are those of machine words of that length.\<close>

theorem bits_bitwise_refine_words:
  fixes x y :: "'w::len word"
  assumes "LENGTH('w) \<le> 1048576"
  shows "bit_and (bits_of_word x) (bits_of_word y) = Inr (bits_of_word (x AND y))
    \<and> bit_or (bits_of_word x) (bits_of_word y) = Inr (bits_of_word (x OR y))
    \<and> bit_xor (bits_of_word x) (bits_of_word y) = Inr (bits_of_word (x XOR y))
    \<and> bit_not (bits_of_word x) = Inr (bits_of_word (NOT x))
    \<and> logical_shift_left (bits_of_word x) n = Inr (bits_of_word (push_bit n x))
    \<and> logical_shift_right (bits_of_word x) n = Inr (bits_of_word (drop_bit n x))
    \<and> arithmetic_shift_right (bits_of_word x) n = Inr (bits_of_word (signed_drop_bit n x))
    \<and> rotate_left (bits_of_word x) n = Inr (bits_of_word (word_rotl n x))
    \<and> rotate_right (bits_of_word x) n = Inr (bits_of_word (word_rotr n x))"
  using assms unat_not_word [of x]
  by (simp add: bit_and_def bit_or_def bit_xor_def bit_not_def same_width_def bit_mask_eq
      from_biguint_word unsigned_and_eq unsigned_or_eq unsigned_xor_eq
      shift_left_word shift_right_word arithmetic_shift_word rotate_left_word rotate_right_word)

theorem bits_bitwise_refine_words_witness:
  "LENGTH(8) \<le> 1048576
   \<and> rotate_left (bits_of_word (0x96 :: 8 word)) 11 = Inr (bits_of_word (word_rotl 11 (0x96 :: 8 word)))"
  using bits_bitwise_refine_words [of "0x96 :: 8 word" "0" 11] by simp

text \<open>C9 (arithmetic is that of machine words). Wrapping addition and subtraction are word addition
  and subtraction; the checked forms return the same result exactly when the mathematical sum or
  difference is representable and otherwise the failure the interpretation calls for; comparison
  follows the unsigned or the two's complement reading.\<close>

theorem bits_arithmetic_refines_words:
  fixes x y :: "'w::len word"
  assumes "LENGTH('w) \<le> 1048576"
  shows "add_or_wrap (bits_of_word x) (bits_of_word y) = Inr (bits_of_word (x + y))
    \<and> subtract_or_wrap (bits_of_word x) (bits_of_word y) = Inr (bits_of_word (x - y))
    \<and> try_add (bits_of_word x) (bits_of_word y) BitsUnsigned
        = Inr (if unat x + unat y < 2 ^ LENGTH('w) then Inr (bits_of_word (x + y)) else Inl BitsOverflow)
    \<and> try_add (bits_of_word x) (bits_of_word y) TwosComplement
        = Inr (if - (2 ^ (LENGTH('w) - 1)) \<le> sint x + sint y \<and> sint x + sint y < 2 ^ (LENGTH('w) - 1)
               then Inr (bits_of_word (x + y)) else Inl BitsOverflow)
    \<and> try_subtract (bits_of_word x) (bits_of_word y) BitsUnsigned
        = Inr (if y \<le> x then Inr (bits_of_word (x - y)) else Inl BitsUnderflow)
    \<and> try_subtract (bits_of_word x) (bits_of_word y) TwosComplement
        = Inr (if - (2 ^ (LENGTH('w) - 1)) \<le> sint x - sint y \<and> sint x - sint y < 2 ^ (LENGTH('w) - 1)
               then Inr (bits_of_word (x - y)) else Inl BitsOverflow)
    \<and> bits_compare (bits_of_word x) (bits_of_word y) BitsUnsigned = Inr (cmp x y)
    \<and> bits_compare (bits_of_word x) (bits_of_word y) TwosComplement = Inr (cmp (sint x) (sint y))"
  by (intro conjI add_word subtract_word try_add_word try_subtract_word compare_word assms)

theorem bits_arithmetic_refines_words_witness:
  "LENGTH(8) \<le> 1048576
   \<and> add_or_wrap (bits_of_word (200 :: 8 word)) (bits_of_word (100 :: 8 word))
       = Inr (bits_of_word (200 + 100 :: 8 word))
   \<and> try_add (bits_of_word (200 :: 8 word)) (bits_of_word (100 :: 8 word)) BitsUnsigned = Inr (Inl BitsOverflow)"
  using bits_arithmetic_refines_words [of "200 :: 8 word" 100] by simp

text \<open>C21 (width changes are those of machine words). Zero extension, sign extension, truncation,
  concatenation, slices counted from the left and widening addition are the conversions of machine
  words between the lengths concerned.\<close>

theorem bits_width_changes_refine_words:
  fixes x x' :: "'w::len word" and y :: "'u::len word"
  assumes "LENGTH('w) \<le> LENGTH('v::len)" "LENGTH('v) \<le> 1048576"
    and "LENGTH('c::len) = LENGTH('w) + LENGTH('u)" "LENGTH('c) \<le> 1048576"
    and "LENGTH('s::len) = Suc LENGTH('w)" "LENGTH('s) \<le> 1048576"
    and "p + LENGTH('t::len) \<le> LENGTH('w)"
  shows "zero_extend (bits_of_word x) (width_of TYPE('v)) = Inr (bits_of_word (ucast x :: 'v word))
    \<and> sign_extend (bits_of_word x) (width_of TYPE('v)) = Inr (bits_of_word (scast x :: 'v word))
    \<and> bits_truncate (bits_of_word x) (width_of TYPE('t)) = Inr (bits_of_word (ucast x :: 't word))
    \<and> bits_concat (bits_of_word x) (bits_of_word y) = Inr (bits_of_word (word_cat x y :: 'c word))
    \<and> bits_slice (bits_of_word x) (Suc p) (width_of TYPE('t))
        = Inr (bits_of_word (ucast (drop_bit (LENGTH('w) - (p + LENGTH('t))) x) :: 't word))
    \<and> add_widening (bits_of_word x) (bits_of_word x') BitsUnsigned
        = Inr (bits_of_word (ucast x + ucast x' :: 's word))
    \<and> add_widening (bits_of_word x) (bits_of_word x') TwosComplement
        = Inr (bits_of_word (scast x + scast x' :: 's word))"
  using assms
  by (intro conjI extend_word truncate_word concat_word slice_word add_widening_word) simp_all

theorem bits_width_changes_refine_words_witness:
  "LENGTH(8) \<le> LENGTH(16) \<and> LENGTH(16) = LENGTH(8) + LENGTH(8)
   \<and> sign_extend (bits_of_word (0x80 :: 8 word)) (width_of TYPE(16))
       = Inr (bits_of_word (scast (0x80 :: 8 word) :: 16 word))
   \<and> bits_slice (bits_of_word (0x80 :: 8 word)) (Suc 2) (width_of TYPE(4))
       = Inr (bits_of_word (ucast (drop_bit (LENGTH(8) - (2 + LENGTH(4))) (0x80 :: 8 word)) :: 4 word))"
  using bits_width_changes_refine_words [where 'v = 16 and 'c = 16 and 's = 9 and 't = 4
      and 'u = 8 and p = 2 and x = "0x80 :: 8 word" and x' = "0" and y = 0]
  by simp

section \<open>Round trips\<close>

lemma parse_radix_append:
  "parse_radix r acc (s @ t) =
     (case parse_radix r acc s of None \<Rightarrow> None | Some a \<Rightarrow> parse_radix r a t)"
  by (induction s arbitrary: acc) (auto split: option.splits)

lemma to_digit_digit_char: "d < r \<Longrightarrow> r \<le> 36 \<Longrightarrow> to_digit r (digit_char d) = Some d"
  by (auto simp: to_digit_def digit_char_def)

lemma parse_radix_digits:
  assumes "2 \<le> r" "r \<le> 36"
  shows "parse_radix r 0 (radix_digits r n) = Some n"
  using assms
proof (induction r n rule: radix_digits.induct)
  case (1 r n)
  show ?case
  proof (cases "n < r")
    case True
    then show ?thesis using 1 by (subst radix_digits.simps) (simp add: to_digit_digit_char)
  next
    case False
    then show ?thesis using 1
      by (subst radix_digits.simps) (simp add: parse_radix_append to_digit_digit_char)
  qed
qed

lemma radix_digits_chars:
  assumes "2 \<le> r" "r \<le> 36"
  shows "\<forall>ch \<in> set (radix_digits r n). ch \<noteq> 95 \<and> to_digit r ch \<noteq> None"
  using assms
proof (induction r n rule: radix_digits.induct)
  case (1 r n)
  have d: "digit_char d \<noteq> 95" if "d < r" for d using that 1 by (simp add: digit_char_def)
  show ?case using 1 d by (subst radix_digits.simps) (auto simp: to_digit_digit_char)
qed

lemma radix_digits_neq_Nil: "radix_digits r n \<noteq> []"
  by (subst radix_digits.simps) simp

lemma parse_encoded_digits:
  assumes "2 \<le> r" "r \<le> 36" "valid_width w"
  shows "parse_encoded w r (radix_digits r n) = from_biguint w n"
proof -
  have "filter (\<lambda>ch. ch \<noteq> 95) (radix_digits r n) = radix_digits r n"
    using radix_digits_chars [OF assms(1,2)] by (simp add: filter_id_conv)
  moreover have "list_all (\<lambda>ch. to_digit r ch \<noteq> None) (radix_digits r n)"
    using radix_digits_chars [OF assms(1,2)] by (simp add: list_all_iff)
  ultimately show ?thesis
    using assms radix_digits_neq_Nil
    by (simp add: parse_encoded_def validate_width_ok Let_def parse_bytes_def parse_radix_digits)
qed

text \<open>C24 (texts and bytes round trip). The digits of a canonical value in any radix from 2 to 36
  parse back to it at its width, and the bytes of a byte-aligned value read back to it in either
  byte order; only unaligned widths refuse the conversion to bytes.\<close>

theorem bits_text_and_bytes_round_trip:
  assumes "canonical_bits b" "2 \<le> r" "r \<le> 36"
  shows "(\<exists>s. to_radix_digits b r = Inr s \<and> parse_encoded (bits_width b) r s = Inr b)
    \<and> (if bits_width b mod 8 = 0
       then \<exists>bs. bits_to_bytes b order = Inr bs \<and> bits_from_bytes (bits_width b) bs order = Inr b
       else bits_to_bytes b order = Inl (NotByteAligned (bits_width b)))"
proof
  have v: "valid_width (bits_width b)" "to_biguint b < 2 ^ unat (bits_width b)"
    using assms(1) by (simp_all add: canonical_bits_def)
  have "parse_encoded (bits_width b) r (radix_digits r (to_biguint b)) = Inr b"
    using assms v canonical_bits_eq [OF assms(1)] by (simp add: parse_encoded_digits from_biguint_ok)
  then show "\<exists>s. to_radix_digits b r = Inr s \<and> parse_encoded (bits_width b) r s = Inr b"
    using assms by (simp add: to_radix_digits_def)
  have "bits_from_canonical_bytes (bits_width b) (bits_bytes b) = Inr b"
    unfolding from_canonical_ok using assms(1) by simp
  then show "if bits_width b mod 8 = 0
       then \<exists>bs. bits_to_bytes b order = Inr bs \<and> bits_from_bytes (bits_width b) bs order = Inr b
       else bits_to_bytes b order = Inl (NotByteAligned (bits_width b))"
    using v by (cases order) (simp_all add: bits_to_bytes_def bits_from_bytes_def validate_width_ok)
qed

theorem bits_text_and_bytes_round_trip_witness:
  "canonical_bits (bits_of_nat 8 165)
   \<and> (\<exists>s. to_radix_digits (bits_of_nat 8 165) 16 = Inr s \<and> parse_encoded 8 16 s = Inr (bits_of_nat 8 165))
   \<and> (\<exists>bs. bits_to_bytes (bits_of_nat 8 165) LittleEndian = Inr bs
         \<and> bits_from_bytes 8 bs LittleEndian = Inr (bits_of_nat 8 165))"
  using bits_text_and_bytes_round_trip [OF canonical_examples(1), of 16 LittleEndian] canonical_examples
  by simp

definition interpreted :: "bits_interpretation \<Rightarrow> bits \<Rightarrow> int" where
  "interpreted i b = (case i of BitsUnsigned \<Rightarrow> int (to_biguint b)
     | TwosComplement \<Rightarrow> signed_value (unat (bits_width b)) (to_biguint b))"

lemma component_bits_pos: "MAX_NUMBER_COMPONENT_BITS \<noteq> 0"
  by (simp add: MAX_NUMBER_COMPONENT_BITS_def)

lemma from_ratio_whole:
  assumes "nat \<bar>i\<bar> < 2 ^ MAX_NUMBER_COMPONENT_BITS"
  shows "from_ratio i 1 = Inr \<lparr>numerator = i, denominator = 1\<rparr>"
proof -
  have "bit_length (nat \<bar>i\<bar>) \<le> MAX_NUMBER_COMPONENT_BITS" unfolding bit_length_le_iff by (rule assms)
  moreover have "bit_length 1 = 1" by (subst bit_length.simps) simp
  ultimately show ?thesis
    by (simp add: from_ratio_def from_ratio_with_profile_def check_profile_def component_bits_def
        magnitude_def default_profile_def component_bits_pos number_zero_def Let_def)
qed

lemma nat_pow_int: "nat \<bar>i\<bar> < 2 ^ k \<longleftrightarrow> \<bar>i\<bar> < 2 ^ k"
  by (simp add: nat_less_iff)

lemma interpreted_bound:
  assumes "canonical_bits b"
  shows "nat \<bar>interpreted i b\<bar> < 2 ^ MAX_NUMBER_COMPONENT_BITS"
proof -
  let ?w = "unat (bits_width b)"
  have w: "0 < ?w" "?w \<le> MAX_NUMBER_COMPONENT_BITS" "to_biguint b < 2 ^ ?w"
    using assms unat_pos by (auto simp: canonical_bits_def MAX_BITS_WIDTH_def MAX_NUMBER_COMPONENT_BITS_def word_le_nat_alt)
  have "int (to_biguint b) < 2 ^ ?w" using w(3) by (metis of_nat_less_iff of_nat_numeral of_nat_power)
  moreover have "(2 :: int) ^ (?w - 1) < 2 ^ ?w" using w by (intro power_strict_increasing) auto
  ultimately have "\<bar>interpreted i b\<bar> < 2 ^ ?w"
    using signed_value_fits [OF w(1,3)] unfolding interpreted_def abs_less_iff
    by (cases i; simp only: bits_interpretation.case; linarith)
  also have "\<dots> \<le> (2 :: int) ^ MAX_NUMBER_COMPONENT_BITS" using w by (intro power_increasing) auto
  finally show ?thesis unfolding nat_pow_int .
qed


lemma bits_to_number_eq:
  assumes "canonical_bits b"
  shows "bits_to_number b i = Inr \<lparr>numerator = interpreted i b, denominator = 1\<rparr>"
  using from_ratio_whole [OF interpreted_bound [OF assms], of i]
  by (cases i) (simp_all add: bits_to_number_def interpreted_def canonical_signed [OF assms])

lemma signed_value_mod:
  "v < 2 ^ w \<Longrightarrow> nat (signed_value w v mod 2 ^ w) = v"
  by (simp add: signed_value_def nat_mod_distrib mod_pos_pos_trivial flip: of_nat_power)

lemma mod_signed_value:
  assumes "0 < w" "- (2 ^ (w - 1)) \<le> i" "i < 2 ^ (w - 1)"
  shows "signed_value w (nat (i mod 2 ^ w)) = i"
proof -
  obtain n where n: "w = Suc n" using assms(1) gr0_conv_Suc by blast
  show ?thesis
  proof (cases "0 \<le> i")
    case True
    then have "i mod 2 ^ w = i" using assms n by (intro mod_pos_pos_trivial) auto
    moreover have "nat i < 2 ^ n" using True assms n by (simp add: nat_less_iff)
    ultimately show ?thesis using True n by (simp add: signed_value_def)
  next
    case False
    then have "(i + 2 ^ w) mod 2 ^ w = i + 2 ^ w" using assms n by (intro mod_pos_pos_trivial) auto
    then have m: "i mod 2 ^ w = i + 2 ^ w" by simp
    have "\<not> nat (i + 2 ^ w) < 2 ^ n" using assms n by (simp add: nat_less_iff)
    then show ?thesis using assms n unfolding m signed_value_def by simp
  qed
qed

text \<open>C23 (numbers round trip). Under either interpretation a canonical value has an exact number,
  the integer it denotes, and converting that number back at the same width gives the value again;
  conversely a number that converts to a value of some width is what that value converts to.\<close>

theorem bits_number_round_trip:
  "(canonical_bits b \<longrightarrow>
      (\<exists>n. bits_to_number b i = Inr n \<and> rat_of n = of_int (interpreted i b)
         \<and> bits_from_number (bits_width b) n i = Inr b))
   \<and> (canonical num \<and> bits_from_number w num i = Inr b \<longrightarrow>
        bits_width b = w \<and> bits_to_number b i = Inr num)"
proof (intro conjI impI)
  assume b: "canonical_bits b"
  let ?w = "unat (bits_width b)" and ?n = "\<lparr>numerator = interpreted i b, denominator = 1\<rparr>"
  have w: "valid_width (bits_width b)" "to_biguint b < 2 ^ ?w" "0 < ?w"
    using b unat_pos by (auto simp: canonical_bits_def)
  have "bits_from_number (bits_width b) ?n i = Inr b"
  proof (cases i)
    case BitsUnsigned
    then show ?thesis using w canonical_bits_eq [OF b]
      by (simp add: bits_from_number_def is_whole_def to_bigint_exact_def interpreted_def from_biguint_ok)
  next
    case TwosComplement
    then have "signed_fits (bits_width b) (interpreted i b)"
      using signed_value_fits [OF w(3,2)] w(1) by (simp add: signed_fits_eq interpreted_def)
    then show ?thesis using TwosComplement w canonical_bits_eq [OF b] from_twos_complement_eq [OF w(1)]
      by (simp add: bits_from_number_def is_whole_def to_bigint_exact_def interpreted_def signed_value_mod)
  qed
  then show "\<exists>n. bits_to_number b i = Inr n \<and> rat_of n = of_int (interpreted i b)
      \<and> bits_from_number (bits_width b) n i = Inr b"
    using bits_to_number_eq [OF b, of i] by (simp add: rat_of_quot)
next
  assume a: "canonical num \<and> bits_from_number w num i = Inr b"
  then have one: "denominator num = 1"
    by (auto simp: bits_from_number_def is_whole_def split: if_splits)
  have "canonical_bits b \<and> bits_width b = w \<and> interpreted i b = numerator num"
  proof (cases i)
    case BitsUnsigned
    then show ?thesis using a one
      by (auto simp: bits_from_number_def is_whole_def to_bigint_exact_def from_biguint_Inr
          interpreted_def canonical_bits_of_nat split: if_splits)
  next
    case TwosComplement
    then have r: "valid_width w" "signed_fits w (numerator num)"
      "b = bits_of_nat w (nat (numerator num mod 2 ^ unat w))"
      using a one by (auto simp: bits_from_number_def is_whole_def to_bigint_exact_def
          from_twos_complement_Inr split: if_splits)
    have m: "nat (numerator num mod 2 ^ unat w) < 2 ^ unat w" by (simp add: nat_less_iff)
    then show ?thesis using TwosComplement r unat_pos [of w]
        mod_signed_value [of "unat w" "numerator num"]
      by (simp add: interpreted_def canonical_bits_of_nat signed_fits_eq)
  qed
  then show "bits_width b = w" "bits_to_number b i = Inr num"
    using one by (auto simp: bits_to_number_eq intro: exact_number_eqI)
qed

theorem bits_number_round_trip_witness:
  "canonical_bits (bits_of_nat 8 165)
   \<and> (\<exists>n. bits_to_number (bits_of_nat 8 165) TwosComplement = Inr n \<and> rat_of n = - 91
         \<and> bits_from_number 8 n TwosComplement = Inr (bits_of_nat 8 165))"
  using bits_number_round_trip [of "bits_of_nat 8 165" TwosComplement] canonical_examples
  by (simp add: interpreted_def signed_value_def)

section \<open>Slices\<close>

lemma with_slice_eq:
  assumes b: "canonical_bits b" and v: "canonical_bits v"
    and p: "0 < p" "p - 1 + unat (bits_width v) \<le> unat (bits_width b)"
  shows "\<exists>r. with_slice b p v = Inr r \<and> canonical_bits r \<and> bits_width r = bits_width b
    \<and> (\<forall>i. bit (to_biguint r) i \<longleftrightarrow>
         (let sh = unat (bits_width b) - (p - 1 + unat (bits_width v)) in
          if sh \<le> i \<and> i < sh + unat (bits_width v) then bit (to_biguint v) (i - sh)
          else bit (to_biguint b) i))"
proof -
  let ?W = "unat (bits_width b)" and ?V = "unat (bits_width v)"
  define sh where "sh = ?W - (p - 1 + ?V)"
  have wv: "0 < ?V" and B: "to_biguint b < 2 ^ ?W" and V: "to_biguint v < 2 ^ ?V"
    and w: "valid_width (bits_width b)"
    using b v unat_pos by (auto simp: canonical_bits_def)
  have pos: "checked_position (bits_width b) p = Inr (of_nat (p - 1))"
    using p wv by (simp add: checked_position_Inr del: of_nat_diff)
  have u: "unat (of_nat (p - 1) :: u32) = p - 1"
    by (rule unat_position [of p "bits_width b"]) (use p wv in linarith)
  define e where "e = of_nat (p - 1) + bits_width v"
  have e: "checked_add (of_nat (p - 1)) (bits_width v) = Some e"
    unfolding checked_add_Some e_def u using p(2) unat_u32_less [of "bits_width b"] by simp
  have ue: "unat e = p - 1 + ?V" using checked_add_unat [OF e] u by simp
  have nl: "\<not> bits_width b < e" and s: "unat (bits_width b - e) = sh"
    using ue p by (simp_all add: word_less_nat_alt not_less unat_sub word_le_nat_alt sh_def)
  have shV: "sh + ?V \<le> ?W" using p by (simp add: sh_def)
  define R where "R = (to_biguint b AND (mask ?W XOR push_bit sh (mask ?V))) OR push_bit sh (to_biguint v)"
  have bitB: "\<not> bit (to_biguint b) i" if "?W \<le> i" for i
    using B that by (metis bit_take_bit_iff not_less take_bit_nat_eq_self)
  have bitV: "\<not> bit (to_biguint v) i" if "?V \<le> i" for i
    using V that by (metis bit_take_bit_iff not_less take_bit_nat_eq_self)
  have bitR: "bit R i \<longleftrightarrow> (if sh \<le> i \<and> i < sh + ?V then bit (to_biguint v) (i - sh)
      else bit (to_biguint b) i)" for i
    using bitB [of i] bitV [of "i - sh"] shV unfolding R_def
    by (cases "i < ?W"; cases "sh + ?V \<le> i") (auto simp: bit_simps)
  have "take_bit ?W R = R"
    by (rule bit_eqI) (use bitB shV in \<open>auto simp: bit_take_bit_iff bitR intro: ccontr\<close>)
  then have R: "R < 2 ^ ?W" by (simp add: take_bit_nat_eq_self_iff)
  have "with_slice b p v = from_biguint (bits_width b) R"
    using nl s by (simp only: with_slice_def Let_def bit_mask_eq R_def pos e ok_or_simps try_res_simps if_False)
  then have "with_slice b p v = Inr (bits_of_nat (bits_width b) R)"
    using from_biguint_ok [OF w R] by simp
  then show ?thesis using w R bitR by (auto simp: canonical_bits_of_nat sh_def Let_def)
qed


lemma bits_slice_eq:
  assumes b: "canonical_bits b" and c: "cnt \<noteq> 0"
    and p: "0 < p" "p - 1 + unat cnt \<le> unat (bits_width b)"
  shows "bits_slice b p cnt = Inr (bits_of_nat cnt
    (take_bit (unat cnt) (drop_bit (unat (bits_width b) - (p - 1 + unat cnt)) (to_biguint b))))"
proof -
  let ?W = "unat (bits_width b)"
  have w: "valid_width cnt"
    using b c p by (auto simp: canonical_bits_def word_le_nat_alt)
  have pos: "checked_position (bits_width b) p = Inr (of_nat (p - 1))"
    using p unat_pos [OF c] by (simp add: checked_position_Inr del: of_nat_diff)
  have u: "unat (of_nat (p - 1) :: u32) = p - 1"
    by (rule unat_position [of p "bits_width b"]) (use p unat_pos [OF c] in linarith)
  define e where "e = of_nat (p - 1) + cnt"
  have e: "checked_add (of_nat (p - 1)) cnt = Some e"
    unfolding checked_add_Some e_def u using p(2) unat_u32_less [of "bits_width b"] by simp
  have ue: "unat e = p - 1 + unat cnt" using checked_add_unat [OF e] u by simp
  have nl: "\<not> bits_width b < e" and s: "unat (bits_width b - e) = ?W - (p - 1 + unat cnt)"
    using ue p by (simp_all add: word_less_nat_alt not_less unat_sub word_le_nat_alt)
  have "bits_slice b p cnt = from_biguint cnt
      (take_bit (unat cnt) (drop_bit (?W - (p - 1 + unat cnt)) (to_biguint b)))"
    using nl s c by (simp only: bits_slice_def Let_def bit_mask_eq pos e ok_or_simps try_res_simps
        if_False take_bit_eq_mask)
  then show ?thesis using from_biguint_ok [OF w] by simp
qed

text \<open>C22 (slices). Writing a value into a slice that fits keeps the width, reads back as the value
  written, and leaves every other bit as it was; bits are counted from the left, from one.\<close>

theorem bits_slice_after_with_slice:
  assumes "canonical_bits b" "canonical_bits v"
    and "0 < p" "p - 1 + unat (bits_width v) \<le> unat (bits_width b)"
  shows "\<exists>r. with_slice b p v = Inr r \<and> bits_width r = bits_width b
    \<and> bits_slice r p (bits_width v) = Inr v
    \<and> (\<forall>q. 0 < q \<and> q \<le> unat (bits_width b) \<longrightarrow>
         bits_bit r q BitsLeft =
           (if p \<le> q \<and> q < p + unat (bits_width v) then bits_bit v (q + 1 - p) BitsLeft
            else bits_bit b q BitsLeft))"
proof -
  let ?W = "unat (bits_width b)" and ?V = "unat (bits_width v)"
  define sh where "sh = ?W - (p - 1 + ?V)"
  obtain r where r: "with_slice b p v = Inr r" "canonical_bits r" "bits_width r = bits_width b"
    and bits: "\<And>i. bit (to_biguint r) i \<longleftrightarrow> (if sh \<le> i \<and> i < sh + ?V
      then bit (to_biguint v) (i - sh) else bit (to_biguint b) i)"
    using with_slice_eq [OF assms] unfolding Let_def sh_def by blast
  have V: "bits_width v \<noteq> 0" "to_biguint v < 2 ^ ?V" using assms(2) by (auto simp: canonical_bits_def)
  have "take_bit ?V (drop_bit sh (to_biguint r)) = take_bit ?V (to_biguint v)"
    by (rule bit_eqI) (auto simp: bit_simps bits)
  then have "bits_slice r p (bits_width v) = Inr v"
    using bits_slice_eq [OF r(2) V(1) assms(3)] assms(4) r(3) canonical_bits_eq [OF assms(2)] V(2)
    by (simp add: take_bit_nat_eq_self sh_def)
  moreover have "bits_bit r q BitsLeft = (if p \<le> q \<and> q < p + ?V then bits_bit v (q + 1 - p) BitsLeft
      else bits_bit b q BitsLeft)" if "0 < q \<and> q \<le> ?W" for q
  proof -
    have i: "sh \<le> ?W - q \<and> ?W - q < sh + ?V \<longleftrightarrow> p \<le> q \<and> q < p + ?V"
      using that assms(3,4) unat_pos [OF V(1)] by (auto simp: sh_def)
    have j: "?W - q - sh = ?V - (q + 1 - p)" if "p \<le> q \<and> q < p + ?V"
      using that \<open>0 < q \<and> q \<le> ?W\<close> assms(3,4) by (auto simp: sh_def)
    show ?thesis using that i j r(3) bits [of "?W - q"] by (auto simp: bits_bit_eq)
  qed
  ultimately show ?thesis using r by blast
qed

theorem bits_slice_after_with_slice_witness:
  "canonical_bits (bits_of_nat 12 2730) \<and> canonical_bits (bits_of_nat 8 15)
   \<and> (\<exists>r. with_slice (bits_of_nat 12 2730) 3 (bits_of_nat 8 15) = Inr r
         \<and> bits_slice r 3 8 = Inr (bits_of_nat 8 15))"
  using bits_slice_after_with_slice [OF canonical_examples(3,2), of 3] canonical_examples by auto

section \<open>The total order\<close>

definition bit_string :: "bits \<Rightarrow> bool list" where
  "bit_string b = map (\<lambda>p. bit (to_biguint b) (unat (bits_width b) - p)) [1..<Suc (unat (bits_width b))]"

lemma cmp_Cons: "cmp (x # xs) (y # ys) = (case cmp x y of Equal \<Rightarrow> cmp xs ys | c \<Rightarrow> c)"
  for xs ys :: "'a::linorder list"
  by (auto simp: cmp_def)

lemma Nil_less_iff: "[] < xs \<longleftrightarrow> xs \<noteq> []" for xs :: "'a::linorder list"
  by (cases xs) simp_all

lemma bits_cmp_loop_eq:
  assumes "\<forall>p \<in> set ps. 0 < p \<and> p \<le> unat (bits_width a) \<and> p \<le> unat (bits_width b)"
    and "cmp ra rb = cmp (bits_width a) (bits_width b)"
  shows "bits_cmp_loop a b ps = Inr (cmp
      (map (\<lambda>p. bit (to_biguint a) (unat (bits_width a) - p)) ps @ ra)
      (map (\<lambda>p. bit (to_biguint b) (unat (bits_width b) - p)) ps @ rb))"
  using assms by (induction ps) (simp_all add: bits_bit_eq cmp_Cons split: ordering.split)

lemma bits_cmp_eq: "bits_cmp a b = Inr (cmp (bit_string a) (bit_string b))"
proof -
  let ?a = "unat (bits_width a)" and ?b = "unat (bits_width b)"
  define m where "m = min ?a ?b"
  define f where "f = (\<lambda>c p. bit (to_biguint c) (unat (bits_width c) - p))"
  have split: "[1..<Suc n] = [1..<Suc m] @ [Suc m..<Suc n]" if "m \<le> n" for n
    using that upt_add_eq_append [of 1 "Suc m" "n - m"] by (simp del: upt_Suc)
  have s: "bit_string a = map (f a) [1..<Suc m] @ map (f a) [Suc m..<Suc ?a]"
    "bit_string b = map (f b) [1..<Suc m] @ map (f b) [Suc m..<Suc ?b]"
    using split [of ?a] split [of ?b] by (simp_all add: bit_string_def f_def m_def flip: map_append del: upt_Suc)
  have "cmp (map (f a) [Suc m..<Suc ?a]) (map (f b) [Suc m..<Suc ?b]) = cmp (bits_width a) (bits_width b)"
    unfolding m_def cmp_def word_less_nat_alt word_unat_eq_iff
    by (auto simp: min_def Nil_less_iff upt_rec [of _ "Suc ?a"] upt_rec [of _ "Suc ?b"])
  moreover have "unat (min (bits_width a) (bits_width b)) = m"
    by (simp add: min_def m_def word_le_nat_alt)
  ultimately show ?thesis
    unfolding bits_cmp_def s f_def by (simp only:) (rule bits_cmp_loop_eq, auto simp: m_def)
qed

lemma bit_string_inject:
  assumes "canonical_bits a" "canonical_bits b" "bit_string a = bit_string b"
  shows "a = b"
proof -
  have "length (bit_string a) = length (bit_string b)" using assms by simp
  then have w: "bits_width a = bits_width b" by (simp add: bit_string_def word_unat_eq_iff del: upt_Suc)
  let ?w = "unat (bits_width a)"
  have v: "to_biguint a < 2 ^ ?w" "to_biguint b < 2 ^ ?w"
    using assms w by (simp_all add: canonical_bits_def)
  have "bit (to_biguint a) i = bit (to_biguint b) i" if "i < ?w" for i
  proof -
    have "bit_string a ! (?w - Suc i) = bit_string b ! (?w - Suc i)" using assms by simp
    then show ?thesis using that w by (simp add: bit_string_def del: upt_Suc)
  qed
  then have "take_bit ?w (to_biguint a) = take_bit ?w (to_biguint b)"
    by (intro bit_eqI) (auto simp: bit_take_bit_iff)
  then have "to_biguint a = to_biguint b" using v by (simp add: take_bit_nat_eq_self)
  then show ?thesis using w canonical_bits_eq assms by metis
qed

text \<open>C25 (total order). The order of bit sequences is the lexicographic order of their bits, most
  significant first, a proper prefix before its extensions; canonical values compare equal exactly
  when they are the same value.\<close>

theorem bits_order_lexicographic:
  assumes "canonical_bits a" "canonical_bits b"
  shows "bits_cmp a b = Inr (cmp (bit_string a) (bit_string b))
    \<and> (bits_cmp a b = Inr Equal \<longleftrightarrow> a = b)"
  using bits_cmp_eq [of a b] bit_string_inject [OF assms] by auto

theorem bits_order_lexicographic_witness:
  "canonical_bits (bits_of_nat 8 165) \<and> canonical_bits (bits_of_nat 8 15)
   \<and> bits_cmp (bits_of_nat 8 165) (bits_of_nat 8 15)
       = Inr (cmp (bit_string (bits_of_nat 8 165)) (bit_string (bits_of_nat 8 15)))"
  using bits_order_lexicographic [OF canonical_examples(1,2)] canonical_examples by blast

end
