(* ===== verification/Boon_Value.thy ===== *)
theory Boon_Value
  imports Bits
begin

text \<open>
  The canonical recursive value of \<open>boon_data\<close> (\<open>crates/boon_data/src/lib.rs\<close>, \<open>Value\<close>) with its
  constructors and predicates, and the bounded size estimate the transport queues account with
  (\<open>crates/boon_distributed_runtime/src/message.rs\<close>). Texts are their UTF-8 bytes; the \<open>BTreeMap\<close>
  and \<open>BTreeSet\<close> contents are lists in their iteration order.
\<close>

datatype data_value =
    NumberValue exact_number
  | TextValue bytes
  | BytesValue bytes
  | ListValue "data_value list"
  | ObjectValue "(bytes \<times> data_value) list"
  | TagValue (value_tag: bytes) (value_fields: "(bytes \<times> data_value) list")
  | MapValue "(data_value \<times> data_value) list"
  | SetValue "data_value list"
  | BitsValue bits

definition utf8 :: "string \<Rightarrow> bytes" where
  "utf8 s = map of_char s"

definition integer_value :: "64 word \<Rightarrow> number_error + data_value" where
  "integer_value v = Inr (NumberValue (from_i64 v))"

definition tag_value :: "bytes \<Rightarrow> data_value" where
  "tag_value tag = TagValue tag []"

definition truth_value :: "bool \<Rightarrow> data_value" where
  "truth_value v = tag_value (if v then utf8 ''True'' else utf8 ''False'')"

fun as_truth :: "data_value \<Rightarrow> bool option" where
  "as_truth (TagValue tag fs) =
     (if fs = [] \<and> tag = utf8 ''True'' then Some True
      else if fs = [] \<and> tag = utf8 ''False'' then Some False else None)"
| "as_truth _ = None"

fun is_key_safe :: "data_value \<Rightarrow> bool" where
  "is_key_safe (NumberValue _) = True"
| "is_key_safe (TextValue _) = True"
| "is_key_safe (BytesValue _) = True"
| "is_key_safe (BitsValue _) = True"
| "is_key_safe (ObjectValue fs) = (\<forall>f \<in> set fs. is_key_safe (snd f))"
| "is_key_safe (TagValue _ fs) = (\<forall>f \<in> set fs. is_key_safe (snd f))"
| "is_key_safe (ListValue _) = False"
| "is_key_safe (MapValue _) = False"
| "is_key_safe (SetValue _) = False"

text \<open>\<open>usize::checked_add\<close> and the accumulating \<open>try_fold\<close>s of the estimate; \<open>None\<close> is the overflow.\<close>

definition usize_add :: "nat \<Rightarrow> nat \<Rightarrow> nat option" where
  "usize_add a b = (if a + b < 2 ^ 64 then Some (a + b) else None)"

fun try_fold_add :: "nat \<Rightarrow> nat option list \<Rightarrow> nat option" where
  "try_fold_add acc [] = Some acc"
| "try_fold_add acc (x # xs) =
     (case x of None \<Rightarrow> None
      | Some n \<Rightarrow> (case usize_add acc n of None \<Rightarrow> None | Some t \<Rightarrow> try_fold_add t xs))"

fun estimated_value_bytes :: "data_value \<Rightarrow> nat option" where
  "estimated_value_bytes (NumberValue _) = Some 16"
| "estimated_value_bytes (TextValue t) = usize_add 16 (length t)"
| "estimated_value_bytes (BytesValue b) = usize_add 16 (length b)"
| "estimated_value_bytes (BitsValue b) = usize_add 20 (length (bits_bytes b))"
| "estimated_value_bytes (ListValue vs) = try_fold_add 16 (map estimated_value_bytes vs)"
| "estimated_value_bytes (ObjectValue fs) =
     try_fold_add 16 (concat (map (\<lambda>f. [Some (length (fst f)), estimated_value_bytes (snd f)]) fs))"
| "estimated_value_bytes (TagValue tag fs) =
     (case usize_add 32 (length tag) of None \<Rightarrow> None
      | Some n \<Rightarrow>
        try_fold_add n (concat (map (\<lambda>f. [Some (length (fst f)), estimated_value_bytes (snd f)]) fs)))"
| "estimated_value_bytes (MapValue es) =
     try_fold_add 16
       (concat (map (\<lambda>e. [estimated_value_bytes (fst e), estimated_value_bytes (snd e)]) es))"
| "estimated_value_bytes (SetValue vs) = try_fold_add 16 (map estimated_value_bytes vs)"

end
