(* ===== verification/Session_Link.thy ===== *)
theory Session_Link
  imports Boon_Value Sorted_Collections
begin

text \<open>
  The link state of a client session (\<open>crates/boon_distributed_runtime/src/link.rs\<close>): operation
  sequences in both directions, the replay window of receive fingerprints, pending
  acknowledgements and resynchronisations, rebinding to a new transport generation, and the
  identity checks on decoded frames. The byte codec of frames is an argument of the operations
  that encode or decode. Hashes and ids are byte strings; the \<open>BTreeMap\<close> of fingerprints is an
  ordered map.
\<close>

section \<open>Frames\<close>

datatype runtime_error =
    InvalidLease
  | SessionDisconnected
  | SessionExpired
  | SessionCapacity nat
  | QueueFull nat
  | QueueBytesFull nat
  | InvalidTransportFrame
  | ProtocolMismatch
  | SchemaMismatch
  | StaleTransportGeneration
  | TransportSequenceMismatch
  | UnknownTransportEdge
  | UnknownTransientEffect
  | StaleTransientEffectOwner
  | UnsupportedScope string
  | RuntimeFailure string

datatype data_operation =
    CurrentOperation
  | EventOperation
  | CurrentCallRequestOperation
  | CurrentCallResultOperation
  | CurrentCallDetachOperation
  | InvocationRequestOperation
  | InvocationResultOperation

record data_frame =
  frame_graph_hash :: bytes
  frame_graph_revision :: u64
  frame_schema_hash :: bytes
  frame_session_id :: bytes
  frame_generation :: u64
  frame_operation_sequence :: u64
  frame_ack_through :: u64
  frame_edge_id :: bytes
  frame_operation :: data_operation
  frame_call_instance_id :: "bytes option"
  frame_semantic_revision :: u64
  frame_result_revision :: "u64 option"
  frame_payload :: "data_value option"

datatype session_frame =
    DataFrame data_frame
  | AckFrame (ack_session_id: bytes) (ack_generation: u64) (frame_ack: u64)
  | ResyncFrame (resync_session_id: bytes) (resync_generation: u64) (frame_expected_next: u64)

datatype frame_error = UnsupportedProtocolVersion "16 word" | OtherFrameError

section \<open>Link state\<close>

definition RECEIVE_REPLAY_WINDOW :: u64 where
  "RECEIVE_REPLAY_WINDOW = 256"

datatype receive_operation = NextOperation | DuplicateOperation | GapOperation u64

datatype sent_control = SentAck u64 | SentResync u64

record session_link =
  link_graph_hash :: bytes
  link_schema_hash :: bytes
  link_graph_revision :: u64
  link_session_id :: bytes
  link_generation :: u64
  next_send_operation_sequence :: u64
  peer_acknowledged_through :: u64
  applied_receive_through :: u64
  receive_fingerprints :: "(u64 \<times> bytes) list"
  ack_pending :: bool
  resync_expected_next :: "u64 option"

record data_frame_request =
  request_operation_sequence :: u64
  request_edge_id :: bytes
  request_operation :: data_operation
  request_call_instance_id :: "bytes option"
  request_semantic_revision :: u64
  request_result_revision :: "u64 option"
  request_payload :: "data_value option"

definition link_new :: "bytes \<Rightarrow> bytes \<Rightarrow> u64 \<Rightarrow> bytes \<Rightarrow> u64 \<Rightarrow> session_link" where
  "link_new graph_hash schema_hash graph_revision session_id generation =
     \<lparr>link_graph_hash = graph_hash, link_schema_hash = schema_hash,
      link_graph_revision = graph_revision, link_session_id = session_id,
      link_generation = generation, next_send_operation_sequence = 1,
      peer_acknowledged_through = 0, applied_receive_through = 0, receive_fingerprints = [],
      ack_pending = False, resync_expected_next = None\<rparr>"

definition rebase_send_after_handshake ::
  "u64 \<Rightarrow> session_link \<Rightarrow> (runtime_error + unit) \<times> session_link" where
  "rebase_send_after_handshake peer_applied_through l =
     (case checked_add peer_applied_through 1 of
        None \<Rightarrow> (Inl (RuntimeFailure ''client/session send operation sequence exhausted''), l)
      | Some n \<Rightarrow> (Inr (), l\<lparr>next_send_operation_sequence := n,
                             peer_acknowledged_through := peer_applied_through\<rparr>))"

definition link_rebind :: "u64 \<Rightarrow> u64 \<Rightarrow> session_link \<Rightarrow> runtime_error + session_link" where
  "link_rebind generation peer_applied_through l =
     (if generation \<le> link_generation l then Inl StaleTransportGeneration
      else case rebase_send_after_handshake peer_applied_through (l\<lparr>link_generation := generation\<rparr>) of
        (Inl e, _) \<Rightarrow> Inl e
      | (Inr _, rebound) \<Rightarrow>
          Inr (rebound\<lparr>ack_pending := applied_receive_through rebound \<noteq> 0,
                       resync_expected_next := None\<rparr>))"

definition allocate_operation_sequence ::
  "session_link \<Rightarrow> (runtime_error + u64) \<times> session_link" where
  "allocate_operation_sequence l =
     (let n = next_send_operation_sequence l in
      case checked_add n 1 of
        None \<Rightarrow> (Inl (RuntimeFailure ''client/session send operation sequence exhausted''), l)
      | Some m \<Rightarrow> (Inr n, l\<lparr>next_send_operation_sequence := m\<rparr>))"

definition last_send_operation_sequence :: "session_link \<Rightarrow> u64" where
  "last_send_operation_sequence l = saturating_sub (next_send_operation_sequence l) 1"

section \<open>Encoding and identity\<close>

definition data_frame_of :: "session_link \<Rightarrow> data_frame_request \<Rightarrow> data_frame" where
  "data_frame_of l request =
     \<lparr>frame_graph_hash = link_graph_hash l, frame_graph_revision = link_graph_revision l,
      frame_schema_hash = link_schema_hash l, frame_session_id = link_session_id l,
      frame_generation = link_generation l,
      frame_operation_sequence = request_operation_sequence request,
      frame_ack_through = applied_receive_through l,
      frame_edge_id = request_edge_id request,
      frame_operation = request_operation request,
      frame_call_instance_id = request_call_instance_id request,
      frame_semantic_revision = request_semantic_revision request,
      frame_result_revision = request_result_revision request,
      frame_payload = request_payload request\<rparr>"

definition encode_data ::
  "(session_frame \<Rightarrow> frame_error + bytes) \<Rightarrow> session_link \<Rightarrow> data_frame_request
     \<Rightarrow> runtime_error + bytes" where
  "encode_data encode_frame l request =
     map_err (\<lambda>_. InvalidTransportFrame) (encode_frame (DataFrame (data_frame_of l request)))"

definition encode_pending_control ::
  "(session_frame \<Rightarrow> frame_error + bytes) \<Rightarrow> session_link
     \<Rightarrow> runtime_error + (bytes \<times> sent_control) option" where
  "encode_pending_control encode_frame l =
     (let frame =
        (case resync_expected_next l of
           Some expected_next \<Rightarrow>
             Some (ResyncFrame (link_session_id l) (link_generation l) expected_next,
                   SentResync expected_next)
         | None \<Rightarrow>
             if ack_pending l
             then Some (AckFrame (link_session_id l) (link_generation l) (applied_receive_through l),
                        SentAck (applied_receive_through l))
             else None)
      in case frame of
           None \<Rightarrow> Inr None
         | Some (f, control) \<Rightarrow>
             try_res (map_err (\<lambda>_. InvalidTransportFrame) (encode_frame f))
               (\<lambda>bs. Inr (Some (bs, control))))"

definition has_resync_pending :: "session_link \<Rightarrow> bool" where
  "has_resync_pending l \<longleftrightarrow> resync_expected_next l \<noteq> None"

definition validate_private_identity ::
  "bytes \<Rightarrow> u64 \<Rightarrow> session_link \<Rightarrow> runtime_error + unit" where
  "validate_private_identity session_id generation l =
     (if session_id \<noteq> link_session_id l then Inl InvalidTransportFrame
      else if generation \<noteq> link_generation l then Inl StaleTransportGeneration
      else Inr ())"

definition decode_identity ::
  "(bytes \<Rightarrow> frame_error + session_frame) \<Rightarrow> session_link \<Rightarrow> bytes
     \<Rightarrow> runtime_error + session_frame" where
  "decode_identity decode_wire l bs =
     try_res (map_err (\<lambda>e. case e of UnsupportedProtocolVersion _ \<Rightarrow> ProtocolMismatch
                                  | OtherFrameError \<Rightarrow> InvalidTransportFrame) (decode_wire bs))
       (\<lambda>frame.
         try_res
           (case frame of
              DataFrame d \<Rightarrow>
                if frame_graph_hash d \<noteq> link_graph_hash l
                   \<or> frame_graph_revision d \<noteq> link_graph_revision l
                then Inl ProtocolMismatch
                else if frame_schema_hash d \<noteq> link_schema_hash l then Inl SchemaMismatch
                else validate_private_identity (frame_session_id d) (frame_generation d) l
            | AckFrame session_id generation _ \<Rightarrow> validate_private_identity session_id generation l
            | ResyncFrame session_id generation _ \<Rightarrow> validate_private_identity session_id generation l)
           (\<lambda>_. Inr frame))"

section \<open>Receiving and acknowledging\<close>

definition classify_receive ::
  "u64 \<Rightarrow> bytes \<Rightarrow> session_link \<Rightarrow> runtime_error + receive_operation" where
  "classify_receive operation_sequence fingerprint l =
     (let expected_next = saturating_add (applied_receive_through l) 1 in
      if operation_sequence = expected_next then Inr NextOperation
      else if operation_sequence \<le> applied_receive_through l
      then (case map_of (receive_fingerprints l) operation_sequence of
              Some accepted \<Rightarrow>
                if accepted = fingerprint then Inr DuplicateOperation else Inl InvalidTransportFrame
            | None \<Rightarrow> Inl TransportSequenceMismatch)
      else Inr (GapOperation expected_next))"

definition accept_receive ::
  "u64 \<Rightarrow> bytes \<Rightarrow> session_link \<Rightarrow> (runtime_error + unit) \<times> session_link" where
  "accept_receive operation_sequence fingerprint l =
     (case classify_receive operation_sequence fingerprint l of
        Inl e \<Rightarrow> (Inl e, l)
      | Inr NextOperation \<Rightarrow>
          (let retain_from =
             saturating_sub operation_sequence (saturating_sub RECEIVE_REPLAY_WINDOW 1) in
           (Inr (), l\<lparr>applied_receive_through := operation_sequence,
              receive_fingerprints :=
                filter (\<lambda>(s, _). retain_from \<le> s)
                  (bmap_insert operation_sequence fingerprint (receive_fingerprints l)),
              ack_pending := True, resync_expected_next := None\<rparr>))
      | Inr DuplicateOperation \<Rightarrow> (Inr (), l\<lparr>ack_pending := True\<rparr>)
      | Inr (GapOperation expected_next) \<Rightarrow>
          (Inl TransportSequenceMismatch, l\<lparr>resync_expected_next := Some expected_next\<rparr>))"

definition request_resync :: "u64 \<Rightarrow> session_link \<Rightarrow> session_link" where
  "request_resync expected_next l = l\<lparr>resync_expected_next := Some (max expected_next 1)\<rparr>"

definition accept_peer_ack :: "u64 \<Rightarrow> session_link \<Rightarrow> (runtime_error + u64) \<times> session_link" where
  "accept_peer_ack ack_through l =
     (if last_send_operation_sequence l < ack_through then (Inl TransportSequenceMismatch, l)
      else let l' = (if peer_acknowledged_through l < ack_through
                     then l\<lparr>peer_acknowledged_through := ack_through\<rparr> else l)
           in (Inr (peer_acknowledged_through l'), l'))"

definition acknowledge_sent_control :: "sent_control \<Rightarrow> session_link \<Rightarrow> session_link" where
  "acknowledge_sent_control control l =
     (case control of
        SentAck ack_through \<Rightarrow>
          if applied_receive_through l = ack_through then l\<lparr>ack_pending := False\<rparr> else l
      | SentResync expected_next \<Rightarrow>
          if resync_expected_next l = Some expected_next
          then l\<lparr>resync_expected_next := None\<rparr> else l)"

definition acknowledge_piggybacked_receive :: "u64 \<Rightarrow> session_link \<Rightarrow> session_link" where
  "acknowledge_piggybacked_receive ack_through l =
     (if applied_receive_through l = ack_through then l\<lparr>ack_pending := False\<rparr> else l)"

definition pending_control_count :: "session_link \<Rightarrow> nat" where
  "pending_control_count l = (if resync_expected_next l \<noteq> None \<or> ack_pending l then 1 else 0)"

section \<open>The replay window\<close>

inductive link_reachable :: "session_link \<Rightarrow> bool" where
  new: "link_reachable (link_new graph_hash schema_hash graph_revision session_id generation)"
| rebind: "link_reachable l \<Longrightarrow> link_rebind generation peer_applied_through l = Inr l' \<Longrightarrow> link_reachable l'"
| rebase: "link_reachable l \<Longrightarrow> link_reachable (snd (rebase_send_after_handshake peer_applied_through l))"
| allocate: "link_reachable l \<Longrightarrow> link_reachable (snd (allocate_operation_sequence l))"
| receive: "link_reachable l \<Longrightarrow> link_reachable (snd (accept_receive operation_sequence fingerprint l))"
| resync: "link_reachable l \<Longrightarrow> link_reachable (request_resync expected_next l)"
| peer_ack: "link_reachable l \<Longrightarrow> link_reachable (snd (accept_peer_ack ack_through l))"
| control: "link_reachable l \<Longrightarrow> link_reachable (acknowledge_sent_control control l)"
| piggyback: "link_reachable l \<Longrightarrow> link_reachable (acknowledge_piggybacked_receive ack_through l)"

definition replay_window :: "u64 \<Rightarrow> u64 set" where
  "replay_window applied = {k. 0 < k \<and> k \<le> applied \<and> unat applied < unat k + 256}"

definition window_ok :: "(u64 \<times> bytes) list \<Rightarrow> u64 \<Rightarrow> bool" where
  "window_ok fps applied \<longleftrightarrow> bmap_inv fps \<and> fst ` set fps = replay_window applied"

definition link_inv :: "session_link \<Rightarrow> bool" where
  "link_inv l \<longleftrightarrow>
     window_ok (receive_fingerprints l) (applied_receive_through l)
     \<and> peer_acknowledged_through l < next_send_operation_sequence l"

lemma unat_expected_next:
  "unat (saturating_add a 1) = min (unat a + 1) (2 ^ 64 - 1)" for a :: u64
  by (simp add: unat_saturating_add)

lemma unat_u64_less: "unat (a :: u64) < 2 ^ 64"
  using unsigned_less [of a, where ?'a = nat] by simp

lemma retain_from_nat:
  "unat (saturating_sub n (saturating_sub RECEIVE_REPLAY_WINDOW 1)) = unat n - 255"
  by (simp add: unat_saturating_sub RECEIVE_REPLAY_WINDOW_def)

lemma replay_window_step:
  assumes "n = saturating_add a 1"
  shows "{k \<in> insert n (replay_window a). saturating_sub n (saturating_sub RECEIVE_REPLAY_WINDOW 1) \<le> k}
           = replay_window n"
proof -
  have n: "unat n = min (unat a + 1) (2 ^ 64 - 1)" unfolding assms by (rule unat_expected_next)
  have a: "unat a < 2 ^ 64" by (rule unat_u64_less)
  show ?thesis
    using n a by (auto simp: replay_window_def word_le_nat_alt word_less_nat_alt retain_from_nat
        word_unat_eq_iff)
qed

lemma bmap_inv_filter: "bmap_inv m \<Longrightarrow> bmap_inv (filter P m)"
  by (simp add: sorted_wrt_map sorted_wrt_filter)

lemma accept_receive_next:
  assumes "classify_receive n fp l = Inr NextOperation"
  shows "n = saturating_add (applied_receive_through l) 1"
  using assms by (auto simp: classify_receive_def Let_def split: if_splits option.splits)

lemma link_inv_receive: "link_inv l \<Longrightarrow> link_inv (snd (accept_receive n fp l))"
proof -
  assume inv: "link_inv l"
  show ?thesis
  proof (cases "classify_receive n fp l = Inr NextOperation")
    case True
    let ?r = "saturating_sub n (saturating_sub RECEIVE_REPLAY_WINDOW 1)"
    let ?m = "filter (\<lambda>(s, _). ?r \<le> s) (bmap_insert n fp (receive_fingerprints l))"
    have "fst ` set ?m = {k \<in> fst ` set (bmap_insert n fp (receive_fingerprints l)). ?r \<le> k}" by force
    also have "\<dots> = replay_window n"
      using inv replay_window_step [OF accept_receive_next [OF True]]
      by (simp add: link_inv_def window_ok_def bmap_insert_keys)
    finally have keys: "fst ` set ?m = replay_window n" .
    have "bmap_inv ?m"
      using inv by (intro bmap_inv_filter bmap_inv_insert) (simp add: link_inv_def window_ok_def)
    with keys have "window_ok ?m n" by (simp only: window_ok_def)
    then show ?thesis using inv True by (simp add: accept_receive_def Let_def link_inv_def)
  next
    case False
    then show ?thesis using inv
      by (auto simp: accept_receive_def link_inv_def split: sum.split receive_operation.split)
  qed
qed

lemma checked_add_one: "checked_add a 1 = Some b \<Longrightarrow> a < b" for a b :: u64
  using checked_add_unat [of a 1 b] by (simp add: word_less_nat_alt)

lemma link_reachable_inv: "link_reachable l \<Longrightarrow> link_inv l"
proof (induction rule: link_reachable.induct)
  case (new graph_hash schema_hash graph_revision session_id generation)
  then show ?case by (auto simp: link_inv_def window_ok_def link_new_def replay_window_def word_le_nat_alt word_less_nat_alt)
next
  case (rebind l generation peer_applied_through l')
  then show ?case
    by (auto simp: link_inv_def link_rebind_def rebase_send_after_handshake_def checked_add_one
        split: if_splits option.splits)
next
  case (rebase l peer_applied_through)
  then show ?case
    by (auto simp: link_inv_def rebase_send_after_handshake_def checked_add_one split: option.splits)
next
  case (allocate l)
  then show ?case
    by (auto simp: link_inv_def allocate_operation_sequence_def Let_def split: option.splits
        dest!: checked_add_one)
next
  case (receive l operation_sequence fingerprint)
  then show ?case by (simp add: link_inv_receive)
next
  case (peer_ack l ack_through)
  then show ?case
    by (auto simp: link_inv_def accept_peer_ack_def Let_def last_send_operation_sequence_def
        word_less_nat_alt not_less unat_saturating_sub)
qed (auto simp: link_inv_def request_resync_def acknowledge_sent_control_def
      acknowledge_piggybacked_receive_def split: sent_control.split)


lemma card_replay_window: "card (replay_window a) \<le> 256"
proof -
  have "unat ` replay_window a \<subseteq> {unat a - 255..unat a}"
    by (auto simp: replay_window_def word_le_nat_alt)
  moreover have "inj_on unat (replay_window a)" by (rule inj_onI) (simp add: word_unat_eq_iff)
  ultimately have "card (replay_window a) \<le> card {unat a - 255..unat a}"
    by (metis card_image card_mono finite_atLeastAtMost)
  also have "\<dots> \<le> 256" by simp
  finally show ?thesis .
qed

lemma window_length: "window_ok fps a \<Longrightarrow> length fps \<le> 256"
proof -
  assume w: "window_ok fps a"
  have "length fps = card (set (map fst fps))"
    using w by (metis bmap_inv_distinct distinct_card length_map window_ok_def)
  then show ?thesis using w card_replay_window [of a] by (simp add: window_ok_def)
qed

lemma window_lookup: "window_ok fps a \<Longrightarrow> (\<exists>fp. map_of fps n = Some fp) \<longleftrightarrow> n \<in> replay_window a"
  by (metis map_of_eq_None_iff not_None_eq window_ok_def)

lemma saturating_add_neq: "a \<noteq> - 1 \<Longrightarrow> saturating_add a 1 = a + 1 \<and> a < a + 1" for a :: u64
proof -
  assume "a \<noteq> - 1"
  then have "unat a \<noteq> 2 ^ 64 - 1" by (simp add: word_unat_eq_iff unsigned_minus_1_eq_mask mask_eq_exp_minus_1)
  then have "unat a + 1 < 2 ^ 64" using unat_u64_less [of a] by linarith
  then have "checked_add a 1 = Some (a + 1)" "saturating_add a 1 = a + 1"
    by (simp_all add: checked_add_def saturating_add_def)
  then show ?thesis using checked_add_one by simp
qed

lemma accept_receive_duplicate:
  assumes "accept_receive n fp l = (Inr (), l')" "link_inv l" "n \<noteq> - 1"
  shows "classify_receive n fp l' = Inr DuplicateOperation"
proof (cases "classify_receive n fp l = Inr NextOperation")
  case True
  have l': "l' = l\<lparr>applied_receive_through := n,
      receive_fingerprints := filter (\<lambda>(s, _). saturating_sub n (saturating_sub RECEIVE_REPLAY_WINDOW 1) \<le> s)
        (bmap_insert n fp (receive_fingerprints l)), ack_pending := True, resync_expected_next := None\<rparr>"
    using assms(1) True by (simp add: accept_receive_def Let_def)
  have "link_inv l'" using link_inv_receive [OF assms(2), of n fp] assms(1) by simp
  then have w: "bmap_inv (receive_fingerprints l')" by (simp add: link_inv_def window_ok_def)
  have "(n, fp) \<in> set (bmap_insert n fp (receive_fingerprints l))"
    by (metis map_of_SomeD map_of_bmap_insert fun_upd_same)
  moreover have "saturating_sub n (saturating_sub RECEIVE_REPLAY_WINDOW 1) \<le> n"
    by (simp add: word_le_nat_alt retain_from_nat)
  ultimately have "(n, fp) \<in> set (receive_fingerprints l')" by (simp add: l')
  then have "map_of (receive_fingerprints l') n = Some fp"
    using w bmap_inv_distinct by (metis map_of_is_SomeI)
  then show ?thesis using saturating_add_neq [OF assms(3)] by (simp add: classify_receive_def Let_def l')
next
  case False
  then have "classify_receive n fp l = Inr DuplicateOperation" "l' = l\<lparr>ack_pending := True\<rparr>"
    using assms(1) by (auto simp: accept_receive_def Let_def split: sum.splits receive_operation.splits)
  then show ?thesis by (auto simp: classify_receive_def Let_def split: if_splits)
qed



end
