(* ===== verification/Session_Message.thy ===== *)
theory Session_Message
  imports Session_Link
begin

text \<open>
  The messages between runtime islands and the typed queue that carries them
  (\<open>crates/boon_distributed_runtime/src/message.rs\<close>). Ids are byte strings, arguments an ordered map.
  The semantic fingerprint (a hash of the serialised message) is a parameter of the operations
  that use it.
\<close>

section \<open>Messages\<close>

datatype program_role = ClientRole | SessionRole | ServerRole

fun can_depend_on :: "program_role \<Rightarrow> program_role \<Rightarrow> bool" where
  "can_depend_on ClientRole SessionRole = True"
| "can_depend_on SessionRole ClientRole = True"
| "can_depend_on SessionRole ServerRole = True"
| "can_depend_on ServerRole SessionRole = True"
| "can_depend_on _ _ = False"

record queue_limits =
  max_messages :: nat
  max_bytes :: nat

datatype message_payload =
    Current (current_export_id: bytes) (current_revision: u64) (current_value: data_value)
  | Event (event_export_id: bytes) (event_sequence: u64) (event_value: "data_value option")
  | CurrentCallRequest (request_call_site: bytes) (request_instance: bytes)
      (request_function: bytes) (request_demand: u64) (request_arguments: "(bytes \<times> data_value) list")
  | CurrentCallResult (result_call_site: bytes) (result_instance: bytes)
      (result_demand: u64) (result_revision: u64) (result_value: data_value)
  | CurrentCallDetach (detach_call_site: bytes) (detach_instance: bytes) (detach_demand: u64)
  | InvocationRequest (invoke_call_site: bytes) (invoke_instance: bytes)
      (invoke_function: bytes) (invoke_sequence: u64) (invoke_arguments: "(bytes \<times> data_value) list")
  | InvocationResult (reply_call_site: bytes) (reply_instance: bytes) (reply_sequence: u64)
      (reply_value: data_value)

record distributed_message =
  message_producer :: program_role
  message_consumer :: program_role
  message_payload :: message_payload

fun edge_bytes_of :: "message_payload \<Rightarrow> bytes" where
  "edge_bytes_of (Current export_id _ _) = export_id"
| "edge_bytes_of (Event export_id _ _) = export_id"
| "edge_bytes_of (CurrentCallRequest site _ _ _ _) = site"
| "edge_bytes_of (CurrentCallResult site _ _ _ _) = site"
| "edge_bytes_of (CurrentCallDetach site _ _) = site"
| "edge_bytes_of (InvocationRequest site _ _ _ _) = site"
| "edge_bytes_of (InvocationResult site _ _ _) = site"

definition edge_bytes :: "distributed_message \<Rightarrow> bytes" where
  "edge_bytes m = edge_bytes_of (message_payload m)"

fun call_instance_id_of :: "message_payload \<Rightarrow> bytes option" where
  "call_instance_id_of (Current _ _ _) = None"
| "call_instance_id_of (Event _ _ _) = None"
| "call_instance_id_of (CurrentCallRequest _ i _ _ _) = Some i"
| "call_instance_id_of (CurrentCallResult _ i _ _ _) = Some i"
| "call_instance_id_of (CurrentCallDetach _ i _) = Some i"
| "call_instance_id_of (InvocationRequest _ i _ _ _) = Some i"
| "call_instance_id_of (InvocationResult _ i _ _) = Some i"

definition call_instance_id :: "distributed_message \<Rightarrow> bytes option" where
  "call_instance_id m = call_instance_id_of (message_payload m)"

fun payload_estimate :: "message_payload \<Rightarrow> nat option" where
  "payload_estimate (Current _ _ v) = estimated_value_bytes v"
| "payload_estimate (CurrentCallResult _ _ _ _ v) = estimated_value_bytes v"
| "payload_estimate (InvocationResult _ _ _ v) = estimated_value_bytes v"
| "payload_estimate (Event _ _ v) = (case v of None \<Rightarrow> Some 0 | Some x \<Rightarrow> estimated_value_bytes x)"
| "payload_estimate (CurrentCallRequest _ _ _ _ args) =
     try_fold_add 0 (map (\<lambda>a. estimated_value_bytes (snd a)) args)"
| "payload_estimate (InvocationRequest _ _ _ _ args) =
     try_fold_add 0 (map (\<lambda>a. estimated_value_bytes (snd a)) args)"
| "payload_estimate (CurrentCallDetach _ _ _) = Some 0"

definition estimated_bytes :: "distributed_message \<Rightarrow> nat option" where
  "estimated_bytes m =
     (case payload_estimate (message_payload m) of None \<Rightarrow> None | Some n \<Rightarrow> usize_add 128 n)"

fun same_state_kind :: "message_payload \<Rightarrow> message_payload \<Rightarrow> bool" where
  "same_state_kind (Current _ _ _) (Current _ _ _) = True"
| "same_state_kind (CurrentCallResult _ _ _ _ _) (CurrentCallResult _ _ _ _ _) = True"
| "same_state_kind (CurrentCallRequest _ _ _ _ _) (CurrentCallRequest _ _ _ _ _) = True"
| "same_state_kind (CurrentCallRequest _ _ _ _ _) (CurrentCallDetach _ _ _) = True"
| "same_state_kind (CurrentCallDetach _ _ _) (CurrentCallRequest _ _ _ _ _) = True"
| "same_state_kind (CurrentCallDetach _ _ _) (CurrentCallDetach _ _ _) = True"
| "same_state_kind _ _ = False"

definition replaces_pending :: "distributed_message \<Rightarrow> distributed_message \<Rightarrow> bool" where
  "replaces_pending m queued =
     (if message_producer m \<noteq> message_producer queued
         \<or> message_consumer m \<noteq> message_consumer queued
         \<or> edge_bytes m \<noteq> edge_bytes queued
         \<or> call_instance_id m \<noteq> call_instance_id queued
      then False
      else same_state_kind (message_payload m) (message_payload queued))"

definition is_session_resume_snapshot :: "distributed_message \<Rightarrow> bool" where
  "is_session_resume_snapshot m =
     (case message_payload m of Current _ _ _ \<Rightarrow> True | _ \<Rightarrow> False)"

section \<open>The typed queue\<close>

record typed_queue =
  queue_messages :: "distributed_message list"
  queue_estimated_bytes :: nat
  queue_limits_of :: queue_limits

definition typed_queue_new :: "queue_limits \<Rightarrow> runtime_error + typed_queue" where
  "typed_queue_new limits =
     (if max_messages limits = 0 \<or> max_bytes limits = 0
      then Inl (RuntimeFailure ''distributed queue limits must be positive'')
      else Inr \<lparr>queue_messages = [], queue_estimated_bytes = 0, queue_limits_of = limits\<rparr>)"

definition push_candidate ::
  "distributed_message list \<Rightarrow> distributed_message \<Rightarrow> distributed_message list" where
  "push_candidate candidate m = filter (\<lambda>queued. \<not> replaces_pending m queued) candidate @ [m]"

definition typed_queue_push ::
  "distributed_message list \<Rightarrow> typed_queue \<Rightarrow> (runtime_error + unit) \<times> typed_queue" where
  "typed_queue_push messages q =
     (let candidate = foldl push_candidate (queue_messages q) messages in
      if max_messages (queue_limits_of q) < length candidate
      then (Inl (QueueFull (max_messages (queue_limits_of q))), q)
      else case try_fold_add 0 (map estimated_bytes candidate) of
        None \<Rightarrow> (Inl (QueueBytesFull (max_bytes (queue_limits_of q))), q)
      | Some n \<Rightarrow>
          if max_bytes (queue_limits_of q) < n
          then (Inl (QueueBytesFull (max_bytes (queue_limits_of q))), q)
          else (Inr (), q\<lparr>queue_messages := candidate, queue_estimated_bytes := n\<rparr>))"

text \<open>The two \<open>expect\<close>s of \<open>pop_front\<close> and the one of \<open>retain_session_resume_snapshots\<close> are the
  \<open>RuntimeFailure\<close> of a panic.\<close>

definition typed_queue_pop_front ::
  "typed_queue \<Rightarrow> (runtime_error + distributed_message option) \<times> typed_queue" where
  "typed_queue_pop_front q =
     (case queue_messages q of
        [] \<Rightarrow> (Inr None, q)
      | m # rest \<Rightarrow>
          (case estimated_bytes m of
             None \<Rightarrow> (Inl (RuntimeFailure ''admitted distributed message size must remain representable''),
                      q\<lparr>queue_messages := rest\<rparr>)
           | Some n \<Rightarrow>
               if queue_estimated_bytes q < n
               then (Inl (RuntimeFailure ''distributed message queue byte accounting must balance''),
                     q\<lparr>queue_messages := rest\<rparr>)
               else (Inr (Some m), q\<lparr>queue_messages := rest,
                       queue_estimated_bytes := queue_estimated_bytes q - n\<rparr>)))"

definition typed_queue_front_cloned :: "typed_queue \<Rightarrow> distributed_message option" where
  "typed_queue_front_cloned q = (case queue_messages q of [] \<Rightarrow> None | m # _ \<Rightarrow> Some m)"

definition retain_session_resume_snapshots ::
  "typed_queue \<Rightarrow> (runtime_error + unit) \<times> typed_queue" where
  "retain_session_resume_snapshots q =
     (let kept = filter is_session_resume_snapshot (queue_messages q) in
      if list_ex (\<lambda>m. estimated_bytes m = None) kept
      then (Inl (RuntimeFailure ''admitted distributed message size remains representable''),
            q\<lparr>queue_messages := kept\<rparr>)
      else (Inr (), q\<lparr>queue_messages := kept,
              queue_estimated_bytes := sum_list (map (the \<circ> estimated_bytes) kept)\<rparr>))"

definition typed_queue_len :: "typed_queue \<Rightarrow> nat" where
  "typed_queue_len q = length (queue_messages q)"

section \<open>Queue accounting and replacement\<close>

inductive typed_queue_reachable :: "typed_queue \<Rightarrow> bool" where
  new: "typed_queue_new limits = Inr q \<Longrightarrow> typed_queue_reachable q"
| push: "typed_queue_reachable q \<Longrightarrow> typed_queue_reachable (snd (typed_queue_push messages q))"
| pop: "typed_queue_reachable q \<Longrightarrow> typed_queue_reachable (snd (typed_queue_pop_front q))"
| retain: "typed_queue_reachable q \<Longrightarrow> typed_queue_reachable (snd (retain_session_resume_snapshots q))"

definition queue_bytes :: "distributed_message list \<Rightarrow> nat" where
  "queue_bytes ms = sum_list (map (the \<circ> estimated_bytes) ms)"

definition is_state :: "distributed_message \<Rightarrow> bool" where
  "is_state m = same_state_kind (message_payload m) (message_payload m)"

definition typed_queue_inv :: "typed_queue \<Rightarrow> bool" where
  "typed_queue_inv q \<longleftrightarrow>
     (\<forall>m \<in> set (queue_messages q). estimated_bytes m \<noteq> None)
     \<and> queue_estimated_bytes q = queue_bytes (queue_messages q)
     \<and> queue_bytes (queue_messages q) \<le> max_bytes (queue_limits_of q)
     \<and> length (queue_messages q) \<le> max_messages (queue_limits_of q)
     \<and> sorted_wrt (\<lambda>a b. \<not> replaces_pending b a) (queue_messages q)"

lemma try_fold_add_Some:
  "try_fold_add acc xs = Some n \<Longrightarrow> (\<forall>x \<in> set xs. x \<noteq> None) \<and> n = acc + sum_list (map the xs)"
proof (induction xs arbitrary: acc)
  case (Cons x xs)
  then obtain a where "x = Some a" "try_fold_add (acc + a) xs = Some n"
    by (auto simp: usize_add_def split: option.splits if_splits)
  with Cons.IH [of "acc + a"] show ?case by simp
qed simp


lemma replaces_pending_state: "replaces_pending m q \<Longrightarrow> is_state m \<and> is_state q"
  by (auto simp: replaces_pending_def is_state_def elim!: same_state_kind.elims split: if_splits)

lemma push_candidate_unique:
  "sorted_wrt (\<lambda>a b. \<not> replaces_pending b a) ms \<Longrightarrow>
     sorted_wrt (\<lambda>a b. \<not> replaces_pending b a) (push_candidate ms m)"
  by (auto simp: push_candidate_def sorted_wrt_append sorted_wrt_filter)

lemma push_all_unique:
  "sorted_wrt (\<lambda>a b. \<not> replaces_pending b a) ms \<Longrightarrow>
     sorted_wrt (\<lambda>a b. \<not> replaces_pending b a) (foldl push_candidate ms messages)"
  by (induction messages arbitrary: ms) (auto simp: push_candidate_unique)

lemma push_all_events:
  "filter (\<lambda>m. \<not> is_state m) (foldl push_candidate ms messages)
     = filter (\<lambda>m. \<not> is_state m) ms @ filter (\<lambda>m. \<not> is_state m) messages"
proof (induction messages arbitrary: ms)
  case (Cons m messages)
  have "filter (\<lambda>x. \<not> is_state x) (filter (\<lambda>q. \<not> replaces_pending m q) ms)
      = filter (\<lambda>x. \<not> is_state x) ms"
    unfolding filter_filter by (rule filter_cong) (auto dest: replaces_pending_state)
  then have "filter (\<lambda>x. \<not> is_state x) (push_candidate ms m)
      = filter (\<lambda>x. \<not> is_state x) ms @ filter (\<lambda>x. \<not> is_state x) [m]"
    by (simp add: push_candidate_def)
  then show ?case by (simp add: Cons.IH)
qed simp

lemma typed_queue_inv_push: "typed_queue_inv q \<Longrightarrow> typed_queue_inv (snd (typed_queue_push messages q))"
  using push_all_unique [of "queue_messages q" messages]
  by (auto simp: typed_queue_push_def typed_queue_inv_def Let_def queue_bytes_def not_less comp_def
      split: option.splits if_splits dest!: try_fold_add_Some)

lemma typed_queue_pop:
  assumes "typed_queue_inv q"
  shows "fst (typed_queue_pop_front q) = Inr (typed_queue_front_cloned q)"
    and "queue_messages (snd (typed_queue_pop_front q)) = tl (queue_messages q)"
    and "typed_queue_inv (snd (typed_queue_pop_front q))"
  using assms by (cases "queue_messages q"; auto simp: typed_queue_pop_front_def typed_queue_inv_def
      typed_queue_front_cloned_def queue_bytes_def)+

lemma typed_queue_retain:
  assumes "typed_queue_inv q"
  shows "fst (retain_session_resume_snapshots q) = Inr ()"
    and "queue_messages (snd (retain_session_resume_snapshots q))
      = filter is_session_resume_snapshot (queue_messages q)"
    and "typed_queue_inv (snd (retain_session_resume_snapshots q))"
proof -
  have e: "\<not> list_ex (\<lambda>m. estimated_bytes m = None) (filter is_session_resume_snapshot (queue_messages q))"
    using assms by (auto simp: typed_queue_inv_def list_ex_iff)
  have b: "queue_bytes (filter P ms) \<le> queue_bytes ms" for P ms
    by (induction ms) (auto simp: queue_bytes_def)
  show "fst (retain_session_resume_snapshots q) = Inr ()"
    and "queue_messages (snd (retain_session_resume_snapshots q))
      = filter is_session_resume_snapshot (queue_messages q)"
    using e by (simp_all add: retain_session_resume_snapshots_def Let_def)
  show "typed_queue_inv (snd (retain_session_resume_snapshots q))"
    using assms e b [of is_session_resume_snapshot "queue_messages q"]
      le_trans [OF length_filter_le, of "queue_messages q" _ is_session_resume_snapshot]
    by (auto simp: retain_session_resume_snapshots_def Let_def typed_queue_inv_def sorted_wrt_filter
        simp flip: queue_bytes_def)
qed

lemma typed_queue_reachable_inv: "typed_queue_reachable q \<Longrightarrow> typed_queue_inv q"
proof (induction rule: typed_queue_reachable.induct)
  case (new limits q)
  then show ?case by (auto simp: typed_queue_new_def typed_queue_inv_def queue_bytes_def split: if_splits)
qed (simp_all add: typed_queue_inv_push typed_queue_pop typed_queue_retain)


definition example_limits :: queue_limits where
  "example_limits = \<lparr>max_messages = 64, max_bytes = 1024 * 1024\<rparr>"

definition example_signal :: distributed_message where
  "example_signal = \<lparr>message_producer = SessionRole, message_consumer = ServerRole,
     message_payload = Event [3] 5 None\<rparr>"


end
