(* ===== verification/Session_Queue.thy ===== *)
theory Session_Queue
  imports Session_Message
begin

text \<open>
  The outbound queue of a client session and the translation between messages and data frames
  (\<open>crates/boon_distributed_runtime/src/client_session.rs\<close>). The wire schema is the record of the
  edges the code looks up; the byte codec of frames is an argument.
\<close>

section \<open>Wire schema\<close>

datatype call_mode = CurrentMode | InvocationMode

record value_edge =
  value_export_id :: bytes
  value_producer :: program_role
  value_consumer :: program_role

record event_edge =
  event_edge_export_id :: bytes
  event_producer :: program_role
  event_consumer :: program_role
  event_has_payload :: bool

record call_edge =
  call_site :: bytes
  caller_role :: program_role
  callee_role :: program_role
  function_export_id :: bytes
  call_mode_of :: call_mode
  call_parameters :: "bytes list"

record wire_schema =
  value_edges :: "value_edge list"
  event_edges :: "event_edge list"
  call_edges :: "call_edge list"

definition validate_adjacent_roles :: "program_role \<Rightarrow> program_role \<Rightarrow> runtime_error + unit" where
  "validate_adjacent_roles producer consumer =
     (if (can_depend_on producer consumer \<or> can_depend_on consumer producer)
         \<and> \<not> (producer = ClientRole \<and> consumer = ServerRole
              \<or> producer = ServerRole \<and> consumer = ClientRole)
      then Inr () else Inl UnknownTransportEdge)"

definition require_value_edge ::
  "wire_schema \<Rightarrow> bytes \<Rightarrow> program_role \<Rightarrow> program_role \<Rightarrow> runtime_error + unit" where
  "require_value_edge schema export_id producer consumer =
     ensure (list_ex (\<lambda>e. value_export_id e = export_id \<and> value_producer e = producer
         \<and> value_consumer e = consumer) (value_edges schema)) UnknownTransportEdge"

definition require_event_edge ::
  "wire_schema \<Rightarrow> bytes \<Rightarrow> program_role \<Rightarrow> program_role \<Rightarrow> runtime_error + unit" where
  "require_event_edge schema export_id producer consumer =
     ensure (list_ex (\<lambda>e. event_edge_export_id e = export_id \<and> event_producer e = producer
         \<and> event_consumer e = consumer) (event_edges schema)) UnknownTransportEdge"

definition require_call_result_edge ::
  "wire_schema \<Rightarrow> bytes \<Rightarrow> program_role \<Rightarrow> program_role \<Rightarrow> call_mode \<Rightarrow> runtime_error + unit" where
  "require_call_result_edge schema site producer consumer mode =
     ensure (list_ex (\<lambda>e. call_site e = site \<and> callee_role e = producer
         \<and> caller_role e = consumer \<and> call_mode_of e = mode) (call_edges schema)) UnknownTransportEdge"

fun collect_arguments ::
  "(bytes \<times> data_value) list \<Rightarrow> bytes list \<Rightarrow> runtime_error + data_value list" where
  "collect_arguments args [] = Inr []"
| "collect_arguments args (p # ps) =
     (case map_of args p of
        None \<Rightarrow> Inl InvalidTransportFrame
      | Some v \<Rightarrow> try_res (collect_arguments args ps) (\<lambda>vs. Inr (v # vs)))"

definition encode_call_arguments ::
  "wire_schema \<Rightarrow> bytes \<Rightarrow> bytes \<Rightarrow> program_role \<Rightarrow> program_role \<Rightarrow> call_mode
     \<Rightarrow> (bytes \<times> data_value) list \<Rightarrow> runtime_error + data_value" where
  "encode_call_arguments schema site func producer consumer mode args =
     try_res (ok_or UnknownTransportEdge
       (find (\<lambda>e. call_site e = site \<and> caller_role e = producer \<and> callee_role e = consumer
          \<and> function_export_id e = func \<and> call_mode_of e = mode) (call_edges schema)))
       (\<lambda>edge. try_res (collect_arguments args (call_parameters edge)) (\<lambda>vs.
          if length vs \<noteq> length args then Inl InvalidTransportFrame else Inr (ListValue vs)))"

section \<open>Messages and frames\<close>

definition message_request ::
  "wire_schema \<Rightarrow> u64 \<Rightarrow> distributed_message \<Rightarrow> runtime_error + data_frame_request" where
  "message_request schema operation_sequence m =
     (let producer = message_producer m; consumer = message_consumer m;
          request = (\<lambda>op inst sem res pay.
            \<lparr>request_operation_sequence = operation_sequence, request_edge_id = edge_bytes m,
             request_operation = op, request_call_instance_id = inst,
             request_semantic_revision = sem, request_result_revision = res, request_payload = pay\<rparr>) in
      try_res (validate_adjacent_roles producer consumer) (\<lambda>_.
        case message_payload m of
          Current export_id revision v \<Rightarrow>
            try_res (require_value_edge schema export_id producer consumer) (\<lambda>_.
              Inr (request CurrentOperation None revision None (Some v)))
        | Event export_id sequence v \<Rightarrow>
            try_res (require_event_edge schema export_id producer consumer) (\<lambda>_.
              Inr (request EventOperation None sequence None v))
        | CurrentCallRequest site inst func demand args \<Rightarrow>
            try_res (encode_call_arguments schema site func producer consumer CurrentMode args) (\<lambda>vs.
              Inr (request CurrentCallRequestOperation (Some inst) demand None (Some vs)))
        | CurrentCallResult site inst demand revision v \<Rightarrow>
            try_res (require_call_result_edge schema site producer consumer CurrentMode) (\<lambda>_.
              Inr (request CurrentCallResultOperation (Some inst) demand (Some revision) (Some v)))
        | CurrentCallDetach site inst demand \<Rightarrow>
            try_res (require_call_result_edge schema site consumer producer CurrentMode) (\<lambda>_.
              Inr (request CurrentCallDetachOperation (Some inst) demand None None))
        | InvocationRequest site inst func sequence args \<Rightarrow>
            try_res (encode_call_arguments schema site func producer consumer InvocationMode args) (\<lambda>vs.
              Inr (request InvocationRequestOperation (Some inst) sequence None (Some vs)))
        | InvocationResult site inst sequence v \<Rightarrow>
            try_res (require_call_result_edge schema site producer consumer InvocationMode) (\<lambda>_.
              Inr (request InvocationResultOperation (Some inst) sequence None (Some v)))))"

definition encode_message ::
  "(session_frame \<Rightarrow> frame_error + bytes) \<Rightarrow> session_link \<Rightarrow> wire_schema \<Rightarrow> u64
     \<Rightarrow> distributed_message \<Rightarrow> runtime_error + bytes" where
  "encode_message encode_frame l schema operation_sequence m =
     try_res (message_request schema operation_sequence m) (encode_data encode_frame l)"

text \<open>\<open>classify_data\<close> tries the edges in the order of the code; \<open>collect\<close> of the argument pairs into a
  \<open>BTreeMap\<close> inserts them one by one.\<close>

definition zip_arguments :: "bytes list \<Rightarrow> data_value list \<Rightarrow> (bytes \<times> data_value) list" where
  "zip_arguments ps vs = foldl (\<lambda>acc (p, v). bmap_insert p v acc) [] (zip ps vs)"

definition classify_call_request ::
  "call_edge \<Rightarrow> program_role \<Rightarrow> program_role \<Rightarrow> data_frame \<Rightarrow> bytes
     \<Rightarrow> runtime_error + distributed_message" where
  "classify_call_request edge producer consumer d inst =
     (let site = frame_edge_id d; rev = frame_semantic_revision d;
          msg = (\<lambda>p. \<lparr>message_producer = producer, message_consumer = consumer, message_payload = p\<rparr>) in
      if frame_operation d = CurrentCallDetachOperation
      then if call_mode_of edge \<noteq> CurrentMode \<or> frame_payload d \<noteq> None then Inl InvalidTransportFrame
           else Inr (msg (CurrentCallDetach site inst rev))
      else case frame_payload d of
        Some (ListValue vs) \<Rightarrow>
          if length vs \<noteq> length (call_parameters edge) then Inl InvalidTransportFrame
          else let args = zip_arguments (call_parameters edge) vs in
            if frame_operation d = CurrentCallRequestOperation \<and> call_mode_of edge = CurrentMode
            then Inr (msg (CurrentCallRequest site inst (function_export_id edge) rev args))
            else if frame_operation d = InvocationRequestOperation \<and> call_mode_of edge = InvocationMode
            then Inr (msg (InvocationRequest site inst (function_export_id edge) rev args))
            else Inl InvalidTransportFrame
      | _ \<Rightarrow> Inl InvalidTransportFrame)"

definition classify_call_result ::
  "call_edge \<Rightarrow> program_role \<Rightarrow> program_role \<Rightarrow> data_frame \<Rightarrow> bytes
     \<Rightarrow> runtime_error + distributed_message" where
  "classify_call_result edge producer consumer d inst =
     (let site = frame_edge_id d; rev = frame_semantic_revision d;
          msg = (\<lambda>p. \<lparr>message_producer = producer, message_consumer = consumer, message_payload = p\<rparr>) in
      case frame_payload d of
        None \<Rightarrow> Inl InvalidTransportFrame
      | Some v \<Rightarrow>
          if frame_operation d = CurrentCallResultOperation \<and> call_mode_of edge = CurrentMode
          then (case frame_result_revision d of
                  None \<Rightarrow> Inl InvalidTransportFrame
                | Some r \<Rightarrow> Inr (msg (CurrentCallResult site inst rev r v)))
          else if frame_operation d = InvocationResultOperation \<and> call_mode_of edge = InvocationMode
          then Inr (msg (InvocationResult site inst rev v))
          else Inl InvalidTransportFrame)"

definition classify_call ::
  "wire_schema \<Rightarrow> program_role \<Rightarrow> program_role \<Rightarrow> data_frame \<Rightarrow> runtime_error + distributed_message" where
  "classify_call schema producer consumer d =
     (case frame_call_instance_id d of
        None \<Rightarrow> Inl InvalidTransportFrame
      | Some inst \<Rightarrow>
          (let op = frame_operation d;
               request_edge =
                 (if op \<in> {CurrentCallRequestOperation, CurrentCallDetachOperation,
                           InvocationRequestOperation}
                  then find (\<lambda>e. call_site e = frame_edge_id d \<and> caller_role e = producer
                         \<and> callee_role e = consumer) (call_edges schema)
                  else None);
               result_edge =
                 (if op \<in> {CurrentCallResultOperation, InvocationResultOperation}
                  then find (\<lambda>e. call_site e = frame_edge_id d \<and> callee_role e = producer
                         \<and> caller_role e = consumer) (call_edges schema)
                  else None) in
           case request_edge of
             Some edge \<Rightarrow> classify_call_request edge producer consumer d inst
           | None \<Rightarrow>
               (case result_edge of
                  Some edge \<Rightarrow> classify_call_result edge producer consumer d inst
                | None \<Rightarrow> Inl UnknownTransportEdge)))"

definition classify_data ::
  "wire_schema \<Rightarrow> program_role \<Rightarrow> program_role \<Rightarrow> data_frame \<Rightarrow> runtime_error + distributed_message" where
  "classify_data schema producer consumer d =
     (let msg = (\<lambda>p. \<lparr>message_producer = producer, message_consumer = consumer, message_payload = p\<rparr>);
          event = (if frame_operation d = EventOperation
            then find (\<lambda>e. event_edge_export_id e = frame_edge_id d \<and> event_producer e = producer
                   \<and> event_consumer e = consumer) (event_edges schema) else None);
          current = (if frame_operation d = CurrentOperation
            then find (\<lambda>e. value_export_id e = frame_edge_id d \<and> value_producer e = producer
                   \<and> value_consumer e = consumer) (value_edges schema) else None) in
      case event of
        Some edge \<Rightarrow>
          if (frame_payload d \<noteq> None) \<noteq> event_has_payload edge then Inl InvalidTransportFrame
          else Inr (msg (Event (event_edge_export_id edge) (frame_semantic_revision d) (frame_payload d)))
      | None \<Rightarrow>
          (case current of
             Some edge \<Rightarrow>
               try_res (ok_or InvalidTransportFrame (frame_payload d)) (\<lambda>v.
                 Inr (msg (Current (value_export_id edge) (frame_semantic_revision d) v)))
           | None \<Rightarrow> classify_call schema producer consumer d))"

datatype decoded_frame =
    DecodedData u64 u64 distributed_message
  | DecodedAck u64
  | DecodedResync u64

definition decode_frame ::
  "(bytes \<Rightarrow> frame_error + session_frame) \<Rightarrow> session_link \<Rightarrow> wire_schema
     \<Rightarrow> program_role \<Rightarrow> program_role \<Rightarrow> bytes \<Rightarrow> runtime_error + decoded_frame" where
  "decode_frame decode_wire l schema producer consumer bs =
     try_res (validate_adjacent_roles producer consumer) (\<lambda>_.
       try_res (decode_identity decode_wire l bs) (\<lambda>frame.
         case frame of
           DataFrame d \<Rightarrow>
             try_res (classify_data schema producer consumer d) (\<lambda>m.
               Inr (DecodedData (frame_operation_sequence d) (frame_ack_through d) m))
         | AckFrame _ _ ack \<Rightarrow> Inr (DecodedAck ack)
         | ResyncFrame _ _ n \<Rightarrow> Inr (DecodedResync n)))"

section \<open>The outbound queue\<close>

record queued_message =
  queued_sequence :: u64
  queued_message_of :: distributed_message
  sent_generation :: "u64 option"

record outbound_queue =
  outbound_messages :: "queued_message list"
  outbound_limits :: queue_limits

record encoded_data =
  encoded_bytes_of :: bytes
  encoded_sequence :: u64
  encoded_ack_through :: u64

definition outbound_new :: "queue_limits \<Rightarrow> runtime_error + outbound_queue" where
  "outbound_new limits =
     (if max_messages limits = 0 \<or> max_bytes limits = 0
      then Inl (RuntimeFailure ''Client/Session queue limits must be positive'')
      else Inr \<lparr>outbound_messages = [], outbound_limits = limits\<rparr>)"

text \<open>\<open>iter_mut().rev().find(..)\<close>: the last queued message that satisfies the condition is replaced.\<close>

fun replace_last :: "('a \<Rightarrow> bool) \<Rightarrow> ('a \<Rightarrow> 'a) \<Rightarrow> 'a list \<Rightarrow> 'a list option" where
  "replace_last p f [] = None"
| "replace_last p f (x # xs) =
     (case replace_last p f xs of
        Some ys \<Rightarrow> Some (x # ys)
      | None \<Rightarrow> if p x then Some (f x # xs) else None)"

fun admit_messages ::
  "distributed_message list \<Rightarrow> queued_message list \<Rightarrow> session_link
     \<Rightarrow> runtime_error + (queued_message list \<times> session_link)" where
  "admit_messages [] queue l = Inr (queue, l)"
| "admit_messages (m # ms) queue l =
     (case replace_last (\<lambda>q. sent_generation q = None \<and> replaces_pending m (queued_message_of q))
             (\<lambda>q. q\<lparr>queued_message_of := m\<rparr>) queue of
        Some queue' \<Rightarrow> admit_messages ms queue' l
      | None \<Rightarrow>
          (case allocate_operation_sequence l of
             (Inl e, _) \<Rightarrow> Inl e
           | (Inr n, l') \<Rightarrow>
               admit_messages ms
                 (queue @ [\<lparr>queued_sequence = n, queued_message_of = m, sent_generation = None\<rparr>]) l'))"

fun account_messages ::
  "(u64 \<Rightarrow> distributed_message \<Rightarrow> runtime_error + bytes) \<Rightarrow> nat \<Rightarrow> nat \<Rightarrow> queued_message list
     \<Rightarrow> runtime_error + unit" where
  "account_messages enc limit encoded_bytes [] = Inr ()"
| "account_messages enc limit encoded_bytes (q # qs) =
     try_res (enc (queued_sequence q) (queued_message_of q)) (\<lambda>bs.
       case usize_add encoded_bytes (length bs) of
         None \<Rightarrow> Inl (QueueBytesFull limit)
       | Some n \<Rightarrow> if limit < n then Inl (QueueBytesFull limit) else account_messages enc limit n qs)"

definition outbound_push ::
  "(session_frame \<Rightarrow> frame_error + bytes) \<Rightarrow> wire_schema \<Rightarrow> distributed_message list
     \<Rightarrow> outbound_queue \<Rightarrow> session_link \<Rightarrow> runtime_error + (outbound_queue \<times> session_link)" where
  "outbound_push encode_frame schema messages q l =
     try_res (admit_messages messages (outbound_messages q) l) (\<lambda>(candidate, l').
       if max_messages (outbound_limits q) < length candidate
       then Inl (QueueFull (max_messages (outbound_limits q)))
       else try_res (account_messages (encode_message encode_frame l' schema)
              (max_bytes (outbound_limits q)) 0 candidate) (\<lambda>_.
         Inr (q\<lparr>outbound_messages := candidate\<rparr>, l')))"

definition encode_next ::
  "(session_frame \<Rightarrow> frame_error + bytes) \<Rightarrow> wire_schema \<Rightarrow> session_link \<Rightarrow> outbound_queue
     \<Rightarrow> runtime_error + encoded_data option" where
  "encode_next encode_frame schema l q =
     (case find (\<lambda>x. sent_generation x \<noteq> Some (link_generation l)) (outbound_messages q) of
        None \<Rightarrow> Inr None
      | Some x \<Rightarrow>
          try_res (encode_message encode_frame l schema (queued_sequence x) (queued_message_of x)) (\<lambda>bs.
            Inr (Some \<lparr>encoded_bytes_of = bs, encoded_sequence = queued_sequence x,
                       encoded_ack_through = applied_receive_through l\<rparr>)))"

fun mark_first :: "u64 \<Rightarrow> u64 \<Rightarrow> queued_message list \<Rightarrow> queued_message list option" where
  "mark_first n g [] = None"
| "mark_first n g (x # xs) =
     (if queued_sequence x = n then Some (x\<lparr>sent_generation := Some g\<rparr> # xs)
      else case mark_first n g xs of None \<Rightarrow> None | Some ys \<Rightarrow> Some (x # ys))"

definition mark_sent :: "u64 \<Rightarrow> u64 \<Rightarrow> outbound_queue \<Rightarrow> bool \<times> outbound_queue" where
  "mark_sent operation_sequence generation q =
     (case mark_first operation_sequence generation (outbound_messages q) of
        None \<Rightarrow> (False, q)
      | Some ms \<Rightarrow> (True, q\<lparr>outbound_messages := ms\<rparr>))"

definition acknowledge_through :: "u64 \<Rightarrow> outbound_queue \<Rightarrow> outbound_queue" where
  "acknowledge_through ack q =
     q\<lparr>outbound_messages := dropWhile (\<lambda>x. queued_sequence x \<le> ack) (outbound_messages q)\<rparr>"

definition resend_from :: "u64 \<Rightarrow> u64 \<Rightarrow> outbound_queue \<Rightarrow> (runtime_error + unit) \<times> outbound_queue" where
  "resend_from expected_next last_operation q =
     (if expected_next = 0 \<or> saturating_add last_operation 1 < expected_next
      then (Inl TransportSequenceMismatch, q)
      else (Inr (), q\<lparr>outbound_messages :=
              map (\<lambda>x. if expected_next \<le> queued_sequence x then x\<lparr>sent_generation := None\<rparr> else x)
                (outbound_messages q)\<rparr>))"

definition outbound_len :: "outbound_queue \<Rightarrow> nat" where
  "outbound_len q = length (outbound_messages q)"

definition has_sendable :: "u64 \<Rightarrow> outbound_queue \<Rightarrow> bool" where
  "has_sendable generation q =
     list_ex (\<lambda>x. sent_generation x \<noteq> Some generation) (outbound_messages q)"

definition outbound_clear :: "outbound_queue \<Rightarrow> outbound_queue" where
  "outbound_clear q = q\<lparr>outbound_messages := []\<rparr>"

section \<open>Messages survive the wire\<close>

definition schema_wf :: "wire_schema \<Rightarrow> bool" where
  "schema_wf schema \<longleftrightarrow>
     distinct (map (\<lambda>e. (call_site e, caller_role e, callee_role e)) (call_edges schema))
     \<and> (\<forall>e \<in> set (call_edges schema). distinct (call_parameters e))"

fun payload_wf :: "message_payload \<Rightarrow> bool" where
  "payload_wf (CurrentCallRequest _ _ _ _ args) = bmap_inv args"
| "payload_wf (InvocationRequest _ _ _ _ args) = bmap_inv args"
| "payload_wf _ = True"

definition message_wf :: "distributed_message \<Rightarrow> bool" where
  "message_wf m = payload_wf (message_payload m)"

definition event_typed :: "wire_schema \<Rightarrow> distributed_message \<Rightarrow> bool" where
  "event_typed schema m =
     (case message_payload m of
        Event export_id _ v \<Rightarrow>
          (\<forall>e \<in> set (event_edges schema). event_edge_export_id e = export_id
             \<and> event_producer e = message_producer m \<and> event_consumer e = message_consumer m
             \<longrightarrow> (v \<noteq> None) = event_has_payload e)
      | _ \<Rightarrow> True)"

lemma bmap_eqI:
  assumes "bmap_inv m" "bmap_inv m'" "map_of m = map_of m'"
  shows "m = m'"
proof -
  have d: "distinct (map fst m)" "distinct (map fst m')" using assms by (simp_all add: bmap_inv_distinct)
  have "x \<in> set m \<longleftrightarrow> x \<in> set m'" for x
    using assms(3) map_of_eq_Some_iff [OF d(1), of "fst x" "snd x"]
      map_of_eq_Some_iff [OF d(2), of "fst x" "snd x"] by simp
  then have "set m = set m'" by blast
  moreover have "inj_on fst (set m \<union> set m')" using calculation d by (simp add: distinct_map)
  ultimately show ?thesis
    using assms(1,2) d by (intro map_sorted_distinct_set_unique [of fst]) (simp_all add: strict_sorted_iff)
qed

lemma collect_arguments_Inr: "collect_arguments args ps = Inr vs \<longleftrightarrow> map (map_of args) ps = map Some vs"
  by (induction ps arbitrary: vs) (auto split: option.splits)

lemma zip_arguments_map:
  assumes "length ps = length vs" "distinct ps"
  shows "bmap_inv (zip_arguments ps vs) \<and> map_of (zip_arguments ps vs) = map_of (zip ps vs)"
proof -
  have "bmap_inv acc \<Longrightarrow> distinct (map fst xs) \<Longrightarrow>
      bmap_inv (foldl (\<lambda>acc (p, v). bmap_insert p v acc) acc xs)
      \<and> map_of (foldl (\<lambda>acc (p, v). bmap_insert p v acc) acc xs) = map_of acc ++ map_of xs"
    for acc :: "(bytes \<times> data_value) list" and xs
  proof (induction xs arbitrary: acc)
    case (Cons x xs)
    then show ?case
      using Cons.IH [of "bmap_insert (fst x) (snd x) acc"]
      by (cases x) (auto simp: bmap_inv_insert map_of_bmap_insert map_add_def fun_eq_iff
          image_iff split: option.split dest!: map_of_SomeD)
  qed simp
  from this [of "[]" "zip ps vs"] show ?thesis using assms by (simp add: zip_arguments_def)
qed

lemma zip_collected:
  assumes "collect_arguments args ps = Inr vs" "length vs = length args" "bmap_inv args" "distinct ps"
  shows "zip_arguments ps vs = args" "length ps = length vs"
proof -
  have m: "map (map_of args) ps = map Some vs" using assms(1) by (simp add: collect_arguments_Inr)
  then show l: "length ps = length vs" by (metis length_map)
  have "set ps \<subseteq> dom (map_of args)"
  proof
    fix p assume "p \<in> set ps"
    then have "map_of args p \<in> set (map Some vs)" using m by (metis image_eqI image_set)
    then show "p \<in> dom (map_of args)" by auto
  qed
  moreover have "card (dom (map_of args)) = card (set ps)"
    using assms l by (simp add: dom_map_of_conv_image_fst distinct_card bmap_inv_distinct
        flip: set_map)
  ultimately have dom: "set ps = dom (map_of args)"
    by (intro card_subset_eq) (simp_all add: finite_dom_map_of)
  have "map_of (zip ps vs) p = map_of args p" for p
  proof (cases "p \<in> set ps")
    case True
    then obtain i where i: "i < length ps" "p = ps ! i" by (auto simp: in_set_conv_nth)
    have "map_of (zip ps vs) p = Some (vs ! i)" using i l assms(4) by (simp add: map_of_zip_nth)
    also have "\<dots> = map_of args p" using arg_cong [OF m, of "\<lambda>xs. xs ! i"] i l by simp
    finally show ?thesis .
  next
    case False
    then show ?thesis using dom by (metis domIff l map_of_zip_is_None)
  qed
  then show "zip_arguments ps vs = args"
    using zip_arguments_map [OF l assms(4)] assms(3) by (intro bmap_eqI) auto
qed

lemma find_unique:
  assumes "distinct (map f xs)" "x \<in> set xs" "P x" "\<And>y. P y \<Longrightarrow> f y = f x"
  shows "find P xs = Some x"
proof -
  obtain y where y: "find P xs = Some y" using assms(2,3) by (metis find_None_iff not_None_eq)
  then have "y \<in> set xs" "P y" by (auto simp: find_Some_iff)
  then have "y = x" using assms by (metis distinct_map inj_onD)
  with y show ?thesis by simp
qed


lemma find_SomeD: "find P xs = Some x \<Longrightarrow> x \<in> set xs \<and> P x"
  by (auto simp: find_Some_iff)

lemma find_list_ex: "list_ex P xs \<Longrightarrow> \<exists>x. find P xs = Some x"
  by (metis find_None_iff list_ex_iff not_None_eq)

lemma find_call_edge:
  assumes "schema_wf schema" "e \<in> set (call_edges schema)"
  shows "find (\<lambda>x. call_site x = call_site e \<and> caller_role x = caller_role e
           \<and> callee_role x = callee_role e) (call_edges schema) = Some e"
    and "find (\<lambda>x. call_site x = call_site e \<and> callee_role x = callee_role e
           \<and> caller_role x = caller_role e) (call_edges schema) = Some e"
  using assms unfolding schema_wf_def by (auto intro: find_unique)

lemma encode_call_arguments_Inr:
  assumes "schema_wf schema" "bmap_inv args"
    and "encode_call_arguments schema site func producer consumer mode args = Inr v"
  obtains e vs where "v = ListValue vs" "e \<in> set (call_edges schema)" "call_site e = site"
    "caller_role e = producer" "callee_role e = consumer" "function_export_id e = func"
    "call_mode_of e = mode" "zip_arguments (call_parameters e) vs = args"
    "length vs = length (call_parameters e)"
proof -
  obtain e vs where e: "find (\<lambda>e. call_site e = site \<and> caller_role e = producer \<and> callee_role e = consumer
      \<and> function_export_id e = func \<and> call_mode_of e = mode) (call_edges schema) = Some e"
    and vs: "collect_arguments args (call_parameters e) = Inr vs" "length vs = length args"
    and v: "v = ListValue vs"
    using assms(3) by (auto simp: encode_call_arguments_def split: if_splits)
  have i: "e \<in> set (call_edges schema)" "call_site e = site" "caller_role e = producer"
    "callee_role e = consumer" "function_export_id e = func" "call_mode_of e = mode"
    using find_SomeD [OF e] by auto
  then have "distinct (call_parameters e)" using assms(1) by (simp add: schema_wf_def)
  with zip_collected [OF vs assms(2)] show thesis using that [OF v i] by simp
qed

lemma request_edge_of_result:
  assumes "require_call_result_edge schema site producer consumer mode = Inr u"
  obtains e where "e \<in> set (call_edges schema)" "call_site e = site" "callee_role e = producer"
    "caller_role e = consumer" "call_mode_of e = mode"
  using assms by (auto simp: require_call_result_edge_def list_ex_iff)

lemma classify_request:
  assumes wf: "schema_wf schema" "message_wf m" "event_typed schema m"
    and req: "message_request schema n m = Inr r"
  shows "classify_data schema (message_producer m) (message_consumer m) (data_frame_of l r) = Inr m"
proof (cases "message_payload m")
  case (Current export_id revision v)
  then have "list_ex (\<lambda>e. value_export_id e = export_id \<and> value_producer e = message_producer m
      \<and> value_consumer e = message_consumer m) (value_edges schema)"
    using req by (auto simp: message_request_def Let_def require_value_edge_def)
  from find_list_ex [OF this] obtain e where
    e: "find (\<lambda>e. value_export_id e = export_id \<and> value_producer e = message_producer m
      \<and> value_consumer e = message_consumer m) (value_edges schema) = Some e" by blast
  have "value_export_id e = export_id" using find_SomeD [OF e] by simp
  then show ?thesis using Current req e
    by (auto simp: message_request_def Let_def classify_data_def data_frame_of_def edge_bytes_def)
next
  case (Event export_id sequence v)
  then have "list_ex (\<lambda>e. event_edge_export_id e = export_id \<and> event_producer e = message_producer m
      \<and> event_consumer e = message_consumer m) (event_edges schema)"
    using req by (auto simp: message_request_def Let_def require_event_edge_def)
  from find_list_ex [OF this] obtain e where
    e: "find (\<lambda>e. event_edge_export_id e = export_id \<and> event_producer e = message_producer m
      \<and> event_consumer e = message_consumer m) (event_edges schema) = Some e" by blast
  have i: "e \<in> set (event_edges schema)" "event_edge_export_id e = export_id"
    "event_producer e = message_producer m" "event_consumer e = message_consumer m"
    using find_SomeD [OF e] by auto
  then have "(v \<noteq> None) = event_has_payload e" using wf(3) Event by (auto simp: event_typed_def)
  then show ?thesis using Event req e i(2)
    by (auto simp: message_request_def Let_def classify_data_def data_frame_of_def edge_bytes_def)
next
  case (CurrentCallRequest site inst func demand args)
  obtain v where v: "encode_call_arguments schema site func (message_producer m) (message_consumer m)
      CurrentMode args = Inr v" "bmap_inv args"
    using CurrentCallRequest req wf(2) by (auto simp: message_request_def Let_def message_wf_def)
  from encode_call_arguments_Inr [OF wf(1) v(2,1)] obtain e vs where
    e: "v = ListValue vs" "e \<in> set (call_edges schema)" "call_site e = site"
    "caller_role e = message_producer m" "callee_role e = message_consumer m"
    "function_export_id e = func" "call_mode_of e = CurrentMode"
    "zip_arguments (call_parameters e) vs = args" "length vs = length (call_parameters e)" .
  show ?thesis using CurrentCallRequest req v e find_call_edge [OF wf(1) e(2)]
    by (auto simp: message_request_def Let_def classify_data_def classify_call_def
        classify_call_request_def data_frame_of_def edge_bytes_def)
next
  case (InvocationRequest site inst func sequence args)
  obtain v where v: "encode_call_arguments schema site func (message_producer m) (message_consumer m)
      InvocationMode args = Inr v" "bmap_inv args"
    using InvocationRequest req wf(2) by (auto simp: message_request_def Let_def message_wf_def)
  from encode_call_arguments_Inr [OF wf(1) v(2,1)] obtain e vs where
    e: "v = ListValue vs" "e \<in> set (call_edges schema)" "call_site e = site"
    "caller_role e = message_producer m" "callee_role e = message_consumer m"
    "function_export_id e = func" "call_mode_of e = InvocationMode"
    "zip_arguments (call_parameters e) vs = args" "length vs = length (call_parameters e)" .
  show ?thesis using InvocationRequest req v e find_call_edge [OF wf(1) e(2)]
    by (auto simp: message_request_def Let_def classify_data_def classify_call_def
        classify_call_request_def data_frame_of_def edge_bytes_def)
next
  case (CurrentCallResult site inst demand revision v)
  then obtain e where e: "e \<in> set (call_edges schema)" "call_site e = site"
    "callee_role e = message_producer m" "caller_role e = message_consumer m" "call_mode_of e = CurrentMode"
    using req by (auto simp: message_request_def Let_def elim: request_edge_of_result)
  show ?thesis using CurrentCallResult req e find_call_edge [OF wf(1) e(1)]
    by (auto simp: message_request_def Let_def classify_data_def classify_call_def
        classify_call_result_def data_frame_of_def edge_bytes_def)
next
  case (InvocationResult site inst sequence v)
  then obtain e where e: "e \<in> set (call_edges schema)" "call_site e = site"
    "callee_role e = message_producer m" "caller_role e = message_consumer m" "call_mode_of e = InvocationMode"
    using req by (auto simp: message_request_def Let_def elim: request_edge_of_result)
  show ?thesis using InvocationResult req e find_call_edge [OF wf(1) e(1)]
    by (auto simp: message_request_def Let_def classify_data_def classify_call_def
        classify_call_result_def data_frame_of_def edge_bytes_def)
next
  case (CurrentCallDetach site inst demand)
  then obtain e where e: "e \<in> set (call_edges schema)" "call_site e = site"
    "callee_role e = message_consumer m" "caller_role e = message_producer m" "call_mode_of e = CurrentMode"
    using req by (auto simp: message_request_def Let_def elim: request_edge_of_result)
  show ?thesis using CurrentCallDetach req e find_call_edge [OF wf(1) e(1)]
    by (auto simp: message_request_def Let_def classify_data_def classify_call_def
        classify_call_request_def data_frame_of_def edge_bytes_def)
qed


lemma classify_request_only:
  assumes wf: "schema_wf schema" "message_wf m" and req: "message_request schema n m = Inr r"
    and m': "classify_data schema (message_producer m) (message_consumer m) (data_frame_of l r) = Inr m'"
  shows "m' = m"
proof (cases "\<exists>export_id sequence v. message_payload m = Event export_id sequence v")
  case True
  then obtain export_id sequence v where Event: "message_payload m = Event export_id sequence v" by blast
  then show ?thesis using req m'
    by (auto simp: message_request_def Let_def classify_data_def classify_call_def data_frame_of_def
        edge_bytes_def split: option.splits if_splits dest!: find_SomeD)
next
  case False
  then have "event_typed schema m" by (auto simp: event_typed_def split: message_payload.split)
  from classify_request [OF wf this req] m' show ?thesis by simp
qed

definition same_identity :: "session_link \<Rightarrow> session_link \<Rightarrow> bool" where
  "same_identity l l' \<longleftrightarrow> link_graph_hash l = link_graph_hash l'
     \<and> link_graph_revision l = link_graph_revision l' \<and> link_schema_hash l = link_schema_hash l'
     \<and> link_session_id l = link_session_id l' \<and> link_generation l = link_generation l'"

lemma decode_identity_data:
  assumes "same_identity l l'" "decode_wire bs = Inr (DataFrame (data_frame_of l r))"
  shows "decode_identity decode_wire l' bs = Inr (DataFrame (data_frame_of l r))"
  using assms by (simp add: decode_identity_def data_frame_of_def same_identity_def
      validate_private_identity_def)


definition example_schema :: wire_schema where
  "example_schema = \<lparr>value_edges = [\<lparr>value_export_id = [7], value_producer = ClientRole,
       value_consumer = SessionRole\<rparr>],
     event_edges = [\<lparr>event_edge_export_id = [3], event_producer = ClientRole,
       event_consumer = SessionRole, event_has_payload = True\<rparr>],
     call_edges = []\<rparr>"

definition example_link :: session_link where
  "example_link = link_new [1] [2] 1 [3] 1"

definition example_event :: distributed_message where
  "example_event = \<lparr>message_producer = ClientRole, message_consumer = SessionRole,
     message_payload = Event [3] 5 (Some (TextValue [104]))\<rparr>"

definition example_event_frame :: session_frame where
  "example_event_frame =
     (case message_request example_schema 1 example_event of
        Inr r \<Rightarrow> DataFrame (data_frame_of example_link r) | Inl _ \<Rightarrow> AckFrame [] 0 0)"

definition example_encode :: "session_frame \<Rightarrow> frame_error + bytes" where
  "example_encode f = (if f = example_event_frame then Inr [1] else Inl OtherFrameError)"

definition example_decode :: "bytes \<Rightarrow> frame_error + session_frame" where
  "example_decode bs = (if bs = [1] then Inr example_event_frame else Inl OtherFrameError)"

lemma example_encodes: "encode_message example_encode example_link example_schema 1 example_event = Inr [1]"
  by (simp add: encode_message_def encode_data_def message_request_def example_event_def Let_def
      validate_adjacent_roles_def require_event_edge_def example_schema_def example_encode_def
      example_event_frame_def)


end
