(* ===== verification/Session_Runtime.thy ===== *)
theory Session_Runtime
  imports Session_Queue
begin

text \<open>
  The transport side of the two runtimes that share a client session
  (\<open>crates/boon_distributed_runtime/src/client.rs\<close> and \<open>session.rs\<close>): binding and rebinding to a
  transport generation, publishing the messages of an endpoint update, receiving frames, leasing
  and acknowledging outbound frames, and the ownership of transient effects. The endpoint (the Boon
  machine behind the runtime), the byte codec of frames and the message fingerprint are the
  fields of \<open>transport_env\<close>.
\<close>

section \<open>Environment\<close>

text \<open>A preparation changes the endpoint and yields an update that is either committed or rolled
  back; of its turns the runtimes use the started and the cancelled transient effects.\<close>

record ('e, 'p) transport_env =
  encode_wire :: "session_frame \<Rightarrow> frame_error + bytes"
  decode_wire :: "bytes \<Rightarrow> frame_error + session_frame"
  fingerprint_of :: "distributed_message \<Rightarrow> runtime_error + bytes"
  prepare_accept :: "distributed_message \<Rightarrow> program_role list \<Rightarrow> 'e \<Rightarrow> (runtime_error + 'p) \<times> 'e"
  prepared_messages :: "'p \<Rightarrow> distributed_message list"
  prepared_effects :: "'p \<Rightarrow> (nat list \<times> nat list) list"
  commit_prepared :: "'p \<Rightarrow> 'e \<Rightarrow> 'e"
  rollback_prepared :: "'p \<Rightarrow> 'e \<Rightarrow> (runtime_error + unit) \<times> 'e"

datatype lease_action = LeasedData u64 u64 u64 | LeasedControl sent_control

definition record_transient_effects :: "(nat list \<times> nat list) list \<Rightarrow> nat list \<Rightarrow> nat list" where
  "record_transient_effects turns owned =
     fold (\<lambda>(started, cancelled) s. fold bset_remove cancelled (fold bset_insert started s)) turns owned"

section \<open>The client runtime\<close>

record 'e client_runtime =
  client_endpoint :: 'e
  client_graph_hash :: bytes
  client_graph_revision :: u64
  client_wire_schema :: wire_schema
  client_wire_schema_hash :: bytes
  client_link :: "session_link option"
  client_connected :: bool
  client_outbound :: outbound_queue
  leased_session_frame :: "(bytes \<times> lease_action) option"
  client_owned_effects :: "nat list"

definition client_stage ::
  "('e, 'p) transport_env \<Rightarrow> wire_schema \<Rightarrow> distributed_message list \<Rightarrow> session_link option
     \<Rightarrow> outbound_queue \<Rightarrow> runtime_error + (session_link option \<times> outbound_queue)" where
  "client_stage env schema messages candidate_link candidate_outbound =
     (if messages = [] then Inr (candidate_link, candidate_outbound)
      else case candidate_link of
        None \<Rightarrow> Inl SessionDisconnected
      | Some l \<Rightarrow>
          if list_ex (\<lambda>m. message_producer m \<noteq> ClientRole \<or> message_consumer m \<noteq> SessionRole) messages
          then Inl UnknownTransportEdge
          else try_res (outbound_push (encode_wire env) schema messages candidate_outbound l)
            (\<lambda>(q, l'). Inr (Some l', q)))"

definition client_route_prepared_with_transport ::
  "('e, 'p) transport_env \<Rightarrow> 'p \<Rightarrow> session_link option \<Rightarrow> outbound_queue \<Rightarrow> 'e client_runtime
     \<Rightarrow> (runtime_error + (nat list \<times> nat list) list) \<times> 'e client_runtime" where
  "client_route_prepared_with_transport env prepared candidate_link candidate_outbound c =
     (case client_stage env (client_wire_schema c) (prepared_messages env prepared)
             candidate_link candidate_outbound of
        Inl e \<Rightarrow>
          (case rollback_prepared env prepared (client_endpoint c) of
             (Inl _, ep) \<Rightarrow>
               (Inl (RuntimeFailure ''distributed Client publication failed; rollback failed''),
                c\<lparr>client_endpoint := ep\<rparr>)
           | (Inr _, ep) \<Rightarrow> (Inl e, c\<lparr>client_endpoint := ep\<rparr>))
      | Inr (l, q) \<Rightarrow>
          (Inr (prepared_effects env prepared),
           c\<lparr>client_endpoint := commit_prepared env prepared (client_endpoint c),
             client_link := l, client_outbound := q,
             client_owned_effects :=
               record_transient_effects (prepared_effects env prepared) (client_owned_effects c)\<rparr>))"

definition client_route_prepared ::
  "('e, 'p) transport_env \<Rightarrow> 'p \<Rightarrow> 'e client_runtime
     \<Rightarrow> (runtime_error + (nat list \<times> nat list) list) \<times> 'e client_runtime" where
  "client_route_prepared env prepared c =
     client_route_prepared_with_transport env prepared (client_link c) (client_outbound c) c"

text \<open>A handler prepares an endpoint update (\<open>prepare\<close>) and routes it.\<close>

definition client_publish ::
  "('e, 'p) transport_env \<Rightarrow> ('e \<Rightarrow> (runtime_error + 'p) \<times> 'e) \<Rightarrow> 'e client_runtime
     \<Rightarrow> (runtime_error + (nat list \<times> nat list) list) \<times> 'e client_runtime" where
  "client_publish env prepare c =
     (case prepare (client_endpoint c) of
        (Inl e, ep) \<Rightarrow> (Inl e, c\<lparr>client_endpoint := ep\<rparr>)
      | (Inr prepared, ep) \<Rightarrow> client_route_prepared env prepared (c\<lparr>client_endpoint := ep\<rparr>))"

definition client_candidate_link ::
  "bytes \<Rightarrow> u64 \<Rightarrow> u64 \<Rightarrow> 'e client_runtime \<Rightarrow> runtime_error + session_link" where
  "client_candidate_link session_id generation applied_client_through c =
     (let fresh = link_new (client_graph_hash c) (client_wire_schema_hash c)
                    (client_graph_revision c) session_id generation;
          rebased = (case rebase_send_after_handshake applied_client_through fresh of
                       (Inl e, _) \<Rightarrow> Inl e | (Inr _, l) \<Rightarrow> Inr l) in
      case client_link c of
        Some l \<Rightarrow> if link_session_id l = session_id
                  then link_rebind generation applied_client_through l else rebased
      | None \<Rightarrow> rebased)"

definition client_bind ::
  "('e, 'p) transport_env \<Rightarrow> ('e \<Rightarrow> (runtime_error + 'p) \<times> 'e) \<Rightarrow> bytes \<Rightarrow> u64 \<Rightarrow> u64
     \<Rightarrow> 'e client_runtime \<Rightarrow> (runtime_error + (nat list \<times> nat list) list) \<times> 'e client_runtime" where
  "client_bind env prepare session_id generation applied_client_through c =
     (if generation = 0 then (Inl StaleTransportGeneration, c)
      else case client_candidate_link session_id generation applied_client_through c of
        Inl e \<Rightarrow> (Inl e, c)
      | Inr l \<Rightarrow>
          (case prepare (client_endpoint c) of
             (Inl e, ep) \<Rightarrow> (Inl e, c\<lparr>client_endpoint := ep\<rparr>)
           | (Inr prepared, ep) \<Rightarrow>
               (case client_route_prepared_with_transport env prepared (Some l)
                       (outbound_clear (client_outbound c)) (c\<lparr>client_endpoint := ep\<rparr>) of
                  (Inl e, c') \<Rightarrow> (Inl e, c')
                | (Inr turns, c') \<Rightarrow>
                    (Inr turns, c'\<lparr>client_connected := True, leased_session_frame := None\<rparr>))))"

definition client_dispatch ::
  "('e, 'p) transport_env \<Rightarrow> ('e \<Rightarrow> (runtime_error + 'p) \<times> 'e) \<Rightarrow> 'e client_runtime
     \<Rightarrow> (runtime_error + (nat list \<times> nat list) list) \<times> 'e client_runtime" where
  "client_dispatch env prepare c =
     (if \<not> client_connected c then (Inl SessionDisconnected, c) else client_publish env prepare c)"

definition client_mark_stale ::
  "('e, 'p) transport_env \<Rightarrow> (nat list \<Rightarrow> 'e \<Rightarrow> (runtime_error + 'p) \<times> 'e)
     \<Rightarrow> ('e \<Rightarrow> (runtime_error + 'p) \<times> 'e) \<Rightarrow> 'e client_runtime
     \<Rightarrow> (runtime_error + (nat list \<times> nat list) list) \<times> 'e client_runtime" where
  "client_mark_stale env prepare_cancellation prepare c =
     (let cancelled =
        (if client_owned_effects c = [] then (Inr [], c)
         else case client_publish env (prepare_cancellation (client_owned_effects c)) c of
           (Inl e, c') \<Rightarrow> (Inl e, c')
         | (Inr turns, c') \<Rightarrow> (Inr turns, c'\<lparr>client_owned_effects := []\<rparr>)) in
      case cancelled of
        (Inl e, c') \<Rightarrow> (Inl e, c')
      | (Inr turns, c') \<Rightarrow>
          (case prepare (client_endpoint c') of
             (Inl e, ep) \<Rightarrow> (Inl e, c'\<lparr>client_endpoint := ep\<rparr>)
           | (Inr prepared, ep) \<Rightarrow>
               (case client_route_prepared_with_transport env prepared (client_link c')
                       (outbound_clear (client_outbound c')) (c'\<lparr>client_endpoint := ep\<rparr>) of
                  (Inl e, c'') \<Rightarrow> (Inl e, c'')
                | (Inr later, c'') \<Rightarrow>
                    (Inr (turns @ later),
                     c''\<lparr>client_connected := False, leased_session_frame := None\<rparr>))))"

definition client_finish_transient_effect ::
  "('e, 'p) transport_env \<Rightarrow> ('e \<Rightarrow> (runtime_error + 'p) \<times> 'e) \<Rightarrow> (nat \<Rightarrow> 'e \<Rightarrow> bool) \<Rightarrow> nat
     \<Rightarrow> 'e client_runtime \<Rightarrow> (runtime_error + (nat list \<times> nat list) list) \<times> 'e client_runtime" where
  "client_finish_transient_effect env prepare has_pending call_id c =
     (if \<not> bset_contains call_id (client_owned_effects c) then (Inl InvalidLease, c)
      else case client_publish env prepare c of
        (Inl e, c') \<Rightarrow> (Inl e, c')
      | (Inr turns, c') \<Rightarrow>
          (Inr turns,
           if has_pending call_id (client_endpoint c') then c'
           else c'\<lparr>client_owned_effects := bset_remove call_id (client_owned_effects c')\<rparr>))"

definition client_cancel_all_transient_effects ::
  "('e, 'p) transport_env \<Rightarrow> (nat list \<Rightarrow> program_role list \<Rightarrow> 'e \<Rightarrow> (runtime_error + 'p) \<times> 'e)
     \<Rightarrow> 'e client_runtime \<Rightarrow> (runtime_error + (nat list \<times> nat list) list) \<times> 'e client_runtime" where
  "client_cancel_all_transient_effects env prepare_cancellation c =
     (case client_publish env
             (prepare_cancellation (client_owned_effects c)
               (if client_connected c then [SessionRole] else [])) c of
        (Inl e, c') \<Rightarrow> (Inl e, c')
      | (Inr turns, c') \<Rightarrow> (Inr turns, c'\<lparr>client_owned_effects := []\<rparr>))"

definition client_accept_session_frame ::
  "('e, 'p) transport_env \<Rightarrow> bytes \<Rightarrow> 'e client_runtime
     \<Rightarrow> (runtime_error + (nat list \<times> nat list) list) \<times> 'e client_runtime" where
  "client_accept_session_frame env bs c =
     (if \<not> client_connected c then (Inl SessionDisconnected, c)
      else case client_link c of
        None \<Rightarrow> (Inl SessionDisconnected, c)
      | Some l \<Rightarrow>
          (case decode_frame (decode_wire env) l (client_wire_schema c) SessionRole ClientRole bs of
             Inl e \<Rightarrow> (Inl e, c)
           | Inr (DecodedData operation_sequence ack m) \<Rightarrow>
               (case fingerprint_of env m of
                  Inl e \<Rightarrow> (Inl e, c)
                | Inr fingerprint \<Rightarrow>
                    (case accept_peer_ack ack l of
                       (Inl e, _) \<Rightarrow> (Inl e, c)
                     | (Inr acknowledged, l1) \<Rightarrow>
                         (let q = acknowledge_through acknowledged (client_outbound c) in
                          case classify_receive operation_sequence fingerprint l1 of
                            Inl e \<Rightarrow> (Inl e, c)
                          | Inr NextOperation \<Rightarrow>
                              (case prepare_accept env m [SessionRole] (client_endpoint c) of
                                 (Inl e, ep) \<Rightarrow> (Inl e, c\<lparr>client_endpoint := ep\<rparr>)
                               | (Inr prepared, ep) \<Rightarrow>
                                   (case accept_receive operation_sequence fingerprint l1 of
                                      (Inl e, _) \<Rightarrow> (Inl e, c\<lparr>client_endpoint := ep\<rparr>)
                                    | (Inr _, l2) \<Rightarrow>
                                        client_route_prepared_with_transport env prepared (Some l2) q
                                          (c\<lparr>client_endpoint := ep\<rparr>)))
                          | Inr DuplicateOperation \<Rightarrow>
                              (case accept_receive operation_sequence fingerprint l1 of
                                 (Inl e, _) \<Rightarrow> (Inl e, c)
                               | (Inr _, l2) \<Rightarrow>
                                   (Inr [], c\<lparr>client_link := Some l2, client_outbound := q\<rparr>))
                          | Inr (GapOperation expected_next) \<Rightarrow>
                              (Inr [], c\<lparr>client_link := Some (request_resync expected_next l1),
                                         client_outbound := q\<rparr>))))
           | Inr (DecodedAck ack) \<Rightarrow>
               (case accept_peer_ack ack l of
                  (Inl e, _) \<Rightarrow> (Inl e, c)
                | (Inr acknowledged, l1) \<Rightarrow>
                    (Inr [], c\<lparr>client_link := Some l1,
                       client_outbound := acknowledge_through acknowledged (client_outbound c)\<rparr>))
           | Inr (DecodedResync expected_next) \<Rightarrow>
               (case resend_from expected_next (last_send_operation_sequence l) (client_outbound c) of
                  (Inl e, _) \<Rightarrow> (Inl e, c)
                | (Inr _, q) \<Rightarrow> (Inr [], c\<lparr>client_outbound := q\<rparr>))))"

text \<open>The choice of the next outbound frame, common to both runtimes: a pending resynchronisation,
  then the next unsent message, then a pending acknowledgement.\<close>

definition next_outbound_frame ::
  "('e, 'p) transport_env \<Rightarrow> wire_schema \<Rightarrow> session_link \<Rightarrow> outbound_queue
     \<Rightarrow> runtime_error + (bytes \<times> lease_action) option" where
  "next_outbound_frame env schema l q =
     try_res (if has_resync_pending l then encode_pending_control (encode_wire env) l else Inr None)
       (\<lambda>resync. case resync of
          Some (bs, control) \<Rightarrow> Inr (Some (bs, LeasedControl control))
        | None \<Rightarrow>
            try_res (encode_next (encode_wire env) schema l q) (\<lambda>data. case data of
              Some d \<Rightarrow> Inr (Some (encoded_bytes_of d,
                LeasedData (encoded_sequence d) (link_generation l) (encoded_ack_through d)))
            | None \<Rightarrow>
                try_res (encode_pending_control (encode_wire env) l) (\<lambda>control.
                  Inr (map_option (\<lambda>(bs, x). (bs, LeasedControl x)) control))))"

definition client_next_session_frame ::
  "('e, 'p) transport_env \<Rightarrow> 'e client_runtime
     \<Rightarrow> (runtime_error + bytes option) \<times> 'e client_runtime" where
  "client_next_session_frame env c =
     (if \<not> client_connected c then (Inl SessionDisconnected, c)
      else case leased_session_frame c of
        Some (bs, _) \<Rightarrow> (Inr (Some bs), c)
      | None \<Rightarrow>
          (case client_link c of
             None \<Rightarrow> (Inl SessionDisconnected, c)
           | Some l \<Rightarrow>
               (case next_outbound_frame env (client_wire_schema c) l (client_outbound c) of
                  Inl e \<Rightarrow> (Inl e, c)
                | Inr None \<Rightarrow> (Inr None, c)
                | Inr (Some (bs, action)) \<Rightarrow>
                    (Inr (Some bs), c\<lparr>leased_session_frame := Some (bs, action)\<rparr>))))"

definition client_acknowledge_session_frame :: "'e client_runtime \<Rightarrow> bool \<times> 'e client_runtime" where
  "client_acknowledge_session_frame c =
     (case leased_session_frame c of
        None \<Rightarrow> (False, c)
      | Some (bs, action) \<Rightarrow>
          (case client_link c of
             None \<Rightarrow> (False, c)
           | Some l \<Rightarrow>
               (case action of
                  LeasedData operation_sequence generation ack_through \<Rightarrow>
                    (case mark_sent operation_sequence generation (client_outbound c) of
                       (False, _) \<Rightarrow> (False, c)
                     | (True, q) \<Rightarrow>
                         (True, c\<lparr>leased_session_frame := None, client_outbound := q,
                            client_link := Some (acknowledge_piggybacked_receive ack_through l)\<rparr>))
                | LeasedControl control \<Rightarrow>
                    (True, c\<lparr>leased_session_frame := None,
                       client_link := Some (acknowledge_sent_control control l)\<rparr>))))"

definition client_pending_session_frames :: "'e client_runtime \<Rightarrow> nat" where
  "client_pending_session_frames c =
     outbound_len (client_outbound c)
     + (case client_link c of None \<Rightarrow> 0 | Some l \<Rightarrow> pending_control_count l)"

section \<open>The session runtime\<close>

record 'e session_runtime =
  session_endpoint :: 'e
  session_wire_schema :: wire_schema
  session_link_of :: session_link
  session_connected :: bool
  inbound_client_frames :: "bytes list"
  inbound_client_bytes :: nat
  inbound_limits :: queue_limits
  outbound_client :: outbound_queue
  leased_client_frame :: "(bytes \<times> lease_action) option"
  outbound_server :: typed_queue
  session_owned_effects :: "nat list"

definition SESSION_SERVER_TARGET :: "program_role list" where
  "SESSION_SERVER_TARGET = [ServerRole]"

definition SESSION_CONNECTED_TARGETS :: "program_role list" where
  "SESSION_CONNECTED_TARGETS = [ClientRole, ServerRole]"

definition MAX_FRAME_BYTES :: nat where
  "MAX_FRAME_BYTES = 256 * 1024"

definition publish_targets :: "'e session_runtime \<Rightarrow> program_role list" where
  "publish_targets s = (if session_connected s then SESSION_CONNECTED_TARGETS else SESSION_SERVER_TARGET)"

text \<open>The split of the messages by consumer, which refuses the first message of a wrong producer or
  addressed to the session itself.\<close>

fun split_messages ::
  "distributed_message list \<Rightarrow> runtime_error + (distributed_message list \<times> distributed_message list)" where
  "split_messages [] = Inr ([], [])"
| "split_messages (m # ms) =
     (if message_producer m \<noteq> SessionRole then Inl UnknownTransportEdge
      else case message_consumer m of
        SessionRole \<Rightarrow> Inl UnknownTransportEdge
      | ClientRole \<Rightarrow> try_res (split_messages ms) (\<lambda>(cs, ss). Inr (m # cs, ss))
      | ServerRole \<Rightarrow> try_res (split_messages ms) (\<lambda>(cs, ss). Inr (cs, m # ss)))"

definition session_stage ::
  "('e, 'p) transport_env \<Rightarrow> bool \<Rightarrow> distributed_message list \<Rightarrow> distributed_message list
     \<Rightarrow> session_link \<Rightarrow> outbound_queue \<Rightarrow> typed_queue \<Rightarrow> 'e session_runtime
     \<Rightarrow> runtime_error + (session_link \<times> outbound_queue \<times> typed_queue)" where
  "session_stage env candidate_connected client_messages server_messages l q server s =
     (if \<not> candidate_connected \<and> client_messages \<noteq> [] then Inl SessionDisconnected
      else if candidate_connected \<and> leased_client_frame s \<noteq> None \<and> client_messages \<noteq> []
      then Inl (QueueFull (max_messages (outbound_limits q)))
      else try_res
        (if candidate_connected then outbound_push (encode_wire env) (session_wire_schema s) client_messages q l
         else Inr (q, l))
        (\<lambda>(q', l'). case typed_queue_push server_messages server of
            (Inl e, _) \<Rightarrow> Inl e
          | (Inr _, server') \<Rightarrow> Inr (l', q', server')))"

definition session_rollback ::
  "('e, 'p) transport_env \<Rightarrow> 'p \<Rightarrow> runtime_error \<Rightarrow> 'e session_runtime
     \<Rightarrow> (runtime_error + 'a) \<times> 'e session_runtime" where
  "session_rollback env prepared e s =
     (case rollback_prepared env prepared (session_endpoint s) of
        (Inl _, ep) \<Rightarrow>
          (Inl (RuntimeFailure ''distributed Session publication failed; rollback failed''),
           s\<lparr>session_endpoint := ep\<rparr>)
      | (Inr _, ep) \<Rightarrow> (Inl e, s\<lparr>session_endpoint := ep\<rparr>))"

definition session_route_prepared_with_transport ::
  "('e, 'p) transport_env \<Rightarrow> 'p \<Rightarrow> bool \<Rightarrow> session_link \<Rightarrow> outbound_queue \<Rightarrow> typed_queue
     \<Rightarrow> 'e session_runtime
     \<Rightarrow> (runtime_error + (nat list \<times> nat list) list) \<times> 'e session_runtime" where
  "session_route_prepared_with_transport env prepared candidate_connected l q server s =
     (case split_messages (prepared_messages env prepared) of
        Inl e \<Rightarrow> session_rollback env prepared e s
      | Inr (client_messages, server_messages) \<Rightarrow>
          (case session_stage env candidate_connected client_messages server_messages l q server s of
             Inl e \<Rightarrow> session_rollback env prepared e s
           | Inr (l', q', server') \<Rightarrow>
               (Inr (prepared_effects env prepared),
                s\<lparr>session_endpoint := commit_prepared env prepared (session_endpoint s),
                  session_connected := candidate_connected, session_link_of := l', outbound_client := q',
                  outbound_server := server',
                  session_owned_effects :=
                    record_transient_effects (prepared_effects env prepared)
                      (session_owned_effects s)\<rparr>)))"

definition session_route_prepared ::
  "('e, 'p) transport_env \<Rightarrow> 'p \<Rightarrow> 'e session_runtime
     \<Rightarrow> (runtime_error + (nat list \<times> nat list) list) \<times> 'e session_runtime" where
  "session_route_prepared env prepared s =
     session_route_prepared_with_transport env prepared (session_connected s) (session_link_of s)
       (outbound_client s) (outbound_server s) s"

definition session_publish ::
  "('e, 'p) transport_env \<Rightarrow> ('e \<Rightarrow> (runtime_error + 'p) \<times> 'e) \<Rightarrow> 'e session_runtime
     \<Rightarrow> (runtime_error + (nat list \<times> nat list) list) \<times> 'e session_runtime" where
  "session_publish env prepare s =
     (case prepare (session_endpoint s) of
        (Inl e, ep) \<Rightarrow> (Inl e, s\<lparr>session_endpoint := ep\<rparr>)
      | (Inr prepared, ep) \<Rightarrow> session_route_prepared env prepared (s\<lparr>session_endpoint := ep\<rparr>))"

definition session_mark_current ::
  "('e, 'p) transport_env \<Rightarrow> ('e \<Rightarrow> (runtime_error + 'p) \<times> 'e) \<Rightarrow> 'e session_runtime
     \<Rightarrow> (runtime_error + (nat list \<times> nat list) list) \<times> 'e session_runtime" where
  "session_mark_current env prepare s =
     (case prepare (session_endpoint s) of
        (Inl e, ep) \<Rightarrow> (Inl e, s\<lparr>session_endpoint := ep\<rparr>)
      | (Inr prepared, ep) \<Rightarrow>
          session_route_prepared_with_transport env prepared True (session_link_of s)
            (outbound_client s) (outbound_server s) (s\<lparr>session_endpoint := ep\<rparr>))"

definition session_rebind_client ::
  "('e, 'p) transport_env \<Rightarrow> ('e \<Rightarrow> (runtime_error + 'p) \<times> 'e) \<Rightarrow> u64 \<Rightarrow> u64 \<Rightarrow> 'e session_runtime
     \<Rightarrow> (runtime_error + (nat list \<times> nat list) list) \<times> 'e session_runtime" where
  "session_rebind_client env prepare generation applied_server_through s =
     (if generation = 0 then (Inl StaleTransportGeneration, s)
      else case link_rebind generation applied_server_through (session_link_of s) of
        Inl e \<Rightarrow> (Inl e, s)
      | Inr l \<Rightarrow>
          (case prepare (session_endpoint s) of
             (Inl e, ep) \<Rightarrow> (Inl e, s\<lparr>session_endpoint := ep\<rparr>)
           | (Inr prepared, ep) \<Rightarrow>
               session_route_prepared_with_transport env prepared True l
                 (outbound_clear (outbound_client s)) (outbound_server s)
                 (s\<lparr>session_endpoint := ep, inbound_client_frames := [], inbound_client_bytes := 0,
                    leased_client_frame := None\<rparr>)))"

definition session_mark_stale ::
  "('e, 'p) transport_env \<Rightarrow> ('e \<Rightarrow> (runtime_error + 'p) \<times> 'e) \<Rightarrow> 'e session_runtime
     \<Rightarrow> (runtime_error + (nat list \<times> nat list) list) \<times> 'e session_runtime" where
  "session_mark_stale env prepare s =
     (case retain_session_resume_snapshots (outbound_server s) of
        (Inl e, _) \<Rightarrow> (Inl e, s)
      | (Inr _, server) \<Rightarrow>
          (case prepare (session_endpoint s) of
             (Inl e, ep) \<Rightarrow> (Inl e, s\<lparr>session_endpoint := ep\<rparr>)
           | (Inr prepared, ep) \<Rightarrow>
               (case session_route_prepared_with_transport env prepared False (session_link_of s)
                       (outbound_client s) server (s\<lparr>session_endpoint := ep\<rparr>) of
                  (Inl e, s') \<Rightarrow> (Inl e, s')
                | (Inr turns, s') \<Rightarrow>
                    (Inr turns, s'\<lparr>inbound_client_frames := [], inbound_client_bytes := 0,
                                   leased_client_frame := None\<rparr>))))"

definition admit_client_frame ::
  "bytes \<Rightarrow> 'e session_runtime \<Rightarrow> (runtime_error + unit) \<times> 'e session_runtime" where
  "admit_client_frame bs s =
     (if \<not> session_connected s then (Inl SessionDisconnected, s)
      else if MAX_FRAME_BYTES < length bs then (Inl InvalidTransportFrame, s)
      else if max_messages (inbound_limits s) \<le> length (inbound_client_frames s)
      then (Inl (QueueFull (max_messages (inbound_limits s))), s)
      else case usize_add (inbound_client_bytes s) (length bs) of
        None \<Rightarrow> (Inl (QueueBytesFull (max_bytes (inbound_limits s))), s)
      | Some n \<Rightarrow>
          if max_bytes (inbound_limits s) < n
          then (Inl (QueueBytesFull (max_bytes (inbound_limits s))), s)
          else (Inr (), s\<lparr>inbound_client_frames := inbound_client_frames s @ [bs],
                         inbound_client_bytes := n\<rparr>))"

text \<open>The handling of the frame at the front of the inbound queue, before it is removed.\<close>

definition session_accept_client_frame ::
  "('e, 'p) transport_env \<Rightarrow> bytes \<Rightarrow> 'e session_runtime
     \<Rightarrow> (runtime_error + (nat list \<times> nat list) list) \<times> 'e session_runtime" where
  "session_accept_client_frame env bs s =
     (let l = session_link_of s in
      case decode_frame (decode_wire env) l (session_wire_schema s) ClientRole SessionRole bs of
        Inl e \<Rightarrow> (Inl e, s)
      | Inr (DecodedData operation_sequence ack m) \<Rightarrow>
          (case fingerprint_of env m of
             Inl e \<Rightarrow> (Inl e, s)
           | Inr fingerprint \<Rightarrow>
               (case accept_peer_ack ack l of
                  (Inl e, _) \<Rightarrow> (Inl e, s)
                | (Inr acknowledged, l1) \<Rightarrow>
                    (let q = acknowledge_through acknowledged (outbound_client s) in
                     case classify_receive operation_sequence fingerprint l1 of
                       Inl e \<Rightarrow> (Inl e, s)
                     | Inr NextOperation \<Rightarrow>
                         (case prepare_accept env m SESSION_CONNECTED_TARGETS (session_endpoint s) of
                            (Inl e, ep) \<Rightarrow> (Inl e, s\<lparr>session_endpoint := ep\<rparr>)
                          | (Inr prepared, ep) \<Rightarrow>
                              (case accept_receive operation_sequence fingerprint l1 of
                                 (Inl e, _) \<Rightarrow> (Inl e, s\<lparr>session_endpoint := ep\<rparr>)
                               | (Inr _, l2) \<Rightarrow>
                                   session_route_prepared_with_transport env prepared
                                     (session_connected s) l2 q (outbound_server s)
                                     (s\<lparr>session_endpoint := ep\<rparr>)))
                     | Inr DuplicateOperation \<Rightarrow>
                         (case accept_receive operation_sequence fingerprint l1 of
                            (Inl e, _) \<Rightarrow> (Inl e, s)
                          | (Inr _, l2) \<Rightarrow>
                              (Inr [], s\<lparr>session_link_of := l2, outbound_client := q\<rparr>))
                     | Inr (GapOperation expected_next) \<Rightarrow>
                         (Inr [], s\<lparr>session_link_of := request_resync expected_next l1,
                                    outbound_client := q\<rparr>))))
      | Inr (DecodedAck ack) \<Rightarrow>
          (case accept_peer_ack ack l of
             (Inl e, _) \<Rightarrow> (Inl e, s)
           | (Inr acknowledged, l1) \<Rightarrow>
               (Inr [], s\<lparr>session_link_of := l1,
                  outbound_client := acknowledge_through acknowledged (outbound_client s)\<rparr>))
      | Inr (DecodedResync expected_next) \<Rightarrow>
          (case resend_from expected_next (last_send_operation_sequence l) (outbound_client s) of
             (Inl e, _) \<Rightarrow> (Inl e, s)
           | (Inr _, q) \<Rightarrow> (Inr [], s\<lparr>outbound_client := q\<rparr>)))"

definition poll_client_frame ::
  "('e, 'p) transport_env \<Rightarrow> 'e session_runtime
     \<Rightarrow> (runtime_error + (nat list \<times> nat list) list option) \<times> 'e session_runtime" where
  "poll_client_frame env s =
     (case inbound_client_frames s of
        [] \<Rightarrow> (Inr None, s)
      | bs # rest \<Rightarrow>
          if inbound_client_bytes s < length bs
          then (Inl (RuntimeFailure ''inbound Client frame byte accounting is inconsistent''), s)
          else case session_accept_client_frame env bs s of
            (Inl e, s') \<Rightarrow> (Inl e, s')
          | (Inr turns, s') \<Rightarrow>
              (Inr (Some turns), s'\<lparr>inbound_client_frames := rest,
                 inbound_client_bytes := inbound_client_bytes s - length bs\<rparr>))"

definition accept_server_message ::
  "('e, 'p) transport_env \<Rightarrow> distributed_message \<Rightarrow> 'e session_runtime
     \<Rightarrow> (runtime_error + (nat list \<times> nat list) list) \<times> 'e session_runtime" where
  "accept_server_message env m s =
     (if message_producer m \<noteq> ServerRole \<or> message_consumer m \<noteq> SessionRole
      then (Inl UnknownTransportEdge, s)
      else session_publish env (prepare_accept env m (publish_targets s)) s)"

definition next_client_frame ::
  "('e, 'p) transport_env \<Rightarrow> 'e session_runtime
     \<Rightarrow> (runtime_error + bytes option) \<times> 'e session_runtime" where
  "next_client_frame env s =
     (case leased_client_frame s of
        Some (bs, _) \<Rightarrow> (Inr (Some bs), s)
      | None \<Rightarrow>
          (case next_outbound_frame env (session_wire_schema s) (session_link_of s) (outbound_client s) of
             Inl e \<Rightarrow> (Inl e, s)
           | Inr None \<Rightarrow> (Inr None, s)
           | Inr (Some (bs, action)) \<Rightarrow>
               (Inr (Some bs), s\<lparr>leased_client_frame := Some (bs, action)\<rparr>)))"

definition acknowledge_client_frame :: "'e session_runtime \<Rightarrow> bool \<times> 'e session_runtime" where
  "acknowledge_client_frame s =
     (case leased_client_frame s of
        None \<Rightarrow> (False, s)
      | Some (bs, action) \<Rightarrow>
          (case action of
             LeasedData operation_sequence generation ack_through \<Rightarrow>
               (case mark_sent operation_sequence generation (outbound_client s) of
                  (False, _) \<Rightarrow> (False, s)
                | (True, q) \<Rightarrow>
                    (True, s\<lparr>leased_client_frame := None, outbound_client := q,
                       session_link_of :=
                         acknowledge_piggybacked_receive ack_through (session_link_of s)\<rparr>))
           | LeasedControl control \<Rightarrow>
               (True, s\<lparr>leased_client_frame := None,
                  session_link_of := acknowledge_sent_control control (session_link_of s)\<rparr>)))"

definition next_server_message :: "'e session_runtime \<Rightarrow> distributed_message option" where
  "next_server_message s = typed_queue_front_cloned (outbound_server s)"

definition acknowledge_server_message ::
  "'e session_runtime \<Rightarrow> (runtime_error + bool) \<times> 'e session_runtime" where
  "acknowledge_server_message s =
     (case typed_queue_pop_front (outbound_server s) of
        (Inl e, q) \<Rightarrow> (Inl e, s\<lparr>outbound_server := q\<rparr>)
      | (Inr m, q) \<Rightarrow> (Inr (m \<noteq> None), s\<lparr>outbound_server := q\<rparr>))"

definition has_sendable_client_frame :: "'e session_runtime \<Rightarrow> bool" where
  "has_sendable_client_frame s \<longleftrightarrow>
     pending_control_count (session_link_of s) \<noteq> 0
     \<or> has_sendable (link_generation (session_link_of s)) (outbound_client s)"

definition session_finish_transient_effect ::
  "('e, 'p) transport_env \<Rightarrow> (program_role list \<Rightarrow> 'e \<Rightarrow> (runtime_error + 'p) \<times> 'e)
     \<Rightarrow> (nat \<Rightarrow> 'e \<Rightarrow> bool) \<Rightarrow> nat \<Rightarrow> 'e session_runtime
     \<Rightarrow> (runtime_error + (nat list \<times> nat list) list) \<times> 'e session_runtime" where
  "session_finish_transient_effect env prepare has_pending call_id s =
     (if \<not> bset_contains call_id (session_owned_effects s) then (Inl InvalidLease, s)
      else case session_publish env (prepare (publish_targets s)) s of
        (Inl e, s') \<Rightarrow> (Inl e, s')
      | (Inr turns, s') \<Rightarrow>
          (Inr turns,
           if has_pending call_id (session_endpoint s') then s'
           else s'\<lparr>session_owned_effects := bset_remove call_id (session_owned_effects s')\<rparr>))"

definition session_cancel_all_transient_effects ::
  "('e, 'p) transport_env \<Rightarrow> (nat list \<Rightarrow> program_role list \<Rightarrow> 'e \<Rightarrow> (runtime_error + 'p) \<times> 'e)
     \<Rightarrow> 'e session_runtime
     \<Rightarrow> (runtime_error + (nat list \<times> nat list) list) \<times> 'e session_runtime" where
  "session_cancel_all_transient_effects env prepare s =
     (case session_publish env (prepare (session_owned_effects s) (publish_targets s)) s of
        (Inl e, s') \<Rightarrow> (Inl e, s')
      | (Inr turns, s') \<Rightarrow> (Inr turns, s'\<lparr>session_owned_effects := []\<rparr>))"

definition session_cancel_transient_effect ::
  "('e, 'p) transport_env \<Rightarrow> (nat list \<Rightarrow> program_role list \<Rightarrow> 'e \<Rightarrow> (runtime_error + 'p) \<times> 'e) \<Rightarrow> nat
     \<Rightarrow> 'e session_runtime
     \<Rightarrow> (runtime_error + (nat list \<times> nat list) list) \<times> 'e session_runtime" where
  "session_cancel_transient_effect env prepare call_id s =
     (if \<not> bset_contains call_id (session_owned_effects s) then (Inl InvalidLease, s)
      else case session_publish env (prepare [call_id] (publish_targets s)) s of
        (Inl e, s') \<Rightarrow> (Inl e, s')
      | (Inr turns, s') \<Rightarrow>
          (Inr turns, s'\<lparr>session_owned_effects := bset_remove call_id (session_owned_effects s')\<rparr>))"

end
