(* ===== verification/Session_Channel.thy ===== *)
theory Session_Channel
  imports Session_Runtime "HOL-Library.Sublist"
begin

text \<open>
  One direction of a client session as seen by both parties: the slots of the sequences handed out,
  what the queue of the sender still holds of them, what the frames in transit say about them and
  what the receiver has applied; then two parties joined by both directions. The lemmas state how
  each operation of \<open>link.rs\<close> and \<open>client_session.rs\<close> acts on this picture.
\<close>

section \<open>State slots\<close>

text \<open>A queued state message may be overwritten by a later one for the same slot; events, invocations
  and replies are never overwritten.\<close>

definition same_slot :: "distributed_message \<Rightarrow> distributed_message \<Rightarrow> bool" where
  "same_slot m m' \<longleftrightarrow> m = m' \<or> replaces_pending m m'"

definition events :: "distributed_message list \<Rightarrow> distributed_message list" where
  "events ms = filter (\<lambda>m. \<not> is_state m) ms"

lemma events_simps [simp]:
  "events [] = []" "events (m # ms) = (if is_state m then events ms else m # events ms)"
  "events (ms @ ms') = events ms @ events ms'"
  by (simp_all add: events_def)

lemma same_state_kind_trans:
  "same_state_kind a b \<Longrightarrow> same_state_kind b c \<Longrightarrow> same_state_kind a c"
  by (cases a; cases b; cases c) auto

lemma same_slot_refl [simp]: "same_slot m m"
  by (simp add: same_slot_def)

lemma replaces_pending_trans:
  "replaces_pending a b \<Longrightarrow> replaces_pending b c \<Longrightarrow> replaces_pending a c"
  by (auto simp: replaces_pending_def same_state_kind_trans split: if_splits)

lemma same_slot_trans: "same_slot a b \<Longrightarrow> same_slot b c \<Longrightarrow> same_slot a c"
  by (auto simp: same_slot_def intro: replaces_pending_trans)

lemma same_slot_events: "list_all2 same_slot xs ys \<Longrightarrow> events xs = events ys"
  by (induction rule: list_all2_induct) (auto simp: same_slot_def dest: replaces_pending_state)

section \<open>Admission to the outbound queue\<close>

text \<open>\<open>slots\<close> is the list of all sequences handed out so far: position \<open>n - 1\<close> holds the first message
  admitted under sequence \<open>n\<close>. The queue holds the slots after the first \<open>k\<close>.\<close>

definition queue_ok :: "nat \<Rightarrow> queued_message list \<Rightarrow> distributed_message list \<Rightarrow> nat \<Rightarrow> bool" where
  "queue_ok n q slots k \<longleftrightarrow>
     n = length slots + 1 \<and> k \<le> length slots
     \<and> map (unat \<circ> queued_sequence) q = [k + 1..<n]
     \<and> list_all2 same_slot (map queued_message_of q) (drop k slots)"

definition routed :: "program_role \<Rightarrow> program_role \<Rightarrow> distributed_message \<Rightarrow> bool" where
  "routed producer consumer m \<longleftrightarrow>
     message_producer m = producer \<and> message_consumer m = consumer \<and> message_wf m"

lemma replace_last_SomeD:
  "replace_last p f xs = Some ys \<Longrightarrow> \<exists>i < length xs. p (xs ! i) \<and> ys = xs[i := f (xs ! i)]"
proof (induction xs arbitrary: ys)
  case (Cons x xs)
  show ?case
  proof (cases "replace_last p f xs")
    case None
    then show ?thesis using Cons.prems by (auto split: if_splits intro!: exI [of _ 0])
  next
    case (Some zs)
    then obtain i where "i < length xs" "p (xs ! i)" "zs = xs[i := f (xs ! i)]" using Cons.IH by blast
    then show ?thesis using Some Cons.prems by (intro exI [of _ "Suc i"]) auto
  qed
qed simp

lemma queue_ok_replace:
  assumes "queue_ok n q slots k" "i < length q" "same_slot m (queued_message_of (q ! i))"
  shows "queue_ok n (q[i := (q ! i)\<lparr>queued_message_of := m\<rparr>]) slots k"
proof -
  have l: "list_all2 same_slot (map queued_message_of q) (drop k slots)" using assms(1) by (simp add: queue_ok_def)
  then have "i < length (drop k slots)" using assms(2) by (auto dest: list_all2_lengthD)
  moreover have "same_slot m (drop k slots ! i)"
    using list_all2_nthD [OF l, of i] assms(2,3) by (auto intro: same_slot_trans)
  ultimately have "list_all2 same_slot ((map queued_message_of q)[i := m]) ((drop k slots)[i := drop k slots ! i])"
    using l by (intro list_all2_update_cong)
  then have "list_all2 same_slot (map queued_message_of (q[i := (q ! i)\<lparr>queued_message_of := m\<rparr>])) (drop k slots)"
    by (simp add: map_update)
  moreover have "map (unat \<circ> queued_sequence) (q[i := (q ! i)\<lparr>queued_message_of := m\<rparr>])
      = map (unat \<circ> queued_sequence) q"
    using assms(2) by (simp add: map_update list_update_same_conv)
  ultimately show ?thesis using assms(1) unfolding queue_ok_def by simp
qed

lemma queue_ok_append:
  assumes "queue_ok (unat s) q slots k" "checked_add s 1 = Some s'"
  shows "queue_ok (unat s') (q @ [\<lparr>queued_sequence = s, queued_message_of = m, sent_generation = g\<rparr>])
           (slots @ [m]) k"
  using assms checked_add_unat [OF assms(2)] by (auto simp: queue_ok_def intro!: list_all2_appendI)

lemma admit_messages_ok:
  assumes "admit_messages us q l = Inr (q', l')" "queue_ok (unat (next_send_operation_sequence l)) q slots k"
    and "\<forall>x \<in> set q. P (queued_message_of x)" "\<forall>m \<in> set us. P m"
  shows "\<exists>extra n. l' = l\<lparr>next_send_operation_sequence := n\<rparr> \<and> queue_ok (unat n) q' (slots @ extra) k
           \<and> events extra = events us \<and> (\<forall>x \<in> set q'. P (queued_message_of x))"
  using assms
proof (induction us arbitrary: q l slots)
  case Nil
  then show ?case by (intro exI [of _ "[]"] exI [of _ "next_send_operation_sequence l"]) simp
next
  case (Cons m us)
  let ?p = "\<lambda>x. sent_generation x = None \<and> replaces_pending m (queued_message_of x)"
  let ?f = "\<lambda>x. x\<lparr>queued_message_of := m\<rparr>"
  show ?case
  proof (cases "replace_last ?p ?f q")
    case (Some q1)
    then obtain i where i: "i < length q" "?p (q ! i)" "q1 = q[i := ?f (q ! i)]"
      using replace_last_SomeD by blast
    have "queue_ok (unat (next_send_operation_sequence l)) q1 slots k"
      unfolding i(3) using Cons.prems(2) i(1,2) by (intro queue_ok_replace) (auto simp: same_slot_def)
    moreover have "\<forall>x \<in> set q1. P (queued_message_of x)"
      using Cons.prems(3,4) i by (auto dest!: set_update_subset_insert [THEN subsetD])
    moreover have "is_state m" using i(2) replaces_pending_state by blast
    ultimately show ?thesis using Cons.IH [of q1 l slots] Cons.prems Some by simp
  next
    case None
    then obtain n where n: "checked_add (next_send_operation_sequence l) 1 = Some n"
      using Cons.prems(1) by (auto simp: allocate_operation_sequence_def Let_def split: option.splits)
    let ?x = "\<lparr>queued_sequence = next_send_operation_sequence l, queued_message_of = m, sent_generation = None\<rparr>"
    let ?l = "l\<lparr>next_send_operation_sequence := n\<rparr>"
    have "admit_messages us (q @ [?x]) ?l = Inr (q', l')"
      using Cons.prems(1) None n by (simp add: allocate_operation_sequence_def Let_def)
    moreover have "queue_ok (unat (next_send_operation_sequence ?l)) (q @ [?x]) (slots @ [m]) k"
      using queue_ok_append [OF Cons.prems(2) n] by simp
    ultimately obtain extra n' where
      "l' = l\<lparr>next_send_operation_sequence := n'\<rparr>" "queue_ok (unat n') q' ((slots @ [m]) @ extra) k"
      "events extra = events us" "\<forall>x \<in> set q'. P (queued_message_of x)"
      using Cons.IH [of "q @ [?x]" ?l "slots @ [m]"] Cons.prems(3,4) by auto
    then show ?thesis by (intro exI [of _ "m # extra"] exI [of _ n']) simp
  qed
qed

lemma queue_ok_Cons:
  assumes "queue_ok n (x # xs) slots k"
  shows "unat (queued_sequence x) = Suc k \<and> k < length slots \<and> queue_ok n xs slots (Suc k)"
proof -
  have e: "unat (queued_sequence x) # map (unat \<circ> queued_sequence) xs = [Suc k..<n]"
    and n: "n = Suc (length slots)"
    and l: "list_all2 same_slot (map queued_message_of (x # xs)) (drop k slots)"
    using assms by (simp_all add: queue_ok_def del: upt_Suc)
  have k: "Suc k < n" using e by (cases "Suc k < n") auto
  then have "drop k slots = slots ! k # drop (Suc k) slots" using n by (simp add: Cons_nth_drop_Suc)
  then have "list_all2 same_slot (map queued_message_of xs) (drop (Suc k) slots)" using l by simp
  moreover have "unat (queued_sequence x) = Suc k" "map (unat \<circ> queued_sequence) xs = [Suc (Suc k)..<n]"
    using e upt_conv_Cons [OF k] by simp_all
  ultimately show ?thesis using k n by (simp add: queue_ok_def del: upt_Suc)
qed

lemma queue_ok_acknowledge:
  assumes "queue_ok n (outbound_messages q) slots k" "unat a \<le> length slots"
  shows "queue_ok n (outbound_messages (acknowledge_through a q)) slots (max k (unat a))"
proof -
  have "queue_ok n (dropWhile (\<lambda>x. queued_sequence x \<le> a) xs) slots (max k (unat a))"
    if "queue_ok n xs slots k" for xs k
    using that
  proof (induction xs arbitrary: k)
    case (Cons x xs)
    have x: "unat (queued_sequence x) = Suc k" "queue_ok n xs slots (Suc k)"
      using queue_ok_Cons [OF Cons.prems] by simp_all
    show ?case
    proof (cases "queued_sequence x \<le> a")
      case True
      then have "max (Suc k) (unat a) = max k (unat a)" using x(1) by (simp add: word_le_nat_alt)
      then show ?thesis using Cons.IH [OF x(2)] True by simp
    next
      case False
      then have "max k (unat a) = k" using x(1) by (simp add: word_le_nat_alt)
      then show ?thesis using Cons.prems False by simp
    qed
  next
    case Nil
    then have "k = length slots" by (auto simp: queue_ok_def)
    then show ?case using Nil assms(2) by (simp add: max_def)
  qed
  from this [OF assms(1)] show ?thesis by (simp add: acknowledge_through_def)
qed

section \<open>One direction of the session\<close>

text \<open>What a party reads out of the bytes it was handed: a data frame carries a message of a slot that
  was handed out, and no acknowledgement exceeds what its sender has applied.\<close>

definition frame_sound ::
  "(bytes \<Rightarrow> frame_error + session_frame) \<Rightarrow> wire_schema \<Rightarrow> program_role \<Rightarrow> program_role \<Rightarrow> session_link
     \<Rightarrow> distributed_message list \<Rightarrow> nat \<Rightarrow> bytes \<Rightarrow> bool" where
  "frame_sound dec schema producer consumer l slots applied bs =
     (case decode_frame dec l schema producer consumer bs of
        Inr (DecodedData n ack m) \<Rightarrow>
          0 < unat n \<and> unat n \<le> length slots \<and> same_slot m (slots ! (unat n - 1)) \<and> unat ack \<le> applied
      | Inr (DecodedAck ack) \<Rightarrow> unat ack \<le> applied
      | _ \<Rightarrow> True)"

text \<open>The sender has the link \<open>ls\<close> and the queue \<open>q\<close>, the receiver the link \<open>lr\<close>; \<open>net\<close> holds all bytes the
  sender handed out, \<open>delivered\<close> the messages the receiver applied, \<open>sent\<close> the events admitted. While the
  sender is connected (\<open>live\<close>) everything the receiver has not applied is still queued.\<close>

definition channel ::
  "(bytes \<Rightarrow> frame_error + session_frame) \<Rightarrow> wire_schema \<Rightarrow> program_role \<Rightarrow> program_role \<Rightarrow> bool
     \<Rightarrow> session_link \<Rightarrow> outbound_queue \<Rightarrow> session_link \<Rightarrow> bytes set
     \<Rightarrow> distributed_message list \<Rightarrow> distributed_message list \<Rightarrow> distributed_message list \<Rightarrow> nat \<Rightarrow> bool" where
  "channel dec schema producer consumer live ls q lr net delivered sent slots k \<longleftrightarrow>
     queue_ok (unat (next_send_operation_sequence ls)) (outbound_messages q) slots k
     \<and> (\<forall>x \<in> set (outbound_messages q). routed producer consumer (queued_message_of x))
     \<and> (live \<longrightarrow> k \<le> unat (applied_receive_through lr))
     \<and> unat (applied_receive_through lr) \<le> length slots
     \<and> list_all2 same_slot delivered (take (unat (applied_receive_through lr)) slots)
     \<and> unat (peer_acknowledged_through ls) \<le> unat (applied_receive_through lr)
     \<and> sent = events slots
     \<and> (\<forall>bs \<in> net. frame_sound dec schema producer consumer lr slots
           (unat (applied_receive_through ls)) bs)"

definition channel_inv ::
  "(bytes \<Rightarrow> frame_error + session_frame) \<Rightarrow> wire_schema \<Rightarrow> program_role \<Rightarrow> program_role \<Rightarrow> bool
     \<Rightarrow> session_link \<Rightarrow> outbound_queue \<Rightarrow> session_link \<Rightarrow> bytes set
     \<Rightarrow> distributed_message list \<Rightarrow> distributed_message list \<Rightarrow> bool" where
  "channel_inv dec schema producer consumer live ls q lr net delivered sent \<longleftrightarrow>
     (\<exists>slots k. channel dec schema producer consumer live ls q lr net delivered sent slots k)"

lemma decode_frame_identity:
  "same_identity l l' \<Longrightarrow> decode_frame dec l schema producer consumer bs
     = decode_frame dec l' schema producer consumer bs"
  unfolding decode_frame_def
  by (cases "dec bs") (auto simp: decode_identity_def same_identity_def validate_private_identity_def
      split: session_frame.split)

lemma frame_sound_identity:
  "same_identity l l' \<Longrightarrow> frame_sound dec schema producer consumer l
     = frame_sound dec schema producer consumer l'"
  by (simp add: frame_sound_def fun_eq_iff decode_frame_identity [of l l'])

lemma frame_sound_mono:
  assumes "frame_sound dec schema producer consumer l slots a bs" "a \<le> a'"
  shows "frame_sound dec schema producer consumer l (slots @ extra) a' bs"
proof (cases "decode_frame dec l schema producer consumer bs")
  case (Inr f)
  then show ?thesis using assms by (cases f) (auto simp: frame_sound_def nth_append)
qed (simp add: frame_sound_def)

definition pushed ::
  "(session_frame \<Rightarrow> frame_error + bytes) \<Rightarrow> wire_schema \<Rightarrow> distributed_message list
     \<Rightarrow> outbound_queue \<Rightarrow> session_link \<Rightarrow> outbound_queue \<Rightarrow> session_link \<Rightarrow> bool" where
  "pushed enc schema us q l q' l' \<longleftrightarrow>
     us = [] \<and> q' = q \<and> l' = l \<or> outbound_push enc schema us q l = Inr (q', l')"

lemma pushed_ok:
  assumes "pushed enc schema us q l q' l'"
    and "queue_ok (unat (next_send_operation_sequence l)) (outbound_messages q) slots k"
    and "\<forall>x \<in> set (outbound_messages q). P (queued_message_of x)" "\<forall>m \<in> set us. P m"
  shows "\<exists>extra n. l' = l\<lparr>next_send_operation_sequence := n\<rparr>
           \<and> queue_ok (unat n) (outbound_messages q') (slots @ extra) k
           \<and> events extra = events us \<and> (\<forall>x \<in> set (outbound_messages q'). P (queued_message_of x))"
proof (cases "us = [] \<and> q' = q \<and> l' = l")
  case True
  then show ?thesis using assms
    by (intro exI [of _ "[]"] exI [of _ "next_send_operation_sequence l"]) simp
next
  case False
  then obtain cand where "admit_messages us (outbound_messages q) l = Inr (cand, l')"
    "q' = q\<lparr>outbound_messages := cand\<rparr>"
    using assms(1) by (auto simp: pushed_def outbound_push_def split: if_splits)
  then show ?thesis using admit_messages_ok [OF _ assms(2-4)] by auto
qed

lemma channel_push:
  assumes "channel_inv dec schema P C live ls q lr net delivered sent"
    and push: "pushed enc schema us q ls q' ls'" and us: "\<forall>m \<in> set us. routed P C m"
  shows "channel_inv dec schema P C live ls' q' lr net delivered (sent @ events us)"
    and "\<exists>n. ls' = ls\<lparr>next_send_operation_sequence := n\<rparr>"
proof -
  obtain slots k where ch: "channel dec schema P C live ls q lr net delivered sent slots k"
    using assms(1) by (auto simp: channel_inv_def)
  from pushed_ok [OF push _ _ us, of slots k] ch obtain extra n where
    n: "ls' = ls\<lparr>next_send_operation_sequence := n\<rparr>"
    "queue_ok (unat n) (outbound_messages q') (slots @ extra) k" "events extra = events us"
    "\<forall>x \<in> set (outbound_messages q'). routed P C (queued_message_of x)"
    by (auto simp: channel_def)
  have "channel dec schema P C live ls' q' lr net delivered (sent @ events us) (slots @ extra) k"
    using ch n by (auto simp: channel_def intro: frame_sound_mono)
  then show "channel_inv dec schema P C live ls' q' lr net delivered (sent @ events us)"
    unfolding channel_inv_def by blast
  show "\<exists>n. ls' = ls\<lparr>next_send_operation_sequence := n\<rparr>" using n(1) by blast
qed

lemma channel_sender_link:
  assumes "channel_inv dec schema P C live ls q lr net delivered sent"
    and "next_send_operation_sequence ls' = next_send_operation_sequence ls"
    and "peer_acknowledged_through ls' = peer_acknowledged_through ls"
    and "applied_receive_through ls \<le> applied_receive_through ls'"
  shows "channel_inv dec schema P C live ls' q lr net delivered sent"
proof -
  obtain slots k where ch: "channel dec schema P C live ls q lr net delivered sent slots k"
    using assms(1) by (auto simp: channel_inv_def)
  have "frame_sound dec schema P C lr slots (unat (applied_receive_through ls')) bs" if "bs \<in> net" for bs
    using frame_sound_mono [of dec schema P C lr slots "unat (applied_receive_through ls)" bs _ "[]"]
      ch that assms(4) by (simp add: channel_def word_le_nat_alt)
  then have "channel dec schema P C live ls' q lr net delivered sent slots k"
    using ch assms(2,3) by (simp add: channel_def)
  then show ?thesis unfolding channel_inv_def by blast
qed

lemma channel_receiver_link:
  assumes "channel_inv dec schema P C live ls q lr net delivered sent" "same_identity lr lr'"
    and "applied_receive_through lr' = applied_receive_through lr"
  shows "channel_inv dec schema P C live ls q lr' net delivered sent"
  using assms by (simp add: channel_inv_def channel_def frame_sound_identity [of lr lr'])

lemma channel_acknowledge:
  assumes "channel_inv dec schema P C live ls q lr net delivered sent"
    and ack: "accept_peer_ack a ls = (Inr b, ls')" and a: "unat a \<le> unat (applied_receive_through lr)"
  shows "channel_inv dec schema P C live ls' (acknowledge_through b q) lr net delivered sent"
proof -
  obtain slots k where ch: "channel dec schema P C live ls q lr net delivered sent slots k"
    using assms(1) by (auto simp: channel_inv_def)
  have ls': "ls' = ls\<lparr>peer_acknowledged_through := b\<rparr>" "unat b \<le> unat (applied_receive_through lr)"
    using ack a ch by (auto simp: accept_peer_ack_def Let_def channel_def split: if_splits)
  have "queue_ok (unat (next_send_operation_sequence ls)) (outbound_messages (acknowledge_through b q))
      slots (max k (unat b))"
    using ch ls'(2) by (intro queue_ok_acknowledge) (auto simp: channel_def)
  moreover have "set (outbound_messages (acknowledge_through b q)) \<subseteq> set (outbound_messages q)"
    by (auto simp: acknowledge_through_def dest: set_dropWhileD)
  ultimately have "channel dec schema P C live ls' (acknowledge_through b q) lr net delivered sent
      slots (max k (unat b))"
    using ch ls' by (auto simp: channel_def)
  then show ?thesis unfolding channel_inv_def by blast
qed

lemma channel_deliver:
  assumes "channel_inv dec schema P C live ls q lr net delivered sent" "bs \<in> net"
    and dec: "decode_frame dec lr schema P C bs = Inr (DecodedData n ack m)"
    and n: "n = saturating_add (applied_receive_through lr) 1"
    and lr': "same_identity lr lr'" "applied_receive_through lr' = n"
  shows "channel_inv dec schema P C live ls q lr' net (delivered @ [m]) sent"
    and "applied_receive_through lr \<le> n"
proof -
  obtain slots k where ch: "channel dec schema P C live ls q lr net delivered sent slots k"
    using assms(1) by (auto simp: channel_inv_def)
  have s: "unat n \<le> length slots" "same_slot m (slots ! (unat n - 1))"
    using ch assms(2) dec by (auto simp: channel_def frame_sound_def)
  have "length slots < 2 ^ 64 - 1"
    using ch unat_u64_less [of "next_send_operation_sequence ls"] by (auto simp: channel_def queue_ok_def)
  then have un: "unat n = unat (applied_receive_through lr) + 1"
    using s n unat_expected_next [of "applied_receive_through lr"] by auto
  then show "applied_receive_through lr \<le> n" by (simp add: word_le_nat_alt)
  have "list_all2 same_slot (delivered @ [m]) (take (unat n) slots)"
    using ch s un by (auto simp: channel_def take_Suc_conv_app_nth intro!: list_all2_appendI)
  then have "channel dec schema P C live ls q lr' net (delivered @ [m]) sent slots k"
    using ch s un lr' by (auto simp: channel_def frame_sound_identity [of lr lr'])
  then show "channel_inv dec schema P C live ls q lr' net (delivered @ [m]) sent"
    unfolding channel_inv_def by blast
qed

definition queue_contents :: "outbound_queue \<Rightarrow> (u64 \<times> distributed_message) list" where
  "queue_contents q = map (\<lambda>x. (queued_sequence x, queued_message_of x)) (outbound_messages q)"

lemma channel_contents:
  assumes "channel_inv dec schema P C live ls q lr net delivered sent"
    and "queue_contents q' = queue_contents q"
  shows "channel_inv dec schema P C live ls q' lr net delivered sent"
proof -
  have s: "map (unat \<circ> queued_sequence) (outbound_messages q') = map (unat \<circ> queued_sequence) (outbound_messages q)"
    and m: "map queued_message_of (outbound_messages q') = map queued_message_of (outbound_messages q)"
    using arg_cong [OF assms(2), of "map (unat \<circ> fst)"] arg_cong [OF assms(2), of "map snd"]
    by (simp_all add: queue_contents_def comp_def)
  have r: "(\<forall>x \<in> set xs. routed P C (queued_message_of x)) \<longleftrightarrow> list_all (routed P C) (map queued_message_of xs)"
    for xs by (simp add: list_all_iff)
  show ?thesis using assms(1) unfolding channel_inv_def channel_def queue_ok_def r s m .
qed

section \<open>Two parties\<close>

text \<open>A party is a runtime as its peer sees it: link, outbound queue, whether it is connected, all bytes
  it has handed out, the messages it has applied and the events it has admitted.\<close>

record party =
  party_link :: session_link
  party_queue :: outbound_queue
  party_live :: bool
  handed_out :: "bytes set"
  applied_messages :: "distributed_message list"
  sent_events :: "distributed_message list"

fun frame_generation_of :: "session_frame \<Rightarrow> u64" where
  "frame_generation_of (DataFrame d) = frame_generation d"
| "frame_generation_of (AckFrame _ g _) = g"
| "frame_generation_of (ResyncFrame _ g _) = g"

definition flows ::
  "(bytes \<Rightarrow> frame_error + session_frame) \<Rightarrow> wire_schema \<Rightarrow> program_role \<Rightarrow> program_role
     \<Rightarrow> party \<Rightarrow> party \<Rightarrow> bool" where
  "flows dec schema P C a b \<longleftrightarrow>
     channel_inv dec schema P C (party_live a) (party_link a) (party_queue a) (party_link b)
       (handed_out a) (applied_messages b) (sent_events a)"

definition known_frames :: "(bytes \<Rightarrow> frame_error + session_frame) \<Rightarrow> u64 \<Rightarrow> bytes set \<Rightarrow> bool" where
  "known_frames dec g net \<longleftrightarrow> (\<forall>bs \<in> net. \<exists>f. dec bs = Inr f \<and> frame_generation_of f \<le> g)"

definition duplex ::
  "(bytes \<Rightarrow> frame_error + session_frame) \<Rightarrow> wire_schema \<Rightarrow> program_role \<Rightarrow> program_role
     \<Rightarrow> party \<Rightarrow> party \<Rightarrow> bool" where
  "duplex dec schema P C a b \<longleftrightarrow>
     same_identity (party_link a) (party_link b)
     \<and> flows dec schema P C a b \<and> flows dec schema C P b a
     \<and> known_frames dec (link_generation (party_link a)) (handed_out a \<union> handed_out b)"

text \<open>The byte codec of frames reads back what it wrote.\<close>

definition codec_ok :: "(session_frame \<Rightarrow> frame_error + bytes) \<Rightarrow> (bytes \<Rightarrow> frame_error + session_frame) \<Rightarrow> bool" where
  "codec_ok enc dec \<longleftrightarrow> (\<forall>f bs. enc f = Inr bs \<longrightarrow> dec bs = Inr f)"

lemma known_frames_mono: "known_frames dec g net \<Longrightarrow> g \<le> g' \<Longrightarrow> known_frames dec g' net"
  unfolding known_frames_def by (meson order.trans)

lemma same_identity_sym: "same_identity l l' \<Longrightarrow> same_identity l' l"
  by (simp add: same_identity_def)

lemma duplex_sym: "duplex dec schema P C a b \<Longrightarrow> duplex dec schema C P b a"
  by (auto simp: duplex_def same_identity_def Un_commute)

lemma duplex_step:
  assumes "duplex dec schema P C a b" "same_identity (party_link a) (party_link a')"
    and "handed_out a' = handed_out a" "flows dec schema P C a' b" "flows dec schema C P b a'"
  shows "duplex dec schema P C a' b"
proof -
  have "link_generation (party_link a') = link_generation (party_link a)"
    "same_identity (party_link a') (party_link b)"
    using assms(1,2) by (simp_all add: duplex_def same_identity_def)
  then show ?thesis using assms by (simp add: duplex_def)
qed

lemma duplex_push:
  assumes "duplex dec schema P C a b" "\<forall>m \<in> set us. routed P C m"
    and "pushed enc schema us (party_queue a) (party_link a) q' l'"
  shows "duplex dec schema P C
           (a\<lparr>party_link := l', party_queue := q', sent_events := sent_events a @ events us\<rparr>) b"
proof -
  have f: "flows dec schema P C a b" "flows dec schema C P b a" using assms(1) by (simp_all add: duplex_def)
  from channel_push [OF f(1) [unfolded flows_def] assms(3,2)] obtain n where
    n: "l' = party_link a\<lparr>next_send_operation_sequence := n\<rparr>"
    and "flows dec schema P C (a\<lparr>party_link := l', party_queue := q', sent_events := sent_events a @ events us\<rparr>) b"
    by (auto simp: flows_def)
  moreover have "flows dec schema C P b
      (a\<lparr>party_link := l', party_queue := q', sent_events := sent_events a @ events us\<rparr>)"
    using channel_receiver_link [OF f(2) [unfolded flows_def], of l'] n
    by (simp add: flows_def same_identity_def)
  ultimately show ?thesis using n by (intro duplex_step [OF assms(1)]) (simp_all add: same_identity_def)
qed

text \<open>Changes of a link that concern neither its sequences nor its identity, and of a queue that keep
  its messages and their sequences.\<close>

definition same_sequences :: "session_link \<Rightarrow> session_link \<Rightarrow> bool" where
  "same_sequences l l' \<longleftrightarrow> same_identity l l'
     \<and> next_send_operation_sequence l' = next_send_operation_sequence l
     \<and> peer_acknowledged_through l' = peer_acknowledged_through l
     \<and> applied_receive_through l' = applied_receive_through l"

lemma duplex_same_sequences:
  assumes "duplex dec schema P C a b" "same_sequences (party_link a) l'"
    and "queue_contents q' = queue_contents (party_queue a)"
  shows "duplex dec schema P C (a\<lparr>party_link := l', party_queue := q'\<rparr>) b"
proof -
  have f: "flows dec schema P C a b" "flows dec schema C P b a" using assms(1) by (simp_all add: duplex_def)
  have "flows dec schema P C (a\<lparr>party_link := l', party_queue := q'\<rparr>) b"
    using f(1) assms(2,3) unfolding flows_def
    by (auto intro!: channel_contents [OF _ assms(3)] elim!: channel_sender_link simp: same_sequences_def)
  moreover have "flows dec schema C P b (a\<lparr>party_link := l', party_queue := q'\<rparr>)"
    using f(2) assms(2) unfolding flows_def by (auto elim!: channel_receiver_link simp: same_sequences_def)
  ultimately show ?thesis using assms(2) by (intro duplex_step [OF assms(1)]) (simp_all add: same_sequences_def)
qed

lemma duplex_acknowledge:
  assumes "duplex dec schema P C a b" "accept_peer_ack n (party_link a) = (Inr k, l')"
    and "unat n \<le> unat (applied_receive_through (party_link b))"
  shows "duplex dec schema P C
           (a\<lparr>party_link := l', party_queue := acknowledge_through k (party_queue a)\<rparr>) b"
proof -
  have f: "flows dec schema P C a b" "flows dec schema C P b a" using assms(1) by (simp_all add: duplex_def)
  have l': "same_identity (party_link a) l'" "applied_receive_through l' = applied_receive_through (party_link a)"
    using assms(2) by (auto simp: accept_peer_ack_def Let_def same_identity_def split: if_splits)
  have "flows dec schema P C (a\<lparr>party_link := l', party_queue := acknowledge_through k (party_queue a)\<rparr>) b"
    using channel_acknowledge [OF f(1) [unfolded flows_def] assms(2,3)] by (simp add: flows_def)
  moreover have "flows dec schema C P b (a\<lparr>party_link := l', party_queue := acknowledge_through k (party_queue a)\<rparr>)"
    using channel_receiver_link [OF f(2) [unfolded flows_def] l'] by (simp add: flows_def)
  ultimately show ?thesis using l'(1) by (intro duplex_step [OF assms(1)]) simp_all
qed

lemma duplex_deliver:
  assumes "duplex dec schema P C a b" "bs \<in> handed_out b"
    and dec: "decode_frame dec (party_link a) schema C P bs = Inr (DecodedData n ack m)"
    and nx: "classify_receive n fp (party_link a) = Inr NextOperation"
    and l': "accept_receive n fp (party_link a) = (Inr (), l')"
  shows "duplex dec schema P C (a\<lparr>party_link := l', applied_messages := applied_messages a @ [m]\<rparr>) b"
proof -
  have f: "flows dec schema P C a b" "flows dec schema C P b a" using assms(1) by (simp_all add: duplex_def)
  have l: "same_identity (party_link a) l'" "applied_receive_through l' = n"
    "next_send_operation_sequence l' = next_send_operation_sequence (party_link a)"
    "peer_acknowledged_through l' = peer_acknowledged_through (party_link a)"
    using l' nx by (auto simp: accept_receive_def Let_def same_identity_def)
  note d = channel_deliver [OF f(2) [unfolded flows_def] assms(2) dec accept_receive_next [OF nx] l(1,2)]
  have "flows dec schema C P b (a\<lparr>party_link := l', applied_messages := applied_messages a @ [m]\<rparr>)"
    using d(1) by (simp add: flows_def)
  moreover have "flows dec schema P C (a\<lparr>party_link := l', applied_messages := applied_messages a @ [m]\<rparr>) b"
    using channel_sender_link [OF f(1) [unfolded flows_def] l(3,4)] l(2) d(2) by (simp add: flows_def)
  ultimately show ?thesis using l(1) by (intro duplex_step [OF assms(1)]) simp_all
qed

lemma duplex_ack_bound:
  assumes "duplex dec schema P C a b" "bs \<in> handed_out b"
    and "decode_frame dec (party_link a) schema C P bs = Inr f"
    and "f = DecodedAck ack \<or> f = DecodedData n ack m"
  shows "unat ack \<le> unat (applied_receive_through (party_link b))"
  using assms by (auto simp: duplex_def flows_def channel_inv_def channel_def frame_sound_def)

section \<open>Handing out frames\<close>

lemma decode_frame_generation:
  assumes "dec bs = Inr f" "frame_generation_of f \<noteq> link_generation l"
  shows "\<exists>e. decode_frame dec l schema P C bs = Inl e"
  using assms by (cases f; cases "validate_adjacent_roles P C")
    (auto simp: decode_frame_def decode_identity_def validate_private_identity_def)

lemma queue_ok_slot:
  assumes "queue_ok n q slots k" "x \<in> set q"
  shows "0 < unat (queued_sequence x) \<and> unat (queued_sequence x) \<le> length slots
    \<and> same_slot (queued_message_of x) (slots ! (unat (queued_sequence x) - 1))"
proof -
  obtain i where i: "i < length q" "q ! i = x" using assms(2) by (auto simp: in_set_conv_nth)
  have l: "list_all2 same_slot (map queued_message_of q) (drop k slots)"
    and s: "map (unat \<circ> queued_sequence) q = [k + 1..<n]" and n: "n = length slots + 1" "k \<le> length slots"
    using assms(1) by (simp_all add: queue_ok_def del: upt_Suc)
  have len: "length q = length slots - k" using list_all2_lengthD [OF l] by simp
  have "unat (queued_sequence x) = [k + 1..<n] ! i" using arg_cong [OF s, of "\<lambda>xs. xs ! i"] i by simp
  then have "unat (queued_sequence x) = k + 1 + i" using i len n by (simp del: upt_Suc)
  moreover have "same_slot (queued_message_of x) (slots ! (k + i))"
    using list_all2_nthD [OF l, of i] i len by simp
  ultimately show ?thesis using i len by auto
qed

lemma encoded_message_only:
  assumes codec: "codec_ok enc dec" and "schema_wf schema"
    and m: "routed P C m" and enc: "encode_message enc l schema n m = Inr bs" and "same_identity l l'"
  shows "\<exists>f. dec bs = Inr f \<and> frame_generation_of f = link_generation l"
    and "decode_frame dec l' schema P C bs = Inr r \<Longrightarrow> r = DecodedData n (applied_receive_through l) m"
proof -
  from enc obtain req where req: "message_request schema n m = Inr req"
    "enc (DataFrame (data_frame_of l req)) = Inr bs"
    by (auto simp: encode_message_def encode_data_def)
  have d: "dec bs = Inr (DataFrame (data_frame_of l req))" using codec req(2) by (simp add: codec_ok_def)
  then show "\<exists>f. dec bs = Inr f \<and> frame_generation_of f = link_generation l"
    by (simp add: data_frame_of_def)
  have "request_operation_sequence req = n"
    using req(1) by (auto simp: message_request_def Let_def split: message_payload.splits)
  moreover have "m' = m" if "classify_data schema P C (data_frame_of l req) = Inr m'" for m'
    using classify_request_only [OF assms(2) _ req(1), of l m'] that m by (auto simp: routed_def)
  ultimately show "r = DecodedData n (applied_receive_through l) m"
    if "decode_frame dec l' schema P C bs = Inr r"
    using that decode_identity_data [of l l' dec bs req, OF assms(5) d]
    by (auto simp: decode_frame_def) (simp_all add: data_frame_of_def)
qed

lemma control_frame_only:
  assumes codec: "codec_ok enc dec"
    and c: "encode_pending_control enc l = Inr (Some (bs, control))"
  shows "\<exists>f. dec bs = Inr f \<and> frame_generation_of f = link_generation l"
    and "decode_frame dec l' schema P C bs = Inr r \<Longrightarrow>
      r = DecodedAck (applied_receive_through l) \<or> (\<exists>n. r = DecodedResync n)"
proof -
  from c consider
    "enc (AckFrame (link_session_id l) (link_generation l) (applied_receive_through l)) = Inr bs"
    | n where "enc (ResyncFrame (link_session_id l) (link_generation l) n) = Inr bs"
    by (auto simp: encode_pending_control_def Let_def split: option.splits if_splits)
  note cs = this
  from cs show "\<exists>f. dec bs = Inr f \<and> frame_generation_of f = link_generation l"
    by cases (use codec in \<open>auto simp: codec_ok_def\<close>)
  show "r = DecodedAck (applied_receive_through l) \<or> (\<exists>n. r = DecodedResync n)"
    if "decode_frame dec l' schema P C bs = Inr r"
    using cs by cases (use that codec in \<open>auto simp: codec_ok_def decode_frame_def decode_identity_def\<close>)
qed

lemma encode_next_Some:
  "encode_next enc schema l q = Inr (Some d) \<Longrightarrow> \<exists>x \<in> set (outbound_messages q).
     encode_message enc l schema (queued_sequence x) (queued_message_of x) = Inr (encoded_bytes_of d)"
  by (auto simp: encode_next_def split: option.splits dest!: find_SomeD)

lemma next_outbound_frame_cases:
  assumes "next_outbound_frame env schema l q = Inr (Some (bs, action))"
  shows "(\<exists>control. encode_pending_control (encode_wire env) l = Inr (Some (bs, control)))
    \<or> (\<exists>x \<in> set (outbound_messages q).
         encode_message (encode_wire env) l schema (queued_sequence x) (queued_message_of x) = Inr bs)"
proof (cases "\<exists>control. encode_pending_control (encode_wire env) l = Inr (Some (bs, control))")
  case False
  then obtain d where "encode_next (encode_wire env) schema l q = Inr (Some d)" "encoded_bytes_of d = bs"
    using assms by (auto simp: next_outbound_frame_def split: if_splits option.splits)
  with encode_next_Some show ?thesis by fastforce
qed simp

lemma frame_soundI:
  assumes "\<And>r. decode_frame dec l schema P C bs = Inr r \<Longrightarrow>
      r = DecodedAck ack \<and> unat ack \<le> a \<or> (\<exists>n. r = DecodedResync n)
      \<or> (\<exists>n m. r = DecodedData n ack m \<and> 0 < unat n \<and> unat n \<le> length slots
           \<and> same_slot m (slots ! (unat n - 1)) \<and> unat ack \<le> a)"
  shows "frame_sound dec schema P C l slots a bs"
proof (cases "decode_frame dec l schema P C bs")
  case (Inr r)
  then show ?thesis using assms [OF Inr] by (auto simp: frame_sound_def)
qed (simp add: frame_sound_def)

lemma duplex_send:
  assumes codec: "codec_ok (encode_wire env) dec" and "schema_wf schema"
    and dup: "duplex dec schema P C a b"
    and "next_outbound_frame env schema (party_link a) (party_queue a) = Inr (Some (bs, action))"
  shows "duplex dec schema P C (a\<lparr>handed_out := insert bs (handed_out a)\<rparr>) b"
proof -
  have id: "same_identity (party_link a) (party_link b)" using dup by (simp add: duplex_def)
  obtain slots k where ch: "channel dec schema P C (party_live a) (party_link a) (party_queue a)
      (party_link b) (handed_out a) (applied_messages b) (sent_events a) slots k"
    using dup by (auto simp: duplex_def flows_def channel_inv_def)
  have "frame_sound dec schema P C (party_link b) slots (unat (applied_receive_through (party_link a))) bs
      \<and> (\<exists>f. dec bs = Inr f \<and> frame_generation_of f = link_generation (party_link a))"
    using next_outbound_frame_cases [OF assms(4)]
  proof (elim disjE exE bexE)
    fix control
    assume c: "encode_pending_control (encode_wire env) (party_link a) = Inr (Some (bs, control))"
    have "frame_sound dec schema P C (party_link b) slots (unat (applied_receive_through (party_link a))) bs"
      by (rule frame_soundI) (use control_frame_only(2) [OF codec c] in fastforce)
    with control_frame_only(1) [OF codec c] show ?thesis by blast
  next
    fix x
    assume x: "x \<in> set (outbound_messages (party_queue a))"
      "encode_message (encode_wire env) (party_link a) schema (queued_sequence x) (queued_message_of x) = Inr bs"
    have m: "routed P C (queued_message_of x)" using ch x(1) by (simp add: channel_def)
    have "queue_ok (unat (next_send_operation_sequence (party_link a))) (outbound_messages (party_queue a)) slots k"
      using ch by (simp add: channel_def)
    note s = queue_ok_slot [OF this x(1)]
    have "frame_sound dec schema P C (party_link b) slots (unat (applied_receive_through (party_link a))) bs"
      by (rule frame_soundI) (use encoded_message_only(2) [OF codec assms(2) m x(2) id] s in fastforce)
    with encoded_message_only(1) [OF codec assms(2) m x(2) id] show ?thesis by blast
  qed
  then have "channel dec schema P C (party_live a) (party_link a) (party_queue a)
      (party_link b) (insert bs (handed_out a)) (applied_messages b) (sent_events a) slots k"
    and "known_frames dec (link_generation (party_link a)) (insert bs (handed_out a) \<union> handed_out b)"
    using ch dup by (auto simp: channel_def duplex_def known_frames_def)
  then show ?thesis using dup by (auto simp: duplex_def flows_def channel_inv_def)
qed

section \<open>Losing and restoring the connection\<close>

lemma duplex_clear:
  assumes "duplex dec schema P C a b"
  shows "duplex dec schema P C (a\<lparr>party_queue := outbound_clear (party_queue a), party_live := False\<rparr>) b"
proof -
  obtain slots k where ch: "channel dec schema P C (party_live a) (party_link a) (party_queue a)
      (party_link b) (handed_out a) (applied_messages b) (sent_events a) slots k"
    using assms by (auto simp: duplex_def flows_def channel_inv_def)
  then have "channel dec schema P C False (party_link a) (outbound_clear (party_queue a))
      (party_link b) (handed_out a) (applied_messages b) (sent_events a) slots (length slots)"
    by (simp add: channel_def queue_ok_def outbound_clear_def)
  then show ?thesis using assms by (auto simp: duplex_def flows_def channel_inv_def)
qed

text \<open>A new transport generation starts from the exchanged watermarks: nothing of the old generation is
  readable any more, the queues are empty and what counts as sent is what was delivered.\<close>

lemma link_rebind_Inr:
  assumes "link_rebind g n l = Inr l'"
  shows "link_generation l < g" "unat (next_send_operation_sequence l') = unat n + 1"
    "peer_acknowledged_through l' = n" "applied_receive_through l' = applied_receive_through l"
    "link_graph_hash l' = link_graph_hash l" "link_graph_revision l' = link_graph_revision l"
    "link_schema_hash l' = link_schema_hash l" "link_session_id l' = link_session_id l"
    "link_generation l' = g"
  using assms by (auto simp: link_rebind_def rebase_send_after_handshake_def not_le
      split: if_splits option.splits dest!: checked_add_unat)

lemma channel_reset:
  assumes "known_frames dec g0 net" "g0 < link_generation lr'"
    and "unat (next_send_operation_sequence ls') = unat (applied_receive_through lr') + 1"
    and "peer_acknowledged_through ls' = applied_receive_through lr'"
    and "length delivered = unat (applied_receive_through lr')"
  shows "channel_inv dec schema P C True ls' (outbound_clear q) lr' net delivered (events delivered)"
proof -
  have "frame_sound dec schema P C lr' delivered a bs" if bs: "bs \<in> net" for bs a
  proof -
    obtain f where f: "dec bs = Inr f" "frame_generation_of f \<le> g0"
      using assms(1) bs by (auto simp: known_frames_def)
    then have "frame_generation_of f \<noteq> link_generation lr'" using assms(2) by auto
    from decode_frame_generation [of dec, OF f(1) this, of schema P C] show ?thesis by (auto simp: frame_sound_def)
  qed
  then have "channel dec schema P C True ls' (outbound_clear q) lr' net delivered (events delivered)
      delivered (length delivered)"
    using assms by (auto simp: channel_def queue_ok_def outbound_clear_def list_all2_same)
  then show ?thesis unfolding channel_inv_def by blast
qed

lemma flows_delivered:
  "flows dec schema P C a b \<Longrightarrow> length (applied_messages b) = unat (applied_receive_through (party_link b))"
  by (auto simp: flows_def channel_inv_def channel_def dest!: list_all2_lengthD)

lemma duplex_rebind:
  assumes dup: "duplex dec schema P C a b"
    and la: "link_rebind g (applied_receive_through (party_link b)) (party_link a) = Inr la"
    and lb: "link_rebind g (applied_receive_through (party_link a)) (party_link b) = Inr lb"
  shows "duplex dec schema P C
           (a\<lparr>party_link := la, party_queue := outbound_clear qa, party_live := True,
              sent_events := events (applied_messages b)\<rparr>)
           (b\<lparr>party_link := lb, party_queue := outbound_clear qb, party_live := True,
              sent_events := events (applied_messages a)\<rparr>)"
proof -
  note ra = link_rebind_Inr [OF la] and rb = link_rebind_Inr [OF lb]
  have len: "length (applied_messages b) = unat (applied_receive_through (party_link b))"
    "length (applied_messages a) = unat (applied_receive_through (party_link a))"
    using dup flows_delivered by (auto simp: duplex_def)
  have k: "known_frames dec (link_generation (party_link a)) (handed_out a)"
    "known_frames dec (link_generation (party_link a)) (handed_out b)"
    "known_frames dec g (handed_out a \<union> handed_out b)"
    using dup known_frames_mono [OF _ order.strict_implies_order [OF ra(1)]]
    by (simp_all add: duplex_def) (simp_all add: known_frames_def)
  have "same_identity la lb" using dup ra rb by (simp add: duplex_def same_identity_def)
  moreover have "channel_inv dec schema P C True la (outbound_clear qa) lb (handed_out a)
      (applied_messages b) (events (applied_messages b))"
    using k(1) ra rb len by (intro channel_reset) auto
  moreover have "channel_inv dec schema C P True lb (outbound_clear qb) la (handed_out b)
      (applied_messages a) (events (applied_messages a))"
    using k(2) ra rb len by (intro channel_reset) auto
  ultimately show ?thesis using k(3) ra by (simp add: duplex_def flows_def)
qed

end
