(* ===== verification/Session_Protocol.thy ===== *)
theory Session_Protocol
  imports Session_Channel
begin

text \<open>
  The delivery guarantee of a client session: the runtimes of \<open>client.rs\<close> and \<open>session.rs\<close> joined by a
  network that may lose, duplicate, delay and reorder the frames they hand out, with reconnections.
  Two executions at the end show where updates of state values are not covered by it.
\<close>

section \<open>What a handler does to its party\<close>

text \<open>The possible effects of the frame handlers on link and queue, with the messages handed to the
  endpoint (\<open>ms\<close>) and the messages the endpoint had sent in return (\<open>us\<close>).\<close>

inductive received ::
  "('e, 'p) transport_env \<Rightarrow> wire_schema \<Rightarrow> program_role \<Rightarrow> program_role \<Rightarrow> bytes
     \<Rightarrow> session_link \<Rightarrow> outbound_queue \<Rightarrow> session_link \<Rightarrow> outbound_queue
     \<Rightarrow> distributed_message list \<Rightarrow> distributed_message list \<Rightarrow> bool"
  for env schema P C bs l q where
  refused: "received env schema P C bs l q l q [] []"
| resent: "queue_contents q' = queue_contents q \<Longrightarrow> received env schema P C bs l q l q' [] []"
| acknowledged: "decode_frame (decode_wire env) l schema P C bs = Inr f
    \<Longrightarrow> f = DecodedAck a \<or> f = DecodedData n a m \<Longrightarrow> accept_peer_ack a l = (Inr k, l1)
    \<Longrightarrow> same_sequences l1 l' \<Longrightarrow> received env schema P C bs l q l' (acknowledge_through k q) [] []"
| accepted: "decode_frame (decode_wire env) l schema P C bs = Inr (DecodedData n a m)
    \<Longrightarrow> accept_peer_ack a l = (Inr k, l1) \<Longrightarrow> classify_receive n fp l1 = Inr NextOperation
    \<Longrightarrow> accept_receive n fp l1 = (Inr (), l2)
    \<Longrightarrow> pushed (encode_wire env) schema us (acknowledge_through k q) l2 q' l'
    \<Longrightarrow> received env schema P C bs l q l' q' [m] us"

lemma same_sequences_self [simp]: "same_sequences l l"
  by (simp add: same_sequences_def same_identity_def)

lemma accept_peer_ack_identity:
  "accept_peer_ack a l = (Inr k, l1) \<Longrightarrow> same_identity l l1
     \<and> applied_receive_through l1 = applied_receive_through l"
  by (auto simp: accept_peer_ack_def Let_def same_identity_def split: if_splits)

lemma duplex_receive:
  assumes dup: "duplex (decode_wire env) schema P C a b" and bs: "bs \<in> handed_out b"
    and "received env schema C P bs (party_link a) (party_queue a) l' q' ms us"
    and us: "\<forall>m \<in> set us. routed P C m"
  shows "duplex (decode_wire env) schema P C
           (a\<lparr>party_link := l', party_queue := q', applied_messages := applied_messages a @ ms,
              sent_events := sent_events a @ events us\<rparr>) b"
  using assms(3)
proof cases
  case refused
  then show ?thesis using dup by simp
next
  case resent
  then show ?thesis using duplex_same_sequences [OF dup same_sequences_self resent(4)] by simp
next
  case (acknowledged f n' n m k l1)
  note d = duplex_acknowledge [OF dup acknowledged(6) duplex_ack_bound [OF dup bs acknowledged(4,5)]]
  from duplex_same_sequences [OF d, of l' "acknowledge_through k (party_queue a)"]
  show ?thesis using acknowledged by simp
next
  case (accepted n k' m k l1 fp l2)
  have b: "unat k' \<le> unat (applied_receive_through (party_link b))"
    using duplex_ack_bound [OF dup bs accepted(2)] by blast
  let ?a = "a\<lparr>party_link := l1, party_queue := acknowledge_through k (party_queue a)\<rparr>"
  have d: "duplex (decode_wire env) schema P C ?a b" by (rule duplex_acknowledge [OF dup accepted(3) b])
  have "decode_frame (decode_wire env) (party_link ?a) schema C P bs = Inr (DecodedData n k' m)"
    using accepted(2) accept_peer_ack_identity [OF accepted(3)]
    by (simp add: decode_frame_identity [of "party_link a" l1])
  from duplex_deliver [OF d bs this, of fp l2] accepted
  have "duplex (decode_wire env) schema P C (?a\<lparr>party_link := l2, applied_messages := applied_messages a @ [m]\<rparr>) b"
    by simp
  from duplex_push [OF this us, of "encode_wire env" q' l'] accepted show ?thesis by (cases a) simp
qed

text \<open>The parts of a runtime that routing an update leaves alone.\<close>

definition client_kept :: "'e client_runtime \<Rightarrow> 'e client_runtime \<Rightarrow> bool" where
  "client_kept c c' \<longleftrightarrow> client_wire_schema c' = client_wire_schema c
     \<and> client_connected c' = client_connected c \<and> leased_session_frame c' = leased_session_frame c"

definition session_kept :: "'e session_runtime \<Rightarrow> 'e session_runtime \<Rightarrow> bool" where
  "session_kept s s' \<longleftrightarrow> session_wire_schema s' = session_wire_schema s
     \<and> inbound_client_frames s' = inbound_client_frames s
     \<and> leased_client_frame s' = leased_client_frame s"

lemma client_route_Inl:
  assumes "client_route_prepared_with_transport env p ol q c = (Inl e, c')"
  shows "client_kept c c' \<and> client_link c' = client_link c \<and> client_outbound c' = client_outbound c"
  using assms by (auto simp: client_route_prepared_with_transport_def client_kept_def
      split: sum.splits prod.splits)

lemma client_route_Inr:
  assumes "client_route_prepared_with_transport env p (Some l) q c = (Inr t, c')"
  shows "client_kept c c' \<and> (\<forall>m \<in> set (prepared_messages env p).
      message_producer m = ClientRole \<and> message_consumer m = SessionRole)
    \<and> (\<exists>l'. client_link c' = Some l' \<and> pushed (encode_wire env) (client_wire_schema c)
         (prepared_messages env p) q l (client_outbound c') l')"
proof -
  obtain ol q' where st: "client_stage env (client_wire_schema c) (prepared_messages env p) (Some l) q = Inr (ol, q')"
    and c': "client_link c' = ol" "client_outbound c' = q'" "client_kept c c'"
    using assms by (auto simp: client_route_prepared_with_transport_def client_kept_def
        split: sum.splits prod.splits)
  have "\<exists>l'. ol = Some l' \<and> pushed (encode_wire env) (client_wire_schema c) (prepared_messages env p) q l q' l'"
    and "\<forall>m \<in> set (prepared_messages env p). message_producer m = ClientRole \<and> message_consumer m = SessionRole"
    using st by (auto simp: client_stage_def pushed_def list_ex_iff split: if_splits)
  then show ?thesis using c' by simp
qed

lemma split_messages_Cons:
  assumes "split_messages (m # ms) = Inr (cs, ss)"
  shows "message_producer m = SessionRole \<and> (\<exists>cs' ss'. split_messages ms = Inr (cs', ss')
    \<and> cs = (if message_consumer m = ClientRole then m # cs' else cs'))"
  using assms by (cases "split_messages ms") (simp_all split: if_splits program_role.splits prod.splits)

lemma split_messages_Inr:
  "split_messages ms = Inr (cs, ss) \<Longrightarrow> cs = filter (\<lambda>m. message_consumer m = ClientRole) ms
     \<and> (\<forall>m \<in> set cs. message_producer m = SessionRole \<and> message_consumer m = ClientRole)"
proof (induction ms arbitrary: cs ss)
  case (Cons m ms)
  from split_messages_Cons [OF Cons.prems] obtain cs' ss' where
    m: "message_producer m = SessionRole" and s: "split_messages ms = Inr (cs', ss')"
    and c: "cs = (if message_consumer m = ClientRole then m # cs' else cs')" by blast
  have f: "cs' = filter (\<lambda>m. message_consumer m = ClientRole) ms"
    and r: "\<forall>m \<in> set cs'. message_producer m = SessionRole \<and> message_consumer m = ClientRole"
    using Cons.IH [OF s] by blast+
  show ?case using m r by (simp add: c flip: f)
qed simp

definition client_messages_of :: "distributed_message list \<Rightarrow> distributed_message list" where
  "client_messages_of ms = filter (\<lambda>m. message_consumer m = ClientRole) ms"

lemma session_route_Inl:
  assumes "session_route_prepared_with_transport env p conn l q server s = (Inl e, s')"
  shows "session_kept s s' \<and> session_link_of s' = session_link_of s \<and> outbound_client s' = outbound_client s
    \<and> session_connected s' = session_connected s"
  using assms by (auto simp: session_route_prepared_with_transport_def session_rollback_def session_kept_def
      split: sum.splits prod.splits)

lemma session_stage_pushed:
  assumes "session_stage env conn cs ss l q server s = Inr (l', q', server')"
  shows "pushed (encode_wire env) (session_wire_schema s) cs q l q' l'"
proof (cases "typed_queue_push ss server")
  case (Pair r server'')
  then show ?thesis using assms by (cases r) (auto simp: session_stage_def pushed_def split: if_splits)
qed

lemma session_route_Inr:
  assumes "session_route_prepared_with_transport env p conn l q server s = (Inr t, s')"
  shows "session_kept s s' \<and> session_connected s' = conn
    \<and> (\<forall>m \<in> set (client_messages_of (prepared_messages env p)).
         message_producer m = SessionRole \<and> message_consumer m = ClientRole)
    \<and> pushed (encode_wire env) (session_wire_schema s) (client_messages_of (prepared_messages env p)) q l
         (outbound_client s') (session_link_of s')"
proof (cases "split_messages (prepared_messages env p)")
  case (Inl e)
  then show ?thesis using assms
    by (simp add: session_route_prepared_with_transport_def session_rollback_def split: sum.splits prod.splits)
next
  case (Inr x)
  obtain cs ss where x: "x = (cs, ss)" by (cases x)
  have f: "client_messages_of (prepared_messages env p) = cs"
    and r: "\<forall>m \<in> set cs. message_producer m = SessionRole \<and> message_consumer m = ClientRole"
    using split_messages_Inr [OF Inr [unfolded x]] unfolding client_messages_of_def by blast+
  show ?thesis
  proof (cases "session_stage env conn cs ss l q server s")
    case (Inl e)
    then show ?thesis using assms Inr x \<open>split_messages _ = Inr x\<close>
      by (simp add: session_route_prepared_with_transport_def session_rollback_def split: sum.splits prod.splits)
  next
    case (Inr y)
    obtain l' q' server' where y: "y = (l', q', server')" by (cases y)
    have "session_link_of s' = l'" "outbound_client s' = q'" "session_connected s' = conn" "session_kept s s'"
      using assms Inr y x \<open>split_messages _ = Inr x\<close>
      by (auto simp: session_route_prepared_with_transport_def session_kept_def)
    then show ?thesis using session_stage_pushed [OF Inr [unfolded y]] r unfolding f by blast
  qed
qed

text \<open>The message a frame delivers to the endpoint and the endpoint update it causes: the handler has
  succeeded on the operation after the watermark.\<close>

definition next_message ::
  "('e, 'p) transport_env \<Rightarrow> wire_schema \<Rightarrow> program_role \<Rightarrow> program_role \<Rightarrow> session_link \<Rightarrow> bytes
     \<Rightarrow> distributed_message option" where
  "next_message env schema P C l bs =
     (case decode_frame (decode_wire env) l schema P C bs of
        Inr (DecodedData n _ m) \<Rightarrow>
          if n = saturating_add (applied_receive_through l) 1 then Some m else None
      | _ \<Rightarrow> None)"

definition client_accepts ::
  "('e, 'p) transport_env \<Rightarrow> bytes \<Rightarrow> 'e client_runtime \<Rightarrow> (distributed_message \<times> 'p) option" where
  "client_accepts env bs c =
     (case (client_link c, fst (client_accept_session_frame env bs c)) of
        (Some l, Inr _) \<Rightarrow>
          (case next_message env (client_wire_schema c) SessionRole ClientRole l bs of
             None \<Rightarrow> None
           | Some m \<Rightarrow>
               (case fst (prepare_accept env m [SessionRole] (client_endpoint c)) of
                  Inr p \<Rightarrow> Some (m, p) | Inl _ \<Rightarrow> None))
      | _ \<Rightarrow> None)"

definition session_accepts ::
  "('e, 'p) transport_env \<Rightarrow> bytes \<Rightarrow> 'e session_runtime \<Rightarrow> (distributed_message \<times> 'p) option" where
  "session_accepts env bs s =
     (case fst (session_accept_client_frame env bs s) of
        Inl _ \<Rightarrow> None
      | Inr _ \<Rightarrow>
          (case next_message env (session_wire_schema s) ClientRole SessionRole (session_link_of s) bs of
             None \<Rightarrow> None
           | Some m \<Rightarrow>
               (case fst (prepare_accept env m SESSION_CONNECTED_TARGETS (session_endpoint s)) of
                  Inr p \<Rightarrow> Some (m, p) | Inl _ \<Rightarrow> None)))"

definition accepted_messages :: "(distributed_message \<times> 'p) option \<Rightarrow> distributed_message list" where
  "accepted_messages a = (case a of None \<Rightarrow> [] | Some (m, _) \<Rightarrow> [m])"

definition reply_messages ::
  "('e, 'p) transport_env \<Rightarrow> (distributed_message \<times> 'p) option \<Rightarrow> distributed_message list" where
  "reply_messages env a = (case a of None \<Rightarrow> [] | Some (_, p) \<Rightarrow> prepared_messages env p)"

lemmas accepted_defs = client_accepts_def session_accepts_def next_message_def accepted_messages_def
  reply_messages_def

lemma classify_receive_other:
  assumes "classify_receive n fp l = Inr x" "x \<noteq> NextOperation"
  shows "n \<noteq> saturating_add (applied_receive_through l) 1"
  using assms by (auto simp: classify_receive_def)

lemma resend_from_contents: "resend_from n k q = (Inr u, q') \<Longrightarrow> queue_contents q' = queue_contents q"
  by (auto simp: resend_from_def queue_contents_def split: if_splits)

lemma accept_receive_duplicate_link:
  "classify_receive n fp l = Inr DuplicateOperation \<Longrightarrow> accept_receive n fp l = (r, l')
     \<Longrightarrow> r = Inr () \<and> same_sequences l l'"
  by (auto simp: accept_receive_def same_sequences_def same_identity_def)

lemma same_sequences_resync: "same_sequences l (request_resync n l)"
  by (simp add: request_resync_def same_sequences_def same_identity_def)

lemma client_accept_Inl:
  assumes "client_accept_session_frame env bs c = (Inl e, c')"
  shows "client_kept c c' \<and> client_link c' = client_link c \<and> client_outbound c' = client_outbound c"
  using assms by (auto simp: client_accept_session_frame_def client_kept_def Let_def
      split: if_splits option.splits sum.splits prod.splits decoded_frame.splits receive_operation.splits
      dest!: client_route_Inl)

lemma client_accept_data:
  assumes "client_link c = Some l" "client_accept_session_frame env bs c = (Inr t, c')"
    and "decode_frame (decode_wire env) l (client_wire_schema c) SessionRole ClientRole bs = Inr (DecodedData n a m)"
  obtains fp k l1 op where "accept_peer_ack a l = (Inr k, l1)" "classify_receive n fp l1 = Inr op"
    "op \<noteq> NextOperation \<Longrightarrow> client_kept c c' \<and> (\<exists>l'. client_link c' = Some l' \<and> same_sequences l1 l')
        \<and> client_outbound c' = acknowledge_through k (client_outbound c)"
    "op = NextOperation \<Longrightarrow> \<exists>p ep l2. fst (prepare_accept env m [SessionRole] (client_endpoint c)) = Inr p
        \<and> accept_receive n fp l1 = (Inr (), l2)
        \<and> client_route_prepared_with_transport env p (Some l2) (acknowledge_through k (client_outbound c))
             (c\<lparr>client_endpoint := ep\<rparr>) = (Inr t, c')"
proof -
  note h = assms(2) [unfolded client_accept_session_frame_def assms(1)]
  have conn: "client_connected c" using h by (simp split: if_splits)
  obtain fp where fp: "fingerprint_of env m = Inr fp" using h conn assms by (cases "fingerprint_of env m") auto
  obtain r l1 where k: "accept_peer_ack a l = (r, l1)" by (cases "accept_peer_ack a l")
  obtain k where r: "r = Inr k" using h conn assms fp k by (cases r) auto
  obtain op where op: "classify_receive n fp l1 = Inr op"
    using h conn assms fp k r by (cases "classify_receive n fp l1") (auto simp: Let_def)
  show thesis
  proof (rule that [of k l1 fp op])
    show "accept_peer_ack a l = (Inr k, l1)" "classify_receive n fp l1 = Inr op" using k r op by simp_all
    show "client_kept c c' \<and> (\<exists>l'. client_link c' = Some l' \<and> same_sequences l1 l')
        \<and> client_outbound c' = acknowledge_through k (client_outbound c)" if "op \<noteq> NextOperation"
      using that h conn assms fp k r op accept_receive_duplicate_link [of n fp l1]
      by (cases op) (auto simp: Let_def client_kept_def same_sequences_resync split: prod.splits sum.splits)
    show "\<exists>p ep l2. fst (prepare_accept env m [SessionRole] (client_endpoint c)) = Inr p
        \<and> accept_receive n fp l1 = (Inr (), l2)
        \<and> client_route_prepared_with_transport env p (Some l2) (acknowledge_through k (client_outbound c))
             (c\<lparr>client_endpoint := ep\<rparr>) = (Inr t, c')" if "op = NextOperation"
      using that h conn assms fp k r op
      by (auto simp: Let_def split: prod.splits sum.splits)
  qed
qed

lemma client_accept_Inr:
  assumes l: "client_link c = Some l" and h: "client_accept_session_frame env bs c = (Inr t, c')"
  shows "client_kept c c' \<and> (\<exists>l'. client_link c' = Some l'
      \<and> received env (client_wire_schema c) SessionRole ClientRole bs l (client_outbound c) l' (client_outbound c')
          (accepted_messages (client_accepts env bs c)) (reply_messages env (client_accepts env bs c)))
    \<and> (\<forall>m \<in> set (reply_messages env (client_accepts env bs c)).
         message_producer m = ClientRole \<and> message_consumer m = SessionRole)"
proof -
  have conn: "client_connected c" using h by (simp add: client_accept_session_frame_def split: if_splits)
  obtain f where f: "decode_frame (decode_wire env) l (client_wire_schema c) SessionRole ClientRole bs = Inr f"
    using h conn l by (cases "decode_frame (decode_wire env) l (client_wire_schema c) SessionRole ClientRole bs")
      (auto simp: client_accept_session_frame_def)
  show ?thesis
  proof (cases f)
    case (DecodedAck a)
    obtain k l' where "accept_peer_ack a l = (Inr k, l')" "client_link c' = Some l'" "client_kept c c'"
      "client_outbound c' = acknowledge_through k (client_outbound c)"
      using h conn l f DecodedAck
      by (auto simp: client_accept_session_frame_def client_kept_def split: prod.splits sum.splits)
    moreover have "client_accepts env bs c = None" using f DecodedAck l h by (simp add: accepted_defs)
    ultimately show ?thesis using received.acknowledged [OF f _ _ same_sequences_self] DecodedAck
      by (auto simp: accepted_defs)
  next
    case (DecodedResync n)
    have "client_link c' = Some l" "client_kept c c'"
      "resend_from n (last_send_operation_sequence l) (client_outbound c) = (Inr (), client_outbound c')"
      using h conn l f DecodedResync
      by (auto simp: client_accept_session_frame_def client_kept_def split: prod.splits sum.splits)
    moreover have "client_accepts env bs c = None" using f DecodedResync l h by (simp add: accepted_defs)
    ultimately show ?thesis using received.resent [OF resend_from_contents] by (auto simp: accepted_defs)
  next
    case (DecodedData n a m)
    note f' = f [unfolded DecodedData]
    obtain fp k l1 op where k: "accept_peer_ack a l = (Inr k, l1)" and op: "classify_receive n fp l1 = Inr op"
      and other: "op \<noteq> NextOperation \<Longrightarrow> client_kept c c' \<and> (\<exists>l'. client_link c' = Some l' \<and> same_sequences l1 l')
        \<and> client_outbound c' = acknowledge_through k (client_outbound c)"
      and nx: "op = NextOperation \<Longrightarrow> \<exists>p ep l2. fst (prepare_accept env m [SessionRole] (client_endpoint c)) = Inr p
        \<and> accept_receive n fp l1 = (Inr (), l2)
        \<and> client_route_prepared_with_transport env p (Some l2) (acknowledge_through k (client_outbound c))
             (c\<lparr>client_endpoint := ep\<rparr>) = (Inr t, c')"
      by (rule client_accept_data [OF l h f']) blast
    have ap: "applied_receive_through l1 = applied_receive_through l" using accept_peer_ack_identity [OF k] by simp
    show ?thesis
    proof (cases "op = NextOperation")
      case True
      from nx [OF True] obtain p ep l2 where p: "fst (prepare_accept env m [SessionRole] (client_endpoint c)) = Inr p"
        "accept_receive n fp l1 = (Inr (), l2)"
        "client_route_prepared_with_transport env p (Some l2) (acknowledge_through k (client_outbound c))
             (c\<lparr>client_endpoint := ep\<rparr>) = (Inr t, c')" by blast
      have "client_accepts env bs c = Some (m, p)"
        using l h f' p(1) accept_receive_next [OF op [unfolded True]] ap by (simp add: client_accepts_def next_message_def)
      then show ?thesis
        using client_route_Inr [OF p(3)] received.accepted [OF f' k op [unfolded True] p(2)]
        by (auto simp: accepted_messages_def reply_messages_def client_kept_def)
    next
      case False
      have "client_accepts env bs c = None"
        using l h f' classify_receive_other [OF op False] ap by (simp add: accepted_defs)
      then show ?thesis using other [OF False] received.acknowledged [OF f' _ k]
        by (auto simp: accepted_messages_def reply_messages_def)
    qed
  qed
qed

lemma session_accept_Inl:
  assumes "session_accept_client_frame env bs s = (Inl e, s')"
  shows "session_kept s s' \<and> session_link_of s' = session_link_of s \<and> outbound_client s' = outbound_client s
    \<and> session_connected s' = session_connected s"
  using assms by (auto simp: session_accept_client_frame_def session_kept_def Let_def
      split: if_splits option.splits sum.splits prod.splits decoded_frame.splits receive_operation.splits
      dest!: session_route_Inl)

lemma session_accept_data:
  assumes "session_accept_client_frame env bs s = (Inr t, s')"
    and "decode_frame (decode_wire env) (session_link_of s) (session_wire_schema s) ClientRole SessionRole bs
      = Inr (DecodedData n a m)"
  obtains fp k l1 op where "accept_peer_ack a (session_link_of s) = (Inr k, l1)" "classify_receive n fp l1 = Inr op"
    "op \<noteq> NextOperation \<Longrightarrow> session_kept s s' \<and> session_connected s' = session_connected s
        \<and> same_sequences l1 (session_link_of s')
        \<and> outbound_client s' = acknowledge_through k (outbound_client s)"
    "op = NextOperation \<Longrightarrow> \<exists>p ep l2.
        fst (prepare_accept env m SESSION_CONNECTED_TARGETS (session_endpoint s)) = Inr p
        \<and> accept_receive n fp l1 = (Inr (), l2)
        \<and> session_route_prepared_with_transport env p (session_connected s) l2
             (acknowledge_through k (outbound_client s)) (outbound_server s)
             (s\<lparr>session_endpoint := ep\<rparr>) = (Inr t, s')"
proof -
  note h = assms(1) [unfolded session_accept_client_frame_def Let_def]
  let ?l = "session_link_of s"
  obtain fp where fp: "fingerprint_of env m = Inr fp" using h assms by (cases "fingerprint_of env m") auto
  obtain r l1 where k: "accept_peer_ack a ?l = (r, l1)" by (cases "accept_peer_ack a ?l")
  obtain k where r: "r = Inr k" using h assms fp k by (cases r) auto
  obtain op where op: "classify_receive n fp l1 = Inr op"
    using h assms fp k r by (cases "classify_receive n fp l1") auto
  show thesis
  proof (rule that [of k l1 fp op])
    show "accept_peer_ack a ?l = (Inr k, l1)" "classify_receive n fp l1 = Inr op" using k r op by simp_all
    show "session_kept s s' \<and> session_connected s' = session_connected s
        \<and> same_sequences l1 (session_link_of s')
        \<and> outbound_client s' = acknowledge_through k (outbound_client s)" if "op \<noteq> NextOperation"
      using that h assms fp k r op accept_receive_duplicate_link [of n fp l1]
      by (cases op) (auto simp: session_kept_def same_sequences_resync split: prod.splits sum.splits)
    show "\<exists>p ep l2. fst (prepare_accept env m SESSION_CONNECTED_TARGETS (session_endpoint s)) = Inr p
        \<and> accept_receive n fp l1 = (Inr (), l2)
        \<and> session_route_prepared_with_transport env p (session_connected s) l2
             (acknowledge_through k (outbound_client s)) (outbound_server s)
             (s\<lparr>session_endpoint := ep\<rparr>) = (Inr t, s')" if "op = NextOperation"
      using that h assms fp k r op by (auto split: prod.splits sum.splits)
  qed
qed

definition session_replies ::
  "('e, 'p) transport_env \<Rightarrow> (distributed_message \<times> 'p) option \<Rightarrow> distributed_message list" where
  "session_replies env a = client_messages_of (reply_messages env a)"

lemma session_accept_Inr:
  assumes h: "session_accept_client_frame env bs s = (Inr t, s')"
  shows "session_kept s s' \<and> session_connected s' = session_connected s
    \<and> received env (session_wire_schema s) ClientRole SessionRole bs (session_link_of s) (outbound_client s)
        (session_link_of s') (outbound_client s')
        (accepted_messages (session_accepts env bs s)) (session_replies env (session_accepts env bs s))
    \<and> (\<forall>m \<in> set (session_replies env (session_accepts env bs s)).
         message_producer m = SessionRole \<and> message_consumer m = ClientRole)"
proof -
  let ?l = "session_link_of s"
  obtain f where f: "decode_frame (decode_wire env) ?l (session_wire_schema s) ClientRole SessionRole bs = Inr f"
    using h by (cases "decode_frame (decode_wire env) ?l (session_wire_schema s) ClientRole SessionRole bs")
      (auto simp: session_accept_client_frame_def)
  show ?thesis
  proof (cases f)
    case (DecodedAck a)
    obtain k where "accept_peer_ack a ?l = (Inr k, session_link_of s')" "session_kept s s'"
      "session_connected s' = session_connected s"
      "outbound_client s' = acknowledge_through k (outbound_client s)"
      using h f DecodedAck
      by (auto simp: session_accept_client_frame_def session_kept_def split: prod.splits sum.splits)
    moreover have "session_accepts env bs s = None" using f DecodedAck h by (simp add: accepted_defs)
    ultimately show ?thesis using received.acknowledged [OF f _ _ same_sequences_self] DecodedAck
      by (auto simp: accepted_defs session_replies_def client_messages_of_def)
  next
    case (DecodedResync n)
    have "session_link_of s' = ?l" "session_kept s s'" "session_connected s' = session_connected s"
      "resend_from n (last_send_operation_sequence ?l) (outbound_client s) = (Inr (), outbound_client s')"
      using h f DecodedResync
      by (auto simp: session_accept_client_frame_def session_kept_def split: prod.splits sum.splits)
    moreover have "session_accepts env bs s = None" using f DecodedResync h by (simp add: accepted_defs)
    ultimately show ?thesis using received.resent [OF resend_from_contents]
      by (auto simp: accepted_defs session_replies_def client_messages_of_def)
  next
    case (DecodedData n a m)
    note f' = f [unfolded DecodedData]
    obtain fp k l1 op where k: "accept_peer_ack a ?l = (Inr k, l1)" and op: "classify_receive n fp l1 = Inr op"
      and other: "op \<noteq> NextOperation \<Longrightarrow> session_kept s s' \<and> session_connected s' = session_connected s
        \<and> same_sequences l1 (session_link_of s')
        \<and> outbound_client s' = acknowledge_through k (outbound_client s)"
      and nx: "op = NextOperation \<Longrightarrow> \<exists>p ep l2.
        fst (prepare_accept env m SESSION_CONNECTED_TARGETS (session_endpoint s)) = Inr p
        \<and> accept_receive n fp l1 = (Inr (), l2)
        \<and> session_route_prepared_with_transport env p (session_connected s) l2
             (acknowledge_through k (outbound_client s)) (outbound_server s)
             (s\<lparr>session_endpoint := ep\<rparr>) = (Inr t, s')"
      by (rule session_accept_data [OF h f']) blast
    have ap: "applied_receive_through l1 = applied_receive_through ?l" using accept_peer_ack_identity [OF k] by simp
    show ?thesis
    proof (cases "op = NextOperation")
      case True
      from nx [OF True] obtain p ep l2 where
        p: "fst (prepare_accept env m SESSION_CONNECTED_TARGETS (session_endpoint s)) = Inr p"
        "accept_receive n fp l1 = (Inr (), l2)"
        "session_route_prepared_with_transport env p (session_connected s) l2
             (acknowledge_through k (outbound_client s)) (outbound_server s)
             (s\<lparr>session_endpoint := ep\<rparr>) = (Inr t, s')" by blast
      have a: "session_accepts env bs s = Some (m, p)"
        using h f' p(1) accept_receive_next [OF op [unfolded True]] ap by (simp add: session_accepts_def next_message_def)
      show ?thesis
        using session_route_Inr [OF p(3)] received.accepted [OF f' k op [unfolded True] p(2)]
        unfolding a by (simp add: accepted_messages_def reply_messages_def session_replies_def session_kept_def)
    next
      case False
      have "session_accepts env bs s = None"
        using h f' classify_receive_other [OF op False] ap by (simp add: accepted_defs)
      then show ?thesis using other [OF False] received.acknowledged [OF f' _ k]
        by (auto simp: accepted_messages_def reply_messages_def session_replies_def client_messages_of_def)
    qed
  qed
qed

section \<open>A client session\<close>

text \<open>Both runtimes, the bytes handed out in each direction, and as history the messages applied by each
  endpoint and the events each has sent since the last handshake, on top of those delivered before.\<close>

record 'e session_system =
  sys_client :: "'e client_runtime"
  sys_session :: "'e session_runtime"
  to_session :: "bytes set"
  to_client :: "bytes set"
  delivered_to_session :: "distributed_message list"
  delivered_to_client :: "distributed_message list"
  client_sent :: "distributed_message list"
  session_sent :: "distributed_message list"

text \<open>A run starts with the first handshake. The network delivers any bytes that were handed out, any
  number of times and in any order, or not at all. Handlers that change the owned effects besides
  routing an update are the composition of two steps. The handshake of a reconnection is one step:
  it exchanges the watermarks of the two links.\<close>

inductive session_run :: "('e, 'p) transport_env \<Rightarrow> wire_schema \<Rightarrow> 'e session_system \<Rightarrow> bool"
  for env schema where
  start: "client_link c = None \<Longrightarrow> client_wire_schema c = schema \<Longrightarrow> outbound_messages (client_outbound c) = []
    \<Longrightarrow> session_link_of s = link_new (client_graph_hash c) (client_wire_schema_hash c)
          (client_graph_revision c) session_id generation
    \<Longrightarrow> session_wire_schema s = schema \<Longrightarrow> outbound_messages (outbound_client s) = []
    \<Longrightarrow> inbound_client_frames s = [] \<Longrightarrow> leased_client_frame s = None
    \<Longrightarrow> fst (prepare (client_endpoint c)) = Inr p
    \<Longrightarrow> client_bind env prepare session_id generation 0 c = (Inr t, c')
    \<Longrightarrow> session_run env schema \<lparr>sys_client = c', sys_session = s, to_session = {}, to_client = {},
          delivered_to_session = [], delivered_to_client = [],
          client_sent = events (prepared_messages env p), session_sent = []\<rparr>"
| client_publishes: "session_run env schema S \<Longrightarrow> fst (prepare (client_endpoint (sys_client S))) = Inr p
    \<Longrightarrow> client_publish env prepare (sys_client S) = (Inr t, c')
    \<Longrightarrow> session_run env schema (S\<lparr>sys_client := c',
          client_sent := client_sent S @ events (prepared_messages env p)\<rparr>)"
| client_publish_fails: "session_run env schema S \<Longrightarrow> client_publish env prepare (sys_client S) = (Inl e, c')
    \<Longrightarrow> session_run env schema (S\<lparr>sys_client := c'\<rparr>)"
| client_receives: "session_run env schema S \<Longrightarrow> bs \<in> to_client S
    \<Longrightarrow> client_accept_session_frame env bs (sys_client S) = (r, c')
    \<Longrightarrow> a = client_accepts env bs (sys_client S)
    \<Longrightarrow> session_run env schema (S\<lparr>sys_client := c',
          delivered_to_client := delivered_to_client S @ accepted_messages a,
          client_sent := client_sent S @ events (reply_messages env a)\<rparr>)"
| client_leases: "session_run env schema S \<Longrightarrow> client_next_session_frame env (sys_client S) = (Inr (Some bs), c')
    \<Longrightarrow> session_run env schema (S\<lparr>sys_client := c', to_session := insert bs (to_session S)\<rparr>)"
| client_confirms: "session_run env schema S \<Longrightarrow> client_acknowledge_session_frame (sys_client S) = (b, c')
    \<Longrightarrow> session_run env schema (S\<lparr>sys_client := c'\<rparr>)"
| client_disconnects: "session_run env schema S \<Longrightarrow> client_owned_effects (sys_client S) = []
    \<Longrightarrow> fst (prepare (client_endpoint (sys_client S))) = Inr p
    \<Longrightarrow> client_mark_stale env cancel prepare (sys_client S) = (Inr t, c')
    \<Longrightarrow> session_run env schema (S\<lparr>sys_client := c',
          client_sent := client_sent S @ events (prepared_messages env p)\<rparr>)"
| client_effects: "session_run env schema S
    \<Longrightarrow> session_run env schema (S\<lparr>sys_client := sys_client S\<lparr>client_owned_effects := owned\<rparr>\<rparr>)"
| session_publishes: "session_run env schema S \<Longrightarrow> fst (prepare (session_endpoint (sys_session S))) = Inr p
    \<Longrightarrow> session_publish env prepare (sys_session S) = (Inr t, s')
    \<Longrightarrow> session_run env schema (S\<lparr>sys_session := s',
          session_sent := session_sent S @ events (client_messages_of (prepared_messages env p))\<rparr>)"
| session_publish_fails: "session_run env schema S \<Longrightarrow> session_publish env prepare (sys_session S) = (Inl e, s')
    \<Longrightarrow> session_run env schema (S\<lparr>sys_session := s'\<rparr>)"
| session_connects: "session_run env schema S \<Longrightarrow> fst (prepare (session_endpoint (sys_session S))) = Inr p
    \<Longrightarrow> session_mark_current env prepare (sys_session S) = (Inr t, s')
    \<Longrightarrow> session_run env schema (S\<lparr>sys_session := s',
          session_sent := session_sent S @ events (client_messages_of (prepared_messages env p))\<rparr>)"
| session_disconnects: "session_run env schema S \<Longrightarrow> fst (prepare (session_endpoint (sys_session S))) = Inr p
    \<Longrightarrow> session_mark_stale env prepare (sys_session S) = (Inr t, s')
    \<Longrightarrow> session_run env schema (S\<lparr>sys_session := s',
          session_sent := session_sent S @ events (client_messages_of (prepared_messages env p))\<rparr>)"
| session_admits: "session_run env schema S \<Longrightarrow> bs \<in> to_session S
    \<Longrightarrow> admit_client_frame bs (sys_session S) = (r, s')
    \<Longrightarrow> session_run env schema (S\<lparr>sys_session := s'\<rparr>)"
| session_polls: "session_run env schema S \<Longrightarrow> inbound_client_frames (sys_session S) = bs # rest
    \<Longrightarrow> poll_client_frame env (sys_session S) = (Inr t, s')
    \<Longrightarrow> a = session_accepts env bs (sys_session S)
    \<Longrightarrow> session_run env schema (S\<lparr>sys_session := s',
          delivered_to_session := delivered_to_session S @ accepted_messages a,
          session_sent := session_sent S @ events (session_replies env a)\<rparr>)"
| session_poll_fails: "session_run env schema S \<Longrightarrow> poll_client_frame env (sys_session S) = (Inl e, s')
    \<Longrightarrow> session_run env schema (S\<lparr>sys_session := s'\<rparr>)"
| session_leases: "session_run env schema S \<Longrightarrow> next_client_frame env (sys_session S) = (Inr (Some bs), s')
    \<Longrightarrow> session_run env schema (S\<lparr>sys_session := s', to_client := insert bs (to_client S)\<rparr>)"
| session_confirms: "session_run env schema S \<Longrightarrow> acknowledge_client_frame (sys_session S) = (b, s')
    \<Longrightarrow> session_run env schema (S\<lparr>sys_session := s'\<rparr>)"
| session_serves: "session_run env schema S \<Longrightarrow> acknowledge_server_message (sys_session S) = (r, s')
    \<Longrightarrow> session_run env schema (S\<lparr>sys_session := s'\<rparr>)"
| session_effects: "session_run env schema S
    \<Longrightarrow> session_run env schema (S\<lparr>sys_session := sys_session S\<lparr>session_owned_effects := owned\<rparr>\<rparr>)"
| reconnects: "session_run env schema S \<Longrightarrow> client_link (sys_client S) = Some l
    \<Longrightarrow> fst (prepare_session (session_endpoint (sys_session S))) = Inr ps
    \<Longrightarrow> session_rebind_client env prepare_session generation (applied_receive_through l) (sys_session S) = (Inr ts, s')
    \<Longrightarrow> fst (prepare_client (client_endpoint (sys_client S))) = Inr pc
    \<Longrightarrow> client_bind env prepare_client (link_session_id (session_link_of (sys_session S))) generation
          (applied_receive_through (session_link_of (sys_session S))) (sys_client S) = (Inr tc, c')
    \<Longrightarrow> session_run env schema (S\<lparr>sys_client := c', sys_session := s',
          client_sent := events (delivered_to_session S) @ events (prepared_messages env pc),
          session_sent := events (delivered_to_client S) @ events (client_messages_of (prepared_messages env ps))\<rparr>)"

definition env_ok :: "('e, 'p) transport_env \<Rightarrow> wire_schema \<Rightarrow> bool" where
  "env_ok env schema \<longleftrightarrow> codec_ok (encode_wire env) (decode_wire env) \<and> schema_wf schema
     \<and> (\<forall>p. \<forall>m \<in> set (prepared_messages env p). message_wf m)"

definition client_party :: "'e session_system \<Rightarrow> party" where
  "client_party S = \<lparr>party_link = the (client_link (sys_client S)), party_queue = client_outbound (sys_client S),
     party_live = client_connected (sys_client S), handed_out = to_session S,
     applied_messages = delivered_to_client S, sent_events = client_sent S\<rparr>"

definition session_party :: "'e session_system \<Rightarrow> party" where
  "session_party S = \<lparr>party_link = session_link_of (sys_session S), party_queue = outbound_client (sys_session S),
     party_live = True, handed_out = to_client S,
     applied_messages = delivered_to_session S, sent_events = session_sent S\<rparr>"

definition system_inv :: "('e, 'p) transport_env \<Rightarrow> wire_schema \<Rightarrow> 'e session_system \<Rightarrow> bool" where
  "system_inv env schema S \<longleftrightarrow>
     client_link (sys_client S) \<noteq> None \<and> client_wire_schema (sys_client S) = schema
     \<and> session_wire_schema (sys_session S) = schema
     \<and> duplex (decode_wire env) schema ClientRole SessionRole (client_party S) (session_party S)
     \<and> fst ` set_option (leased_session_frame (sys_client S)) \<subseteq> to_session S
     \<and> fst ` set_option (leased_client_frame (sys_session S)) \<subseteq> to_client S
     \<and> set (inbound_client_frames (sys_session S)) \<subseteq> to_session S"

lemma system_inv_client:
  assumes "system_inv env schema S" "client_kept (sys_client S) c'" "client_link c' = Some l'"
    and "duplex (decode_wire env) schema ClientRole SessionRole
      (client_party S\<lparr>party_link := l', party_queue := client_outbound c',
         applied_messages := d, sent_events := x\<rparr>) (session_party S)"
  shows "system_inv env schema (S\<lparr>sys_client := c', delivered_to_client := d, client_sent := x\<rparr>)"
  using assms by (simp add: system_inv_def client_kept_def client_party_def session_party_def)

lemma system_inv_session:
  assumes "system_inv env schema S" "session_wire_schema s' = session_wire_schema (sys_session S)"
    and "set (inbound_client_frames s') \<subseteq> set (inbound_client_frames (sys_session S))"
    and "set_option (leased_client_frame s') \<subseteq> set_option (leased_client_frame (sys_session S))"
    and "duplex (decode_wire env) schema SessionRole ClientRole
      (session_party S\<lparr>party_link := session_link_of s', party_queue := outbound_client s',
         applied_messages := d, sent_events := x\<rparr>) (client_party S)"
  shows "system_inv env schema (S\<lparr>sys_session := s', delivered_to_session := d, session_sent := x\<rparr>)"
  using assms(1-4) duplex_sym [OF assms(5)] by (auto simp: system_inv_def client_party_def session_party_def)

lemma system_inv_duplex:
  assumes "system_inv env schema S"
  shows "duplex (decode_wire env) schema ClientRole SessionRole (client_party S) (session_party S)"
    and "duplex (decode_wire env) schema SessionRole ClientRole (session_party S) (client_party S)"
  using assms by (auto simp: system_inv_def intro: duplex_sym)

lemma client_party_simps [simp]:
  "party_queue (client_party S) = client_outbound (sys_client S)"
  "handed_out (client_party S) = to_session S" "applied_messages (client_party S) = delivered_to_client S"
  "sent_events (client_party S) = client_sent S"
  "client_link (sys_client S) = Some l \<Longrightarrow> party_link (client_party S) = l"
  by (simp_all add: client_party_def)

lemma session_party_simps [simp]:
  "party_queue (session_party S) = outbound_client (sys_session S)"
  "handed_out (session_party S) = to_client S" "applied_messages (session_party S) = delivered_to_session S"
  "sent_events (session_party S) = session_sent S" "party_link (session_party S) = session_link_of (sys_session S)"
  by (simp_all add: session_party_def)

lemma env_ok_routed:
  assumes "env_ok env schema"
    and "\<forall>m \<in> set (prepared_messages env p). message_producer m = P \<and> message_consumer m = C"
  shows "\<forall>m \<in> set (prepared_messages env p). routed P C m"
  using assms by (simp add: env_ok_def routed_def)

lemma env_ok_routed_client:
  assumes "env_ok env schema"
    and "\<forall>m \<in> set (client_messages_of (prepared_messages env p)). message_producer m = P \<and> message_consumer m = C"
  shows "\<forall>m \<in> set (client_messages_of (prepared_messages env p)). routed P C m"
  using assms by (auto simp: env_ok_def routed_def client_messages_of_def)

subsection \<open>Client steps\<close>

lemma system_inv_client_same:
  assumes "system_inv env schema S" "client_kept (sys_client S) c'"
    and "client_link c' = client_link (sys_client S)" "client_outbound c' = client_outbound (sys_client S)"
  shows "system_inv env schema (S\<lparr>sys_client := c'\<rparr>)"
  using assms by (simp add: system_inv_def client_kept_def client_party_def session_party_def)

lemma system_inv_client_publish:
  assumes ok: "env_ok env schema" and inv: "system_inv env schema S"
    and p: "fst (prepare (client_endpoint (sys_client S))) = Inr p"
    and pub: "client_publish env prepare (sys_client S) = (Inr t, c')"
  shows "system_inv env schema (S\<lparr>sys_client := c', client_sent := client_sent S @ events (prepared_messages env p)\<rparr>)"
proof -
  obtain l where l: "client_link (sys_client S) = Some l" using inv by (auto simp: system_inv_def)
  obtain ep where "prepare (client_endpoint (sys_client S)) = (Inr p, ep)" using p by (cases "prepare (client_endpoint (sys_client S))") auto
  then have "client_route_prepared_with_transport env p (Some l) (client_outbound (sys_client S))
      (sys_client S\<lparr>client_endpoint := ep\<rparr>) = (Inr t, c')"
    using pub l by (simp add: client_publish_def client_route_prepared_def)
  from client_route_Inr [OF this] obtain l' where c': "client_kept (sys_client S) c'" "client_link c' = Some l'"
    and us: "\<forall>m \<in> set (prepared_messages env p). message_producer m = ClientRole \<and> message_consumer m = SessionRole"
    and "pushed (encode_wire env) schema (prepared_messages env p) (client_outbound (sys_client S)) l (client_outbound c') l'"
    using inv by (auto simp: client_kept_def system_inv_def)
  from duplex_push [OF system_inv_duplex(1) [OF inv] env_ok_routed [OF ok us], of "encode_wire env" "client_outbound c'" l'] this(4) l
  have "duplex (decode_wire env) schema ClientRole SessionRole (client_party S\<lparr>party_link := l',
      party_queue := client_outbound c', sent_events := client_sent S @ events (prepared_messages env p)\<rparr>) (session_party S)"
    by simp
  then show ?thesis using inv c'
    by (simp add: system_inv_def client_kept_def client_party_def session_party_def)
qed

lemma client_publish_Inl:
  assumes "client_publish env prepare c = (Inl e, c')"
  shows "client_kept c c' \<and> client_link c' = client_link c \<and> client_outbound c' = client_outbound c"
  using assms by (auto simp: client_publish_def client_route_prepared_def client_kept_def
      split: prod.splits sum.splits dest!: client_route_Inl)

lemma system_inv_client_receive:
  assumes ok: "env_ok env schema" and inv: "system_inv env schema S" and bs: "bs \<in> to_client S"
    and h: "client_accept_session_frame env bs (sys_client S) = (r, c')"
    and a: "a = client_accepts env bs (sys_client S)"
  shows "system_inv env schema (S\<lparr>sys_client := c',
          delivered_to_client := delivered_to_client S @ accepted_messages a,
          client_sent := client_sent S @ events (reply_messages env a)\<rparr>)"
proof (cases r)
  case (Inl e)
  then have "a = None" using a h by (simp add: client_accepts_def split: option.split)
  then show ?thesis using client_accept_Inl [OF h [unfolded Inl]] system_inv_client_same [OF inv]
    by (simp add: accepted_messages_def reply_messages_def)
next
  case (Inr t)
  obtain l where l: "client_link (sys_client S) = Some l" using inv by (auto simp: system_inv_def)
  have sch: "client_wire_schema (sys_client S) = schema" using inv by (simp add: system_inv_def)
  from client_accept_Inr [OF l h [unfolded Inr]] obtain l' where
    c': "client_kept (sys_client S) c'" "client_link c' = Some l'"
    and rec: "received env schema SessionRole ClientRole bs l (client_outbound (sys_client S)) l'
      (client_outbound c') (accepted_messages a) (reply_messages env a)"
    and us: "\<forall>m \<in> set (reply_messages env a). message_producer m = ClientRole \<and> message_consumer m = SessionRole"
    using sch a by auto
  have "\<forall>m \<in> set (reply_messages env a). routed ClientRole SessionRole m"
    using us ok by (auto simp: reply_messages_def env_ok_def routed_def split: option.splits)
  from duplex_receive [OF system_inv_duplex(1) [OF inv], of bs l' "client_outbound c'", OF _ _ this] bs rec l
  have "duplex (decode_wire env) schema ClientRole SessionRole (client_party S\<lparr>party_link := l',
      party_queue := client_outbound c', applied_messages := delivered_to_client S @ accepted_messages a,
      sent_events := client_sent S @ events (reply_messages env a)\<rparr>) (session_party S)" by simp
  then show ?thesis by (rule system_inv_client [OF inv c'])
qed

lemma system_inv_client_lease:
  assumes ok: "env_ok env schema" and inv: "system_inv env schema S"
    and h: "client_next_session_frame env (sys_client S) = (Inr (Some bs), c')"
  shows "system_inv env schema (S\<lparr>sys_client := c', to_session := insert bs (to_session S)\<rparr>)"
proof (cases "leased_session_frame (sys_client S)")
  case (Some lease)
  then have "c' = sys_client S" "bs \<in> to_session S"
    using h inv by (auto simp: client_next_session_frame_def system_inv_def split: if_splits prod.splits)
  then show ?thesis using inv
    by (simp add: system_inv_def client_party_def session_party_def insert_absorb)
next
  case None
  obtain l where l: "client_link (sys_client S) = Some l" using inv by (auto simp: system_inv_def)
  obtain action where n: "next_outbound_frame env schema l (client_outbound (sys_client S)) = Inr (Some (bs, action))"
    and c': "c' = sys_client S\<lparr>leased_session_frame := Some (bs, action)\<rparr>"
    using h None l inv by (auto simp: client_next_session_frame_def system_inv_def
        split: if_splits sum.splits option.splits)
  have "duplex (decode_wire env) schema ClientRole SessionRole
      (client_party S\<lparr>handed_out := insert bs (handed_out (client_party S))\<rparr>) (session_party S)"
    using duplex_send [OF _ _ system_inv_duplex(1) [OF inv], of env bs action] ok n l by (simp add: env_ok_def)
  then show ?thesis using inv c' by (auto simp: system_inv_def client_party_def session_party_def)
qed

lemma mark_sent_contents: "mark_sent n g q = (b, q') \<Longrightarrow> queue_contents q' = queue_contents q"
proof -
  have "mark_first n g xs = Some ys \<Longrightarrow>
      map (\<lambda>x. (queued_sequence x, queued_message_of x)) ys = map (\<lambda>x. (queued_sequence x, queued_message_of x)) xs" for xs ys
    by (induction xs arbitrary: ys) (auto split: if_splits option.splits)
  then show "mark_sent n g q = (b, q') \<Longrightarrow> queue_contents q' = queue_contents q"
    by (auto simp: mark_sent_def queue_contents_def split: option.splits)
qed

lemma acknowledged_lease_sequences:
  "same_sequences l (acknowledge_piggybacked_receive n l)" "same_sequences l (acknowledge_sent_control x l)"
  by (auto simp: acknowledge_piggybacked_receive_def acknowledge_sent_control_def same_sequences_def
      same_identity_def split: sent_control.split)

lemma system_inv_client_confirm:
  assumes inv: "system_inv env schema S"
    and h: "client_acknowledge_session_frame (sys_client S) = (b, c')"
  shows "system_inv env schema (S\<lparr>sys_client := c'\<rparr>)"
proof -
  obtain l where l: "client_link (sys_client S) = Some l" using inv by (auto simp: system_inv_def)
  obtain l' where c': "client_link c' = Some l'" "same_sequences l l'"
    "queue_contents (client_outbound c') = queue_contents (client_outbound (sys_client S))"
    "client_wire_schema c' = client_wire_schema (sys_client S)"
    "client_connected c' = client_connected (sys_client S)"
    "set_option (leased_session_frame c') \<subseteq> set_option (leased_session_frame (sys_client S))"
    using h l by (auto simp: client_acknowledge_session_frame_def acknowledged_lease_sequences
        split: option.splits lease_action.splits prod.splits bool.splits dest: mark_sent_contents)
  from duplex_same_sequences [OF system_inv_duplex(1) [OF inv], of l' "client_outbound c'"] l c'
  show ?thesis using inv by (auto simp: system_inv_def client_party_def session_party_def)
qed

lemma system_inv_client_stale:
  assumes ok: "env_ok env schema" and inv: "system_inv env schema S"
    and o: "client_owned_effects (sys_client S) = []"
    and p: "fst (prepare (client_endpoint (sys_client S))) = Inr p"
    and h: "client_mark_stale env cancel prepare (sys_client S) = (Inr t, c')"
  shows "system_inv env schema (S\<lparr>sys_client := c',
          client_sent := client_sent S @ events (prepared_messages env p)\<rparr>)"
proof -
  obtain l where l: "client_link (sys_client S) = Some l" using inv by (auto simp: system_inv_def)
  obtain ep where ep: "prepare (client_endpoint (sys_client S)) = (Inr p, ep)"
    using p by (cases "prepare (client_endpoint (sys_client S))") auto
  obtain t' c1 where "client_route_prepared_with_transport env p (Some l) (outbound_clear (client_outbound (sys_client S)))
      (sys_client S\<lparr>client_endpoint := ep\<rparr>) = (Inr t', c1)"
    and c': "c' = c1\<lparr>client_connected := False, leased_session_frame := None\<rparr>"
    using h o ep l by (auto simp: client_mark_stale_def split: prod.splits sum.splits)
  from client_route_Inr [OF this(1)] obtain l' where c1: "client_kept (sys_client S) c1" "client_link c1 = Some l'"
    and us: "\<forall>m \<in> set (prepared_messages env p). message_producer m = ClientRole \<and> message_consumer m = SessionRole"
    and push: "pushed (encode_wire env) schema (prepared_messages env p)
      (outbound_clear (client_outbound (sys_client S))) l (client_outbound c1) l'"
    using inv by (auto simp: client_kept_def system_inv_def)
  from duplex_push [OF duplex_clear [OF system_inv_duplex(1) [OF inv]] env_ok_routed [OF ok us],
      of "encode_wire env" "client_outbound c1" l'] push l
  have "duplex (decode_wire env) schema ClientRole SessionRole
      (client_party S\<lparr>party_queue := client_outbound c1, party_live := False, party_link := l',
         sent_events := client_sent S @ events (prepared_messages env p)\<rparr>) (session_party S)"
    by (simp add: client_party_def)
  then show ?thesis using inv c1 c'
    by (simp add: system_inv_def client_kept_def client_party_def session_party_def)
qed

subsection \<open>Session steps\<close>

lemma system_inv_session_same:
  assumes "system_inv env schema S" "session_wire_schema s' = session_wire_schema (sys_session S)"
    and "set (inbound_client_frames s') \<subseteq> to_session S"
    and "leased_client_frame s' = leased_client_frame (sys_session S)"
    and "session_link_of s' = session_link_of (sys_session S)"
    and "outbound_client s' = outbound_client (sys_session S)"
  shows "system_inv env schema (S\<lparr>sys_session := s'\<rparr>)"
  using assms by (simp add: system_inv_def client_party_def session_party_def)

text \<open>An update of the session that routes the prepared update \<open>p\<close> on its own link and queue, possibly
  dropping the lease and inbound frames.\<close>

lemma system_inv_session_route:
  assumes ok: "env_ok env schema" and inv: "system_inv env schema S"
    and s1: "session_wire_schema s1 = schema"
    and r: "session_route_prepared_with_transport env p conn (session_link_of (sys_session S))
      (outbound_client (sys_session S)) server s1 = (Inr t, s2)"
    and s': "session_wire_schema s' = session_wire_schema s2" "session_link_of s' = session_link_of s2"
      "outbound_client s' = outbound_client s2"
      "set (inbound_client_frames s') \<subseteq> set (inbound_client_frames (sys_session S))"
      "set_option (leased_client_frame s') \<subseteq> set_option (leased_client_frame (sys_session S))"
  shows "system_inv env schema (S\<lparr>sys_session := s',
          session_sent := session_sent S @ events (client_messages_of (prepared_messages env p))\<rparr>)"
proof -
  from session_route_Inr [OF r] have k: "session_kept s1 s2"
    and us: "\<forall>m \<in> set (client_messages_of (prepared_messages env p)).
      message_producer m = SessionRole \<and> message_consumer m = ClientRole"
    and push: "pushed (encode_wire env) schema (client_messages_of (prepared_messages env p))
      (outbound_client (sys_session S)) (session_link_of (sys_session S)) (outbound_client s2) (session_link_of s2)"
    using s1 by auto
  from duplex_push [OF system_inv_duplex(2) [OF inv] env_ok_routed_client [OF ok us],
      of "encode_wire env" "outbound_client s2" "session_link_of s2"] push
  have "duplex (decode_wire env) schema SessionRole ClientRole (session_party S\<lparr>party_link := session_link_of s2,
      party_queue := outbound_client s2,
      sent_events := session_sent S @ events (client_messages_of (prepared_messages env p))\<rparr>) (client_party S)"
    by simp
  from duplex_sym [OF this] show ?thesis using inv k s1 s'
    by (auto simp: system_inv_def session_kept_def client_party_def session_party_def)
qed

lemma system_inv_session_publish:
  assumes ok: "env_ok env schema" and inv: "system_inv env schema S"
    and p: "fst (prepare (session_endpoint (sys_session S))) = Inr p"
    and h: "session_publish env prepare (sys_session S) = (Inr t, s')
      \<or> session_mark_current env prepare (sys_session S) = (Inr t, s')"
  shows "system_inv env schema (S\<lparr>sys_session := s',
          session_sent := session_sent S @ events (client_messages_of (prepared_messages env p))\<rparr>)"
proof -
  obtain ep where ep: "prepare (session_endpoint (sys_session S)) = (Inr p, ep)"
    using p by (cases "prepare (session_endpoint (sys_session S))") auto
  obtain conn where r: "session_route_prepared_with_transport env p conn (session_link_of (sys_session S))
      (outbound_client (sys_session S)) (outbound_server (sys_session S)) (sys_session S\<lparr>session_endpoint := ep\<rparr>) = (Inr t, s')"
    using h ep by (auto simp: session_publish_def session_mark_current_def session_route_prepared_def)
  have "session_kept (sys_session S) s'" using session_route_Inr [OF r] by (simp add: session_kept_def)
  then show ?thesis using inv
    by (intro system_inv_session_route [OF ok inv _ r]) (simp_all add: system_inv_def session_kept_def)
qed

lemma system_inv_session_stale:
  assumes ok: "env_ok env schema" and inv: "system_inv env schema S"
    and p: "fst (prepare (session_endpoint (sys_session S))) = Inr p"
    and h: "session_mark_stale env prepare (sys_session S) = (Inr t, s')"
  shows "system_inv env schema (S\<lparr>sys_session := s',
          session_sent := session_sent S @ events (client_messages_of (prepared_messages env p))\<rparr>)"
proof -
  obtain ep where ep: "prepare (session_endpoint (sys_session S)) = (Inr p, ep)"
    using p by (cases "prepare (session_endpoint (sys_session S))") auto
  obtain server s2 where r: "session_route_prepared_with_transport env p False (session_link_of (sys_session S))
      (outbound_client (sys_session S)) server (sys_session S\<lparr>session_endpoint := ep\<rparr>) = (Inr t, s2)"
    and s': "s' = s2\<lparr>inbound_client_frames := [], inbound_client_bytes := 0, leased_client_frame := None\<rparr>"
    using h ep by (auto simp: session_mark_stale_def split: prod.splits sum.splits)
  show ?thesis using inv
    by (intro system_inv_session_route [OF ok inv _ r]) (simp_all add: system_inv_def s')
qed

lemma session_publish_Inl:
  assumes "session_publish env prepare s = (Inl e, s')"
  shows "session_kept s s' \<and> session_link_of s' = session_link_of s \<and> outbound_client s' = outbound_client s"
  using assms by (auto simp: session_publish_def session_route_prepared_def session_kept_def
      split: prod.splits sum.splits dest!: session_route_Inl)

lemma system_inv_session_poll:
  assumes ok: "env_ok env schema" and inv: "system_inv env schema S"
    and front: "inbound_client_frames (sys_session S) = bs # rest"
    and h: "poll_client_frame env (sys_session S) = (Inr t, s')"
    and a: "a = session_accepts env bs (sys_session S)"
  shows "system_inv env schema (S\<lparr>sys_session := s',
          delivered_to_session := delivered_to_session S @ accepted_messages a,
          session_sent := session_sent S @ events (session_replies env a)\<rparr>)"
proof -
  obtain t' s1 where s1: "session_accept_client_frame env bs (sys_session S) = (Inr t', s1)"
    and s': "s' = s1\<lparr>inbound_client_frames := rest,
      inbound_client_bytes := inbound_client_bytes (sys_session S) - length bs\<rparr>"
    using h front by (auto simp: poll_client_frame_def split: if_splits prod.splits sum.splits)
  have sch: "session_wire_schema (sys_session S) = schema" and bs: "bs \<in> to_session S"
    using inv front by (auto simp: system_inv_def)
  from session_accept_Inr [OF s1] have k: "session_kept (sys_session S) s1"
    and rec: "received env schema ClientRole SessionRole bs (session_link_of (sys_session S))
      (outbound_client (sys_session S)) (session_link_of s1) (outbound_client s1)
      (accepted_messages a) (session_replies env a)"
    and us: "\<forall>m \<in> set (session_replies env a). message_producer m = SessionRole \<and> message_consumer m = ClientRole"
    using sch a by auto
  have "\<forall>m \<in> set (session_replies env a). routed SessionRole ClientRole m"
    using us ok by (auto simp: session_replies_def reply_messages_def client_messages_of_def env_ok_def routed_def
        split: option.splits)
  from duplex_receive [OF system_inv_duplex(2) [OF inv], of bs "session_link_of s1" "outbound_client s1", OF _ _ this] bs rec
  have "duplex (decode_wire env) schema SessionRole ClientRole (session_party S\<lparr>party_link := session_link_of s',
      party_queue := outbound_client s', applied_messages := delivered_to_session S @ accepted_messages a,
      sent_events := session_sent S @ events (session_replies env a)\<rparr>) (client_party S)" by (simp add: s')
  then show ?thesis using front k by (intro system_inv_session [OF inv]) (auto simp: s' session_kept_def)
qed

lemma session_poll_Inl:
  assumes "poll_client_frame env s = (Inl e, s')"
  shows "session_kept s s' \<and> session_link_of s' = session_link_of s \<and> outbound_client s' = outbound_client s"
  using assms by (auto simp: poll_client_frame_def session_kept_def
      split: list.splits if_splits prod.splits sum.splits dest!: session_accept_Inl)

lemma system_inv_session_lease:
  assumes ok: "env_ok env schema" and inv: "system_inv env schema S"
    and h: "next_client_frame env (sys_session S) = (Inr (Some bs), s')"
  shows "system_inv env schema (S\<lparr>sys_session := s', to_client := insert bs (to_client S)\<rparr>)"
proof (cases "leased_client_frame (sys_session S)")
  case (Some lease)
  then have "s' = sys_session S" "bs \<in> to_client S"
    using h inv by (auto simp: next_client_frame_def system_inv_def split: prod.splits)
  then show ?thesis using inv
    by (simp add: system_inv_def client_party_def session_party_def insert_absorb)
next
  case None
  obtain action where n: "next_outbound_frame env schema (session_link_of (sys_session S))
      (outbound_client (sys_session S)) = Inr (Some (bs, action))"
    and s': "s' = sys_session S\<lparr>leased_client_frame := Some (bs, action)\<rparr>"
    using h None inv by (auto simp: next_client_frame_def system_inv_def split: sum.splits option.splits)
  have "duplex (decode_wire env) schema SessionRole ClientRole
      (session_party S\<lparr>handed_out := insert bs (handed_out (session_party S))\<rparr>) (client_party S)"
    using duplex_send [OF _ _ system_inv_duplex(2) [OF inv], of env bs action] ok n by (simp add: env_ok_def)
  from duplex_sym [OF this] show ?thesis using inv s' by (auto simp: system_inv_def client_party_def session_party_def)
qed

lemma system_inv_session_confirm:
  assumes inv: "system_inv env schema S" and h: "acknowledge_client_frame (sys_session S) = (b, s')"
  shows "system_inv env schema (S\<lparr>sys_session := s'\<rparr>)"
proof -
  have s': "same_sequences (session_link_of (sys_session S)) (session_link_of s')"
    "queue_contents (outbound_client s') = queue_contents (outbound_client (sys_session S))"
    "session_wire_schema s' = session_wire_schema (sys_session S)"
    "inbound_client_frames s' = inbound_client_frames (sys_session S)"
    "set_option (leased_client_frame s') \<subseteq> set_option (leased_client_frame (sys_session S))"
    using h by (auto simp: acknowledge_client_frame_def acknowledged_lease_sequences
        split: option.splits lease_action.splits prod.splits bool.splits dest: mark_sent_contents)
  from duplex_same_sequences [OF system_inv_duplex(2) [OF inv], of "session_link_of s'" "outbound_client s'"] s'
  have "duplex (decode_wire env) schema SessionRole ClientRole
      (session_party S\<lparr>party_link := session_link_of s', party_queue := outbound_client s'\<rparr>) (client_party S)" by simp
  from duplex_sym [OF this] show ?thesis using inv s'
    by (auto simp: system_inv_def client_party_def session_party_def)
qed

subsection \<open>Handshakes\<close>

lemma client_bind_Inr:
  assumes h: "client_bind env prepare session_id g n c = (Inr t, c')"
    and p: "fst (prepare (client_endpoint c)) = Inr p"
  obtains l l' where "client_candidate_link session_id g n c = Inr l" "client_link c' = Some l'"
    "pushed (encode_wire env) (client_wire_schema c) (prepared_messages env p)
       (outbound_clear (client_outbound c)) l (client_outbound c') l'"
    "\<forall>m \<in> set (prepared_messages env p). message_producer m = ClientRole \<and> message_consumer m = SessionRole"
    "client_wire_schema c' = client_wire_schema c" "client_connected c'" "leased_session_frame c' = None"
proof -
  obtain ep where ep: "prepare (client_endpoint c) = (Inr p, ep)" using p by (cases "prepare (client_endpoint c)") auto
  obtain l where l: "client_candidate_link session_id g n c = Inr l"
    using h by (cases "client_candidate_link session_id g n c") (auto simp: client_bind_def split: if_splits)
  obtain c1 where r: "client_route_prepared_with_transport env p (Some l) (outbound_clear (client_outbound c))
      (c\<lparr>client_endpoint := ep\<rparr>) = (Inr t, c1)"
    and c': "c' = c1\<lparr>client_connected := True, leased_session_frame := None\<rparr>"
    using h ep l by (auto simp: client_bind_def split: if_splits prod.splits sum.splits)
  from client_route_Inr [OF r] show thesis using that [OF l] c' by (auto simp: client_kept_def)
qed

lemma system_inv_start:
  assumes ok: "env_ok env schema" and c: "client_link c = None" "client_wire_schema c = schema"
    and s: "session_link_of s = link_new (client_graph_hash c) (client_wire_schema_hash c)
          (client_graph_revision c) session_id generation"
      "session_wire_schema s = schema" "outbound_messages (outbound_client s) = []"
      "inbound_client_frames s = []" "leased_client_frame s = None"
    and p: "fst (prepare (client_endpoint c)) = Inr p"
    and h: "client_bind env prepare session_id generation 0 c = (Inr t, c')"
  shows "system_inv env schema \<lparr>sys_client = c', sys_session = s, to_session = {}, to_client = {},
          delivered_to_session = [], delivered_to_client = [],
          client_sent = events (prepared_messages env p), session_sent = []\<rparr>"
proof -
  obtain l l' where l: "client_candidate_link session_id generation 0 c = Inr l" "client_link c' = Some l'"
    and push: "pushed (encode_wire env) (client_wire_schema c) (prepared_messages env p)
       (outbound_clear (client_outbound c)) l (client_outbound c') l'"
    and us: "\<forall>m \<in> set (prepared_messages env p). message_producer m = ClientRole \<and> message_consumer m = SessionRole"
    and c': "client_wire_schema c' = client_wire_schema c" "client_connected c'" "leased_session_frame c' = None"
    by (rule client_bind_Inr [OF h p])
  have l0: "l = session_link_of s"
    using l(1) c(1) s(1) by (auto simp: client_candidate_link_def rebase_send_after_handshake_def link_new_def
        checked_add_def Let_def)
  let ?a = "\<lparr>party_link = l, party_queue = outbound_clear (client_outbound c), party_live = True, handed_out = {},
      applied_messages = [], sent_events = []\<rparr>"
  let ?b = "\<lparr>party_link = session_link_of s, party_queue = outbound_client s, party_live = True, handed_out = {},
      applied_messages = [], sent_events = []\<rparr>"
  have "channel_inv dec schema P C True (session_link_of s) q (session_link_of s) {} [] []"
    if "outbound_messages q = []" for dec P C q
    unfolding channel_inv_def
    by (rule exI [of _ "[]"], rule exI [of _ 0]) (simp add: channel_def queue_ok_def that s(1) link_new_def)
  then have "duplex (decode_wire env) schema ClientRole SessionRole ?a ?b"
    using s(3) by (simp add: duplex_def flows_def l0 known_frames_def same_identity_def outbound_clear_def)
  from duplex_push [OF this env_ok_routed [OF ok us], of "encode_wire env" "client_outbound c'" l'] push l c(2)
  show ?thesis using c' c(2) s by (simp add: system_inv_def client_party_def session_party_def)
qed

lemma system_inv_reconnect:
  assumes ok: "env_ok env schema" and inv: "system_inv env schema S"
    and l: "client_link (sys_client S) = Some l"
    and ps: "fst (prepare_session (session_endpoint (sys_session S))) = Inr ps"
    and hs: "session_rebind_client env prepare_session g (applied_receive_through l) (sys_session S) = (Inr ts, s')"
    and pc: "fst (prepare_client (client_endpoint (sys_client S))) = Inr pc"
    and hc: "client_bind env prepare_client (link_session_id (session_link_of (sys_session S))) g
          (applied_receive_through (session_link_of (sys_session S))) (sys_client S) = (Inr tc, c')"
  shows "system_inv env schema (S\<lparr>sys_client := c', sys_session := s',
          client_sent := events (delivered_to_session S) @ events (prepared_messages env pc),
          session_sent := events (delivered_to_client S) @ events (client_messages_of (prepared_messages env ps))\<rparr>)"
proof -
  let ?ls = "session_link_of (sys_session S)"
  let ?us = "prepared_messages env pc" and ?vs = "client_messages_of (prepared_messages env ps)"
  have sch: "session_wire_schema (sys_session S) = schema" "client_wire_schema (sys_client S) = schema"
    and dup: "duplex (decode_wire env) schema ClientRole SessionRole (client_party S) (session_party S)"
    using inv by (auto simp: system_inv_def)
  have id: "link_session_id l = link_session_id ?ls" using dup l by (simp add: duplex_def same_identity_def)
  obtain ep where ep: "prepare_session (session_endpoint (sys_session S)) = (Inr ps, ep)"
    using ps by (cases "prepare_session (session_endpoint (sys_session S))") auto
  obtain ls where ls: "link_rebind g (applied_receive_through l) ?ls = Inr ls"
    using hs by (cases "link_rebind g (applied_receive_through l) ?ls") (auto simp: session_rebind_client_def split: if_splits)
  have "session_route_prepared_with_transport env ps True ls (outbound_clear (outbound_client (sys_session S)))
      (outbound_server (sys_session S)) (sys_session S\<lparr>session_endpoint := ep, inbound_client_frames := [],
        inbound_client_bytes := 0, leased_client_frame := None\<rparr>) = (Inr ts, s')"
    using hs ep ls by (auto simp: session_rebind_client_def split: if_splits)
  from session_route_Inr [OF this] have s': "session_wire_schema s' = schema" "inbound_client_frames s' = []"
      "leased_client_frame s' = None"
    and vs: "\<forall>m \<in> set ?vs. message_producer m = SessionRole \<and> message_consumer m = ClientRole"
    and pushs: "pushed (encode_wire env) schema ?vs (outbound_clear (outbound_client (sys_session S))) ls
      (outbound_client s') (session_link_of s')"
    using sch by (auto simp: session_kept_def)
  obtain lc l' where lc: "client_candidate_link (link_session_id ?ls) g (applied_receive_through ?ls) (sys_client S) = Inr lc"
    and c': "client_link c' = Some l'"
    and pushc: "pushed (encode_wire env) (client_wire_schema (sys_client S)) ?us
       (outbound_clear (client_outbound (sys_client S))) lc (client_outbound c') l'"
    and us: "\<forall>m \<in> set ?us. message_producer m = ClientRole \<and> message_consumer m = SessionRole"
    and c'': "client_wire_schema c' = client_wire_schema (sys_client S)" "client_connected c'"
      "leased_session_frame c' = None"
    by (rule client_bind_Inr [OF hc pc])
  have "link_rebind g (applied_receive_through ?ls) l = Inr lc"
    using lc l id by (simp add: client_candidate_link_def)
  from duplex_rebind [OF dup, of g lc ls "client_outbound (sys_client S)" "outbound_client (sys_session S)"] this ls l
  have "duplex (decode_wire env) schema ClientRole SessionRole
      (client_party S\<lparr>party_link := lc, party_queue := outbound_clear (client_outbound (sys_client S)),
         party_live := True, sent_events := events (delivered_to_session S)\<rparr>)
      (session_party S\<lparr>party_link := ls, party_queue := outbound_clear (outbound_client (sys_session S)),
         party_live := True, sent_events := events (delivered_to_client S)\<rparr>)" by simp
  from duplex_sym [OF duplex_push [OF this env_ok_routed [OF ok us], of "encode_wire env" "client_outbound c'" l']]
    pushc sch
  have "duplex (decode_wire env) schema SessionRole ClientRole
      (session_party S\<lparr>party_link := ls, party_queue := outbound_clear (outbound_client (sys_session S)),
         party_live := True, sent_events := events (delivered_to_client S)\<rparr>)
      (client_party S\<lparr>party_link := l', party_queue := client_outbound c',
         party_live := True, sent_events := events (delivered_to_session S) @ events ?us\<rparr>)"
    by (simp add: client_party_def)
  from duplex_sym [OF duplex_push [OF this env_ok_routed_client [OF ok vs], of "encode_wire env" "outbound_client s'" "session_link_of s'"]]
    pushs
  show ?thesis using c' c'' s' sch by (simp add: system_inv_def client_party_def session_party_def)
qed

lemma session_run_inv:
  assumes ok: "env_ok env schema" and "session_run env schema S"
  shows "system_inv env schema S"
  using assms(2)
proof (induction rule: session_run.induct)
  case (start c s session_id generation prepare p t c')
  then show ?case by (intro system_inv_start [OF ok])
next
  case (client_publishes S prepare p t c')
  then show ?case by (intro system_inv_client_publish [OF ok])
next
  case (client_publish_fails S prepare e c')
  then show ?case using client_publish_Inl system_inv_client_same by blast
next
  case (client_receives S bs r c' a)
  then show ?case by (intro system_inv_client_receive [OF ok])
next
  case (client_leases S bs c')
  then show ?case by (intro system_inv_client_lease [OF ok])
next
  case (client_confirms S b c')
  then show ?case by (intro system_inv_client_confirm)
next
  case (client_disconnects S prepare p cancel t c')
  then show ?case by (intro system_inv_client_stale [OF ok])
next
  case (client_effects S owned)
  then show ?case by (intro system_inv_client_same) (simp_all add: client_kept_def)
next
  case (session_publishes S prepare p t s')
  then show ?case by (intro system_inv_session_publish [OF ok]) auto
next
  case (session_publish_fails S prepare e s')
  then show ?case using session_publish_Inl [of env prepare "sys_session S" e s']
    by (intro system_inv_session_same) (auto simp: session_kept_def system_inv_def)
next
  case (session_connects S prepare p t s')
  then show ?case by (intro system_inv_session_publish [OF ok]) auto
next
  case (session_disconnects S prepare p t s')
  then show ?case by (intro system_inv_session_stale [OF ok])
next
  case (session_admits S bs r s')
  then show ?case
    by (intro system_inv_session_same) (auto simp: admit_client_frame_def system_inv_def split: if_splits option.splits)
next
  case (session_polls S bs rest t s' a)
  then show ?case by (intro system_inv_session_poll [OF ok])
next
  case (session_poll_fails S e s')
  then show ?case using session_poll_Inl [of env "sys_session S" e s']
    by (intro system_inv_session_same) (auto simp: session_kept_def system_inv_def)
next
  case (session_leases S bs s')
  then show ?case by (intro system_inv_session_lease [OF ok])
next
  case (session_confirms S b s')
  then show ?case by (intro system_inv_session_confirm)
next
  case (session_serves S r s')
  then show ?case by (intro system_inv_session_same)
      (auto simp: acknowledge_server_message_def system_inv_def split: prod.splits sum.splits)
next
  case (session_effects S owned)
  then show ?case by (intro system_inv_session_same) (auto simp: system_inv_def)
next
  case (reconnects S l prepare_session ps generation ts s' prepare_client pc tc c')
  then show ?case by (intro system_inv_reconnect [OF ok])
qed

section \<open>Delivery\<close>

definition unapplied :: "outbound_queue \<Rightarrow> session_link \<Rightarrow> distributed_message list" where
  "unapplied q l = map queued_message_of
     (filter (\<lambda>x. applied_receive_through l < queued_sequence x) (outbound_messages q))"

lemma queue_ok_filter:
  "queue_ok n xs slots k \<Longrightarrow> filter (\<lambda>x. a < queued_sequence x) xs = dropWhile (\<lambda>x. queued_sequence x \<le> a) xs"
proof (induction xs arbitrary: k)
  case (Cons x xs)
  have x: "unat (queued_sequence x) = Suc k" "queue_ok n xs slots (Suc k)"
    using queue_ok_Cons [OF Cons.prems] by simp_all
  show ?case
  proof (cases "queued_sequence x \<le> a")
    case True
    then show ?thesis using Cons.IH [OF x(2)] by simp
  next
    case False
    have s: "map (unat \<circ> queued_sequence) xs = [Suc k + 1..<n]" using x(2) by (simp add: queue_ok_def del: upt_Suc)
    have "a < queued_sequence y" if "y \<in> set xs" for y
    proof -
      have "unat (queued_sequence y) \<in> set [Suc k + 1..<n]" using that unfolding s [symmetric] by simp
      then show ?thesis using False x(1) by (simp add: word_less_nat_alt word_le_nat_alt)
    qed
    then show ?thesis using False by simp
  qed
qed simp

lemma flows_delivery:
  assumes "flows dec schema P C a b"
  shows "length (applied_messages b) = unat (applied_receive_through (party_link b))
    \<and> prefix (events (applied_messages b)) (sent_events a)
    \<and> (party_live a \<longrightarrow>
         events (applied_messages b) @ events (unapplied (party_queue a) (party_link b)) = sent_events a)"
proof -
  obtain slots k where ch: "channel dec schema P C (party_live a) (party_link a) (party_queue a)
      (party_link b) (handed_out a) (applied_messages b) (sent_events a) slots k"
    using assms by (auto simp: flows_def channel_inv_def)
  let ?n = "applied_receive_through (party_link b)"
  have sent: "sent_events a = events (take (unat ?n) slots) @ events (drop (unat ?n) slots)"
    using ch by (simp add: channel_def flip: events_simps(3))
  have d: "events (applied_messages b) = events (take (unat ?n) slots)"
    using ch by (simp add: channel_def same_slot_events)
  have q: "queue_ok (unat (next_send_operation_sequence (party_link a))) (outbound_messages (party_queue a)) slots k"
    and n: "unat ?n \<le> length slots" using ch by (auto simp: channel_def)
  have "events (unapplied (party_queue a) (party_link b)) = events (drop (unat ?n) slots)" if "party_live a"
  proof -
    have "max k (unat ?n) = unat ?n" using ch that by (simp add: channel_def)
    then show ?thesis using queue_ok_acknowledge [OF q n] queue_ok_filter [OF q, of ?n]
      by (simp add: unapplied_def acknowledge_through_def queue_ok_def same_slot_events)
  qed
  then show ?thesis using sent d flows_delivered [OF assms] by simp
qed


definition example_env :: "(unit, bool) transport_env" where
  "example_env = \<lparr>encode_wire = example_encode, decode_wire = example_decode, fingerprint_of = (\<lambda>_. Inr []),
     prepare_accept = (\<lambda>_ _ e. (Inr False, e)),
     prepared_messages = (\<lambda>p. if p then [example_event] else []), prepared_effects = (\<lambda>_. []),
     commit_prepared = (\<lambda>_ e. e), rollback_prepared = (\<lambda>_ e. (Inr (), e))\<rparr>"

definition example_client :: "session_link option \<Rightarrow> queued_message list \<Rightarrow> bool
    \<Rightarrow> (bytes \<times> lease_action) option \<Rightarrow> unit client_runtime" where
  "example_client l q conn lease = \<lparr>client_endpoint = (), client_graph_hash = [1], client_graph_revision = 1,
     client_wire_schema = example_schema, client_wire_schema_hash = [2], client_link = l,
     client_connected = conn, client_outbound = \<lparr>outbound_messages = q, outbound_limits = example_limits\<rparr>,
     leased_session_frame = lease, client_owned_effects = []\<rparr>"

definition example_session :: "session_link \<Rightarrow> bytes list \<Rightarrow> unit session_runtime" where
  "example_session l inbound = \<lparr>session_endpoint = (), session_wire_schema = example_schema,
     session_link_of = l, session_connected = True, inbound_client_frames = inbound,
     inbound_client_bytes = length inbound, inbound_limits = example_limits,
     outbound_client = \<lparr>outbound_messages = [], outbound_limits = example_limits\<rparr>,
     leased_client_frame = None,
     outbound_server = \<lparr>queue_messages = [], queue_estimated_bytes = 0, queue_limits_of = example_limits\<rparr>,
     session_owned_effects = []\<rparr>"

definition example_queue :: "queued_message list" where
  "example_queue = [\<lparr>queued_sequence = 1, queued_message_of = example_event, sent_generation = None\<rparr>]"

definition example_link2 :: session_link where
  "example_link2 = example_link\<lparr>next_send_operation_sequence := 2\<rparr>"

lemmas example_defs = example_env_def example_client_def example_session_def example_queue_def
  example_link2_def

lemma encode_example:
  "applied_receive_through l = 0 \<Longrightarrow> same_identity l example_link
     \<Longrightarrow> encode_message example_encode l example_schema 1 example_event = Inr [1]"
  using example_encodes by (simp add: encode_message_def encode_data_def data_frame_of_def same_identity_def
      example_link_def link_new_def)

lemma example_push:
  "outbound_push example_encode example_schema [example_event]
     \<lparr>outbound_messages = [], outbound_limits = example_limits\<rparr> example_link
   = Inr (\<lparr>outbound_messages = example_queue, outbound_limits = example_limits\<rparr>, example_link2)"
proof -
  have "allocate_operation_sequence example_link = (Inr 1, example_link2)"
    by (simp add: allocate_operation_sequence_def example_link_def example_link2_def link_new_def checked_add_def)
  moreover have "encode_message example_encode example_link2 example_schema 1 example_event = Inr [1]"
    by (rule encode_example) (simp_all add: example_link2_def same_identity_def example_link_def link_new_def)
  ultimately show ?thesis
    by (simp add: outbound_push_def example_queue_def example_limits_def usize_add_def)
qed

lemma example_bind:
  "client_bind example_env (\<lambda>e. (Inr True, e)) [3] 1 0 (example_client None [] False None)
     = (Inr [], example_client (Some example_link2) example_queue True None)"
proof -
  have "client_candidate_link [3] 1 0 (example_client None [] False None) = Inr example_link"
    by (simp add: client_candidate_link_def rebase_send_after_handshake_def checked_add_def example_client_def
        example_link_def link_new_def)
  then show ?thesis using example_push
    by (simp add: client_bind_def client_route_prepared_with_transport_def client_stage_def
        outbound_clear_def example_client_def example_env_def record_transient_effects_def)
      (simp add: example_event_def)
qed

lemma example_lease:
  "client_next_session_frame example_env (example_client (Some example_link2) example_queue True None)
     = (Inr (Some [1]), example_client (Some example_link2) example_queue True (Some ([1], LeasedData 1 1 0)))"
proof -
  have "encode_message example_encode example_link2 example_schema 1 example_event = Inr [1]"
    by (rule encode_example) (simp_all add: example_link2_def same_identity_def example_link_def link_new_def)
  then show ?thesis
    by (simp add: client_next_session_frame_def next_outbound_frame_def encode_next_def has_resync_pending_def
        example_client_def example_queue_def example_env_def)
      (simp add: example_link2_def example_link_def link_new_def)
qed

lemma example_admit:
  "admit_client_frame [1] (example_session example_link []) = (Inr (), example_session example_link [[1]])"
  by (simp add: admit_client_frame_def example_session_def MAX_FRAME_BYTES_def example_limits_def usize_add_def)

lemma example_decodes:
  "decode_frame example_decode example_link example_schema ClientRole SessionRole [1]
     = Inr (DecodedData 1 0 example_event)"
  by (simp add: decode_frame_def decode_identity_def example_decode_def example_event_frame_def
      message_request_def example_event_def example_schema_def validate_adjacent_roles_def
      require_event_edge_def data_frame_of_def validate_private_identity_def classify_data_def
      example_link_def link_new_def edge_bytes_def Let_def)

lemma example_accepts:
  "\<exists>l. session_accept_client_frame example_env [1] (example_session example_link [[1]])
     = (Inr [], example_session l [[1]]) \<and> applied_receive_through l = 1"
proof -
  obtain l where l: "accept_receive 1 [] example_link = (Inr (), l)" "applied_receive_through l = 1"
    by (simp add: accept_receive_def classify_receive_def example_link_def link_new_def saturating_add_def Let_def)
  have "accept_peer_ack 0 example_link = (Inr 0, example_link)"
    by (simp add: accept_peer_ack_def example_link_def link_new_def)
  moreover have "classify_receive 1 [] example_link = Inr NextOperation"
    by (simp add: classify_receive_def example_link_def link_new_def saturating_add_def)
  ultimately have "session_accept_client_frame example_env [1] (example_session example_link [[1]])
      = (Inr [], example_session l [[1]])"
    using l example_decodes
    by (simp add: session_accept_client_frame_def session_route_prepared_with_transport_def session_stage_def
        outbound_push_def typed_queue_push_def acknowledge_through_def example_session_def example_env_def
        record_transient_effects_def example_limits_def)
  with l show ?thesis by blast
qed


section \<open>Values overwritten after they were handed out\<close>

text \<open>A second environment: the endpoint publishes a value of one export with the given revision.\<close>

definition value_message :: "u64 \<Rightarrow> distributed_message" where
  "value_message r = \<lparr>message_producer = ClientRole, message_consumer = SessionRole,
     message_payload = Current [7] r (TextValue [104])\<rparr>"

definition value_frame :: "u64 \<Rightarrow> session_frame" where
  "value_frame r = (case message_request example_schema 1 (value_message r) of
     Inr request \<Rightarrow> DataFrame (data_frame_of example_link request) | Inl _ \<Rightarrow> AckFrame [] 0 0)"

definition value_encode :: "session_frame \<Rightarrow> frame_error + bytes" where
  "value_encode f = (if f = value_frame 1 then Inr [1] else if f = value_frame 2 then Inr [2]
     else Inl OtherFrameError)"

definition value_decode :: "bytes \<Rightarrow> frame_error + session_frame" where
  "value_decode bs = (if bs = [1] then Inr (value_frame 1) else if bs = [2] then Inr (value_frame 2)
     else Inl OtherFrameError)"

definition value_env :: "(unit, u64) transport_env" where
  "value_env = \<lparr>encode_wire = value_encode, decode_wire = value_decode, fingerprint_of = (\<lambda>_. Inr []),
     prepare_accept = (\<lambda>_ _ e. (Inr 1, e)), prepared_messages = (\<lambda>r. [value_message r]),
     prepared_effects = (\<lambda>_. []), commit_prepared = (\<lambda>_ e. e), rollback_prepared = (\<lambda>_ e. (Inr (), e))\<rparr>"

definition value_queue :: "u64 \<Rightarrow> u64 option \<Rightarrow> queued_message list" where
  "value_queue r g = [\<lparr>queued_sequence = 1, queued_message_of = value_message r, sent_generation = g\<rparr>]"

lemma value_frame: "value_frame r = DataFrame \<lparr>frame_graph_hash = [1], frame_graph_revision = 1,
    frame_schema_hash = [2], frame_session_id = [3], frame_generation = 1, frame_operation_sequence = 1,
    frame_ack_through = 0, frame_edge_id = [7], frame_operation = CurrentOperation,
    frame_call_instance_id = None, frame_semantic_revision = r, frame_result_revision = None,
    frame_payload = Some (TextValue [104])\<rparr>"
  by (simp add: value_frame_def message_request_def value_message_def Let_def validate_adjacent_roles_def
      require_value_edge_def example_schema_def edge_bytes_def data_frame_of_def example_link_def link_new_def)

lemma encode_value:
  assumes "same_identity l example_link" "applied_receive_through l = 0"
  shows "encode_message value_encode l example_schema 1 (value_message 1) = Inr [1]"
    "encode_message value_encode l example_schema 1 (value_message 2) = Inr [2]"
  using assms by (simp_all add: encode_message_def encode_data_def message_request_def value_message_def Let_def
      validate_adjacent_roles_def require_value_edge_def example_schema_def edge_bytes_def data_frame_of_def
      same_identity_def value_encode_def value_frame example_link_def link_new_def)

lemma example_link_facts:
  "same_identity example_link2 example_link" "applied_receive_through example_link2 = 0"
  "link_generation example_link2 = 1" "resync_expected_next example_link2 = None" "ack_pending example_link2 = False"
  "allocate_operation_sequence example_link = (Inr 1, example_link2)"
  by (simp_all add: example_link2_def example_link_def link_new_def same_identity_def
      allocate_operation_sequence_def checked_add_def)

lemma value_steps:
  "client_bind value_env (\<lambda>e. (Inr 1, e)) [3] 1 0 (example_client None [] False None)
     = (Inr [], example_client (Some example_link2) (value_queue 1 None) True None)"
  "client_next_session_frame value_env (example_client (Some example_link2) (value_queue 1 None) True None)
     = (Inr (Some [1]), example_client (Some example_link2) (value_queue 1 None) True (Some ([1], LeasedData 1 1 0)))"
  "client_dispatch value_env (\<lambda>e. (Inr 2, e))
       (example_client (Some example_link2) (value_queue 1 None) True (Some ([1], LeasedData 1 1 0)))
     = (Inr [], example_client (Some example_link2) (value_queue 2 None) True (Some ([1], LeasedData 1 1 0)))"
  "client_acknowledge_session_frame
       (example_client (Some example_link2) (value_queue 2 None) True (Some ([1], LeasedData 1 1 0)))
     = (True, example_client (Some example_link2) (value_queue 2 (Some 1)) True None)"
  "client_next_session_frame value_env (example_client (Some example_link2) (value_queue 2 (Some 1)) True None)
     = (Inr None, example_client (Some example_link2) (value_queue 2 (Some 1)) True None)"
proof -
  note enc = encode_value [OF example_link_facts(1,2)]
  have cand: "client_candidate_link [3] 1 0 (example_client None [] False None) = Inr example_link"
    by (simp add: client_candidate_link_def rebase_send_after_handshake_def checked_add_def example_client_def
        example_link_def link_new_def)
  have roles: "message_producer (value_message r) = ClientRole" "message_consumer (value_message r) = SessionRole"
    "replaces_pending (value_message r) (value_message r')" for r r'
    by (simp_all add: value_message_def replaces_pending_def edge_bytes_def call_instance_id_def)
  show "client_bind value_env (\<lambda>e. (Inr 1, e)) [3] 1 0 (example_client None [] False None)
     = (Inr [], example_client (Some example_link2) (value_queue 1 None) True None)"
    using cand roles enc example_link_facts(6)
    by (simp add: client_bind_def client_route_prepared_with_transport_def client_stage_def outbound_push_def
        outbound_clear_def example_client_def value_env_def record_transient_effects_def value_queue_def
        example_limits_def usize_add_def)
  show "client_next_session_frame value_env (example_client (Some example_link2) (value_queue 1 None) True None)
     = (Inr (Some [1]), example_client (Some example_link2) (value_queue 1 None) True (Some ([1], LeasedData 1 1 0)))"
    using enc example_link_facts
    by (simp add: client_next_session_frame_def next_outbound_frame_def encode_next_def has_resync_pending_def
        example_client_def value_queue_def value_env_def)
  show "client_dispatch value_env (\<lambda>e. (Inr 2, e))
       (example_client (Some example_link2) (value_queue 1 None) True (Some ([1], LeasedData 1 1 0)))
     = (Inr [], example_client (Some example_link2) (value_queue 2 None) True (Some ([1], LeasedData 1 1 0)))"
    using roles enc
    by (simp add: client_dispatch_def client_publish_def client_route_prepared_def
        client_route_prepared_with_transport_def client_stage_def outbound_push_def
        example_client_def value_env_def record_transient_effects_def value_queue_def example_limits_def usize_add_def)
  show "client_acknowledge_session_frame
       (example_client (Some example_link2) (value_queue 2 None) True (Some ([1], LeasedData 1 1 0)))
     = (True, example_client (Some example_link2) (value_queue 2 (Some 1)) True None)"
    by (simp add: client_acknowledge_session_frame_def mark_sent_def example_client_def value_queue_def
        acknowledge_piggybacked_receive_def) (simp add: example_link2_def example_link_def link_new_def)
  show "client_next_session_frame value_env (example_client (Some example_link2) (value_queue 2 (Some 1)) True None)
     = (Inr None, example_client (Some example_link2) (value_queue 2 (Some 1)) True None)"
    using example_link_facts
    by (simp add: client_next_session_frame_def next_outbound_frame_def encode_next_def has_resync_pending_def
        example_client_def value_queue_def encode_pending_control_def)
qed



end
