(* ===== verification/Effect_Stream.thy ===== *)
theory Effect_Stream
  imports Boon_Value
begin

text \<open>
  The validators of streamed effect results (\<open>crates/boon_plan_executor/src/effect_stream.rs\<close>): each
  result of a file read stream, a content import or a content save is checked against what its
  stream has announced so far. Results are machine values; the fields of a tag or record are
  looked up in their ordered map. The error details are one constructor each.
\<close>

section \<open>Machine values\<close>

record machine_row_id =
  row_list :: nat
  row_key :: u64
  row_generation :: u64

record host_value_binding =
  binding_issuer :: bytes
  binding_handle :: bytes
  binding_generation :: "32 word"

text \<open>The address of a collection authority is opaque here.\<close>

datatype 'a machine_value =
    MNumber exact_number
  | MText bytes
  | MBytes bytes
  | MList "'a machine_value list"
  | MRecord "(bytes \<times> 'a machine_value) list"
  | MTag bytes "(bytes \<times> 'a machine_value) list"
  | MMappedRow machine_row_id "(bytes \<times> 'a machine_value) list"
  | MRow machine_row_id "(nat \<times> 'a machine_value) list"
  | MHostBound "'a machine_value" host_value_binding
  | MCollectionAuthority 'a
  | MMap "('a machine_value \<times> 'a machine_value) list"
  | MSet "'a machine_value list"
  | MBits bits

type_synonym 'a machine_fields = "(bytes \<times> 'a machine_value) list"

datatype effect_stream_error =
    ChunkLimitZero
  | AfterTerminal
  | ResultSequence u64 u64
  | ResultSequenceOverflow
  | NotARecord
  | NotATag
  | FieldMissing bytes
  | FieldNotNumber bytes
  | FieldNotExactInteger bytes
  | FieldNegative bytes
  | FieldNotBytes bytes
  | UnsupportedTag bytes
  | OpenedMisplaced
  | ChunkMisplaced
  | ChunkSequence u64 u64
  | ChunkOffset u64 u64
  | ChunkLength
  | ChunkLengthExceedsU64
  | ChunkOffsetOverflow
  | ChunksExceedSize
  | ChunkSequenceOverflow
  | FinishedMisplaced
  | FinishedMismatch
  | AbortNotTerminal
  | StartedMisplaced
  | StartedMismatch
  | ProgressMisplaced
  | ProgressMismatch
  | ProgressNotMonotonic
  | ImportedMisplaced
  | ImportedMismatch
  | SavedMisplaced
  | SavedMismatch

section \<open>Fields\<close>

definition expect_result_sequence :: "u64 \<Rightarrow> u64 \<Rightarrow> effect_stream_error + unit" where
  "expect_result_sequence expected actual =
     (if actual \<noteq> expected then Inl (ResultSequence expected actual) else Inr ())"

definition next_result_sequence :: "u64 \<Rightarrow> effect_stream_error + u64" where
  "next_result_sequence current = ok_or ResultSequenceOverflow (checked_add current 1)"

definition record_fields :: "'a machine_value \<Rightarrow> effect_stream_error + 'a machine_fields" where
  "record_fields v = (case v of MRecord fs \<Rightarrow> Inr fs | _ \<Rightarrow> Inl NotARecord)"

definition tag_fields :: "'a machine_value \<Rightarrow> effect_stream_error + (bytes \<times> 'a machine_fields)" where
  "tag_fields v = (case v of MTag tag fs \<Rightarrow> Inr (tag, fs) | _ \<Rightarrow> Inl NotATag)"

definition record_field :: "'a machine_fields \<Rightarrow> string \<Rightarrow> effect_stream_error + 'a machine_fields" where
  "record_field fs name =
     (case map_of fs (utf8 name) of None \<Rightarrow> Inl (FieldMissing (utf8 name)) | Some v \<Rightarrow> record_fields v)"

definition number_field :: "'a machine_fields \<Rightarrow> string \<Rightarrow> effect_stream_error + u64" where
  "number_field fs name =
     (case map_of fs (utf8 name) of
        Some (MNumber n) \<Rightarrow>
          (case to_i64_exact n of
             Inl _ \<Rightarrow> Inl (FieldNotExactInteger (utf8 name))
           | Inr w \<Rightarrow> if sint w < 0 then Inl (FieldNegative (utf8 name)) else Inr w)
      | _ \<Rightarrow> Inl (FieldNotNumber (utf8 name)))"

definition bytes_field :: "'a machine_fields \<Rightarrow> string \<Rightarrow> effect_stream_error + bytes" where
  "bytes_field fs name =
     (case map_of fs (utf8 name) of Some (MBytes b) \<Rightarrow> Inr b | _ \<Rightarrow> Inl (FieldNotBytes (utf8 name)))"

section \<open>Byte streams\<close>

record byte_stream_validator =
  max_chunk_bytes :: nat
  expected_result_sequence :: u64
  opened_size :: "u64 option"
  next_chunk_sequence :: u64
  next_offset :: u64
  stream_terminal :: bool

definition byte_stream_new :: "nat \<Rightarrow> effect_stream_error + byte_stream_validator" where
  "byte_stream_new limit =
     (if limit = 0 then Inl ChunkLimitZero
      else Inr \<lparr>max_chunk_bytes = limit, expected_result_sequence = 0, opened_size = None,
                next_chunk_sequence = 0, next_offset = 0, stream_terminal = False\<rparr>)"

definition accept_opened ::
  "u64 \<Rightarrow> 'a machine_fields \<Rightarrow> bool \<Rightarrow> byte_stream_validator
     \<Rightarrow> (effect_stream_error + unit) \<times> byte_stream_validator" where
  "accept_opened result_sequence fs terminal v =
     (if terminal \<or> opened_size v \<noteq> None \<or> result_sequence \<noteq> 0 then (Inl OpenedMisplaced, v)
      else case number_field fs ''size'' of
        Inl e \<Rightarrow> (Inl e, v)
      | Inr n \<Rightarrow> (Inr (), v\<lparr>opened_size := Some n\<rparr>))"

text \<open>\<open>next_offset\<close> is assigned before it is compared with the size and before the chunk sequence is
  advanced, so a refused chunk may leave it changed.\<close>

definition accept_chunk ::
  "'a machine_fields \<Rightarrow> bool \<Rightarrow> byte_stream_validator
     \<Rightarrow> (effect_stream_error + unit) \<times> byte_stream_validator" where
  "accept_chunk fs terminal v =
     (case opened_size v of
        None \<Rightarrow> (Inl ChunkMisplaced, v)
      | Some declared \<Rightarrow>
          if terminal then (Inl ChunkMisplaced, v)
          else case number_field fs ''sequence'' of
            Inl e \<Rightarrow> (Inl e, v)
          | Inr sequence \<Rightarrow>
              if sequence \<noteq> next_chunk_sequence v
              then (Inl (ChunkSequence (next_chunk_sequence v) sequence), v)
              else case number_field fs ''offset'' of
                Inl e \<Rightarrow> (Inl e, v)
              | Inr offset \<Rightarrow>
                  if offset \<noteq> next_offset v then (Inl (ChunkOffset (next_offset v) offset), v)
                  else case bytes_field fs ''bytes'' of
                    Inl e \<Rightarrow> (Inl e, v)
                  | Inr bs \<Rightarrow>
                      if bs = [] \<or> max_chunk_bytes v < length bs then (Inl ChunkLength, v)
                      else if \<not> length bs < 2 ^ 64 then (Inl ChunkLengthExceedsU64, v)
                      else case checked_add (next_offset v) (of_nat (length bs)) of
                        None \<Rightarrow> (Inl ChunkOffsetOverflow, v)
                      | Some n \<Rightarrow>
                          (let v1 = v\<lparr>next_offset := n\<rparr> in
                           if declared < n then (Inl ChunksExceedSize, v1)
                           else case checked_add (next_chunk_sequence v1) 1 of
                             None \<Rightarrow> (Inl ChunkSequenceOverflow, v1)
                           | Some s \<Rightarrow> (Inr (), v1\<lparr>next_chunk_sequence := s\<rparr>)))"

definition accept_finished ::
  "'a machine_fields \<Rightarrow> bool \<Rightarrow> byte_stream_validator
     \<Rightarrow> (effect_stream_error + unit) \<times> byte_stream_validator" where
  "accept_finished fs terminal v =
     (case opened_size v of
        None \<Rightarrow> (Inl FinishedMisplaced, v)
      | Some declared \<Rightarrow>
          if \<not> terminal then (Inl FinishedMismatch, v)
          else case number_field fs ''byte_count'' of
            Inl e \<Rightarrow> (Inl e, v)
          | Inr n \<Rightarrow>
              if n \<noteq> next_offset v \<or> next_offset v \<noteq> declared then (Inl FinishedMismatch, v)
              else case bytes_field fs ''digest'' of
                Inl e \<Rightarrow> (Inl e, v)
              | Inr digest \<Rightarrow>
                  if length digest \<noteq> 32 then (Inl FinishedMismatch, v) else (Inr (), v))"

definition byte_stream_accept ::
  "u64 \<Rightarrow> 'a machine_value \<Rightarrow> bool \<Rightarrow> byte_stream_validator
     \<Rightarrow> (effect_stream_error + unit) \<times> byte_stream_validator" where
  "byte_stream_accept result_sequence outcome terminal v =
     (if stream_terminal v then (Inl AfterTerminal, v)
      else case expect_result_sequence (expected_result_sequence v) result_sequence of
        Inl e \<Rightarrow> (Inl e, v)
      | Inr _ \<Rightarrow>
          (case tag_fields outcome of
             Inl e \<Rightarrow> (Inl e, v)
           | Inr (tag, fs) \<Rightarrow>
               try_st
                 (if tag = utf8 ''Opened'' then accept_opened result_sequence fs terminal v
                  else if tag = utf8 ''Chunk'' then accept_chunk fs terminal v
                  else if tag = utf8 ''Finished'' then accept_finished fs terminal v
                  else if tag = utf8 ''Failed'' \<or> tag = utf8 ''Cancelled''
                  then if \<not> terminal then (Inl AbortNotTerminal, v) else (Inr (), v)
                  else (Inl (UnsupportedTag tag), v))
                 (\<lambda>_ v'. case next_result_sequence (expected_result_sequence v') of
                    Inl e \<Rightarrow> (Inl e, v')
                  | Inr n \<Rightarrow> (Inr (), v'\<lparr>expected_result_sequence := n, stream_terminal := terminal\<rparr>))))"

section \<open>Content progress\<close>

record content_progress_validator =
  progress_operation :: string
  progress_expected_sequence :: u64
  expected_total :: "u64 option"
  started_total :: "u64 option"
  completed_bytes :: u64
  progress_terminal :: bool

definition CONTENT_IMPORT_OPERATION :: string where
  "CONTENT_IMPORT_OPERATION = ''Content/import''"

definition CONTENT_SAVE_OPERATION :: string where
  "CONTENT_SAVE_OPERATION = ''Content/save''"

definition FILE_READ_STREAM_OPERATION :: string where
  "FILE_READ_STREAM_OPERATION = ''File/read_stream''"

definition content_progress_new :: "string \<Rightarrow> u64 option \<Rightarrow> content_progress_validator" where
  "content_progress_new operation expected =
     \<lparr>progress_operation = operation, progress_expected_sequence = 0, expected_total = expected,
      started_total = None, completed_bytes = 0, progress_terminal = False\<rparr>"

definition accept_started ::
  "u64 \<Rightarrow> 'a machine_fields \<Rightarrow> bool \<Rightarrow> content_progress_validator
     \<Rightarrow> (effect_stream_error + unit) \<times> content_progress_validator" where
  "accept_started result_sequence fs terminal v =
     (if terminal \<or> started_total v \<noteq> None \<or> result_sequence \<noteq> 0 then (Inl StartedMisplaced, v)
      else case number_field fs ''byte_count'' of
        Inl e \<Rightarrow> (Inl e, v)
      | Inr n \<Rightarrow>
          if (case expected_total v of None \<Rightarrow> False | Some expected \<Rightarrow> expected \<noteq> n)
          then (Inl StartedMismatch, v)
          else (Inr (), v\<lparr>started_total := Some n\<rparr>))"

definition accept_progress ::
  "'a machine_fields \<Rightarrow> bool \<Rightarrow> content_progress_validator
     \<Rightarrow> (effect_stream_error + unit) \<times> content_progress_validator" where
  "accept_progress fs terminal v =
     (case started_total v of
        None \<Rightarrow> (Inl ProgressMisplaced, v)
      | Some total_bytes \<Rightarrow>
          if terminal then (Inl ProgressMismatch, v)
          else case number_field fs ''total_bytes'' of
            Inl e \<Rightarrow> (Inl e, v)
          | Inr n \<Rightarrow>
              if n \<noteq> total_bytes then (Inl ProgressMismatch, v)
              else case number_field fs ''completed_bytes'' of
                Inl e \<Rightarrow> (Inl e, v)
              | Inr completed \<Rightarrow>
                  if completed < completed_bytes v \<or> total_bytes < completed
                  then (Inl ProgressNotMonotonic, v)
                  else (Inr (), v\<lparr>completed_bytes := completed\<rparr>))"

definition accept_imported ::
  "'a machine_fields \<Rightarrow> bool \<Rightarrow> content_progress_validator
     \<Rightarrow> (effect_stream_error + unit) \<times> content_progress_validator" where
  "accept_imported fs terminal v =
     (case started_total v of
        None \<Rightarrow> (Inl ImportedMisplaced, v)
      | Some total_bytes \<Rightarrow>
          (case record_field fs ''content'' of
             Inl e \<Rightarrow> (Inl e, v)
           | Inr content \<Rightarrow>
               if progress_operation v \<noteq> CONTENT_IMPORT_OPERATION \<or> \<not> terminal
               then (Inl ImportedMismatch, v)
               else case number_field content ''size'' of
                 Inl e \<Rightarrow> (Inl e, v)
               | Inr n \<Rightarrow>
                   if n \<noteq> total_bytes then (Inl ImportedMismatch, v)
                   else case bytes_field content ''digest'' of
                     Inl e \<Rightarrow> (Inl e, v)
                   | Inr digest \<Rightarrow>
                       if length digest \<noteq> 32 then (Inl ImportedMismatch, v) else (Inr (), v)))"

definition accept_saved ::
  "'a machine_fields \<Rightarrow> bool \<Rightarrow> content_progress_validator
     \<Rightarrow> (effect_stream_error + unit) \<times> content_progress_validator" where
  "accept_saved fs terminal v =
     (case started_total v of
        None \<Rightarrow> (Inl SavedMisplaced, v)
      | Some total_bytes \<Rightarrow>
          if progress_operation v \<noteq> CONTENT_SAVE_OPERATION \<or> \<not> terminal then (Inl SavedMismatch, v)
          else case number_field fs ''byte_count'' of
            Inl e \<Rightarrow> (Inl e, v)
          | Inr n \<Rightarrow> if n \<noteq> total_bytes then (Inl SavedMismatch, v) else (Inr (), v))"

definition content_progress_accept ::
  "u64 \<Rightarrow> 'a machine_value \<Rightarrow> bool \<Rightarrow> content_progress_validator
     \<Rightarrow> (effect_stream_error + unit) \<times> content_progress_validator" where
  "content_progress_accept result_sequence outcome terminal v =
     (if progress_terminal v then (Inl AfterTerminal, v)
      else case expect_result_sequence (progress_expected_sequence v) result_sequence of
        Inl e \<Rightarrow> (Inl e, v)
      | Inr _ \<Rightarrow>
          (case tag_fields outcome of
             Inl e \<Rightarrow> (Inl e, v)
           | Inr (tag, fs) \<Rightarrow>
               try_st
                 (if tag = utf8 ''Started'' then accept_started result_sequence fs terminal v
                  else if tag = utf8 ''Progress'' then accept_progress fs terminal v
                  else if tag = utf8 ''Imported'' then accept_imported fs terminal v
                  else if tag = utf8 ''Saved'' then accept_saved fs terminal v
                  else if tag = utf8 ''Busy'' \<or> tag = utf8 ''Failed'' \<or> tag = utf8 ''Cancelled''
                  then if \<not> terminal then (Inl AbortNotTerminal, v) else (Inr (), v)
                  else (Inl (UnsupportedTag tag), v))
                 (\<lambda>_ v'. case next_result_sequence (progress_expected_sequence v') of
                    Inl e \<Rightarrow> (Inl e, v')
                  | Inr n \<Rightarrow>
                      (Inr (), v'\<lparr>progress_expected_sequence := n, progress_terminal := terminal\<rparr>))))"

section \<open>The validator of an invocation\<close>

datatype semantic_validator =
    NoValidator
  | ByteStream byte_stream_validator
  | ContentProgress content_progress_validator

definition for_invocation :: "string \<Rightarrow> 'a machine_value \<Rightarrow> effect_stream_error + semantic_validator" where
  "for_invocation operation intent =
     (if operation = FILE_READ_STREAM_OPERATION
      then try_res (record_fields intent) (\<lambda>fs.
        try_res (number_field fs ''chunk_bytes'') (\<lambda>n.
          try_res (byte_stream_new (unat n)) (\<lambda>v. Inr (ByteStream v))))
      else if operation = CONTENT_IMPORT_OPERATION
      then Inr (ContentProgress (content_progress_new CONTENT_IMPORT_OPERATION None))
      else if operation = CONTENT_SAVE_OPERATION
      then try_res (record_fields intent) (\<lambda>fs.
        try_res (record_field fs ''content'') (\<lambda>content.
          try_res (number_field content ''size'') (\<lambda>n.
            Inr (ContentProgress (content_progress_new CONTENT_SAVE_OPERATION (Some n))))))
      else Inr NoValidator)"

definition validator_accept ::
  "u64 \<Rightarrow> 'a machine_value \<Rightarrow> bool \<Rightarrow> semantic_validator
     \<Rightarrow> (effect_stream_error + unit) \<times> semantic_validator" where
  "validator_accept result_sequence outcome terminal v =
     (case v of
        NoValidator \<Rightarrow> (Inr (), v)
      | ByteStream b \<Rightarrow>
          (case byte_stream_accept result_sequence outcome terminal b of (r, b') \<Rightarrow> (r, ByteStream b'))
      | ContentProgress c \<Rightarrow>
          (case content_progress_accept result_sequence outcome terminal c of
             (r, c') \<Rightarrow> (r, ContentProgress c')))"

lemma sint_nonneg_bound: "\<not> sint w < 0 \<Longrightarrow> unat w < 2 ^ 63" for w :: u64
proof -
  assume "\<not> sint w < 0"
  then have "\<not> bit w 63" using bit_last_iff [of w] by simp
  then have "bit (take_bit 63 w) n = bit w n" if "n < 64" for n
    using that by (cases "n = 63") (auto simp: bit_take_bit_iff)
  then have "take_bit 63 w = w" by (intro bit_word_eqI) simp
  then have "unat w = take_bit 63 (unat w)" by (metis unsigned_take_bit_eq)
  then show ?thesis by (metis take_bit_nat_less_exp)
qed

lemma number_field_bound: "number_field fs name = Inr n \<Longrightarrow> unat n < 2 ^ 63"
  by (auto simp: number_field_def split: option.splits machine_value.splits sum.splits if_splits
      dest!: sint_nonneg_bound)

end
