(* ===== verification/Spec2Isabelle.thy ===== *)
theory Spec2Isabelle
  imports Access_Stream Index_Integrity Session_Protocol Effect_Stream
begin

text \<open>
  A verification library for the data and access layers of the Boon system
  (\<open>src/crates/boon_data\<close> and \<open>src/crates/boon_list_access\<close>).

  \<^bold>\<open>The program.\<close> A Boon program computes with exact rational numbers, texts, bytes and fixed-width
  bit sequences (\<open>boon_data\<close>). Lists of rows are queried through ordered secondary indexes
  (\<open>boon_list_access\<close>): a key of typed components is encoded to bytes whose byte order is the
  structural order (\<open>key.rs\<close>), the index keeps one tree entry per row key and a row map beside it
  (\<open>index.rs\<close>), queries open streams over ranges of the tree, combine them by union, intersection
  and projection, and pay for what they read from a work budget (\<open>work.rs\<close>); a resumable task
  checks the integrity of a restored index in bounded steps.

  \<^bold>\<open>Theories.\<close>
  \<^item> \<open>Boon_Prelude\<close>: machine integers (\<open>u8\<close> to \<open>u128\<close> as words), \<open>Result\<close> as a sum with the \<open>?\<close>
    operator \<^const>\<open>try_res\<close> (and \<^const>\<open>try_st\<close> for operations that also change a state), three-way
    comparison, saturating and checked arithmetic, big-endian byte strings, separated byte strings.
  \<^item> \<open>Exact_Number\<close> (\<open>number.rs\<close>): construction, canonical form, budgets, arithmetic, rounding,
    comparison, conversions, canonical bytes. Canonical form is an invariant of every operation;
    arithmetic, rounding and comparison refine the rationals; failures are exactly budget failures.
  \<^item> \<open>Order_Codec\<close>, \<open>Number_Order\<close> (\<open>number.rs\<close>, order bytes): an interface of order-preserving codecs
    and its interpretation by the continued-fraction encoding of numbers.
  \<^item> \<open>Key_Codec\<close> (\<open>key.rs\<close>): schemas, structural keys and their directed encodings; byte comparison of
    encodings is structural comparison, prefixes select exactly the keys they stand for, and the
    lexicographic successor bounds a prefix range.
  \<^item> \<open>Work_Tracker\<close> (\<open>work.rs\<close>): the work limits and counters; no history exceeds a limit.
  \<^item> \<open>Sorted_Collections\<close>: the interfaces \<open>ordered_set\<close> and \<open>ordered_map\<close> of \<open>BTreeSet\<close> and \<open>BTreeMap\<close>,
    interpreted by strictly sorted lists.
  \<^item> \<open>Ordered_Index\<close> (\<open>index.rs\<close>, \<open>OrderedIndex\<close>): the record of the index, resource checks, insertion,
    removal, update, rebuild. Every reachable index has its entries in exact correspondence with
    its rows, exact byte counters and stays within its limits; the mutations refine those of a
    finite map and report no corruption.
  \<^item> \<open>Index_Integrity\<close> (\<open>index.rs\<close>, \<open>OrderedIndexIntegrityTask\<close>): the four-phase scan, polled with
    any positive budgets. It ends within a stated number of polls, equals one pass over the
    contents, and accepts every reachable index.
  \<^item> \<open>Access_Stream\<close> (\<open>index.rs\<close>, \<open>AccessStream\<close>): cursor sources, streams and the queries that open
    them.
  \<^item> \<open>Bits\<close> (\<open>bits.rs\<close>): fixed-width bit sequences. Results are canonical and panics unreachable; the
    operations refine machine words of every length; conversions to numbers, digits and bytes are
    lossless; the order is lexicographic.

  \<^bold>\<open>Conventions.\<close> Structs are records, enums datatypes, \<open>Result\<close> a sum with the error on the left;
  error messages are constructors carrying the values the text prints; \<open>usize\<close> is \<^typ>\<open>nat\<close> with the
  64-bit bound written where the code depends on it; \<open>BigInt\<close> and \<open>BigUint\<close> are \<^typ>\<open>int\<close> and \<^typ>\<open>nat\<close>;
  a \<open>String\<close> inside keys is its UTF-8 bytes. A method that takes \<open>&mut self\<close> returns the new state beside
  its result, also when it fails.

  \<^bold>\<open>Bounds and fuel.\<close> The only fuel is that of \<^const>\<open>pull\<close> in \<open>Access_Stream\<close>, where cursor sources
  nest; the scans and loops of the other theories terminate by measures.

  \<^bold>\<open>Not modelled.\<close> Texts of numbers and of errors, serialisation glue, hashing, and the layers around
  the data model: the compiler, the plan executor, persistence, hosts, rendering and tools.
\<close>

end
